(* ===== verification/Phpco_Prelude.thy ===== *)
theory Phpco_Prelude
  imports Main "HOL-Library.Word"
begin

text \<open>
  The C machine the components share: the ways a C program can go wrong (\<open>fault\<close>), results
  that may be such a fault, a heap of cells of one type with \<open>malloc\<close>, \<open>emalloc\<close>,
  \<open>free\<close>, loads and stores, null-terminated chains of heap cells, the C \<open>int\<close> range and
  the facts about them that the component proofs rewrite with.
\<close>

unbundle bit_operations_syntax

section \<open>Machine types\<close>

type_synonym u32 = "32 word"
type_synonym addr = nat
type_synonym ptr = "nat option" \<comment> \<open>\<open>None\<close> is \<open>NULL\<close>\<close>

abbreviation (input) C_OK :: int where "C_OK \<equiv> 0"
abbreviation (input) C_ERR :: int where "C_ERR \<equiv> -1"

definition INT_MAX :: int where "INT_MAX = 2147483647"

text \<open>Conversion of a 64-bit value to a C \<open>int\<close> keeps the low 32 bits, read as signed.\<close>

definition to_cint :: "int \<Rightarrow> int" where
  "to_cint z = sint (word_of_int z :: u32)"

section \<open>Faults and results\<close>

text \<open>
  What the C standard leaves undefined, and a loop that never ends, are values of the model:
  a definition that reads freed memory returns \<open>Inl UseAfterFree\<close>, and so on.
\<close>

datatype fault =
    NullDeref | UseAfterFree | BadFree | OutOfBounds | Uninitialised | BadCast
  | BadJump | SignedOverflow | Diverges | ProcessExit

type_synonym 'a res = "fault + 'a"

primrec bind_res :: "'a res \<Rightarrow> ('a \<Rightarrow> 'b res) \<Rightarrow> 'b res" where
  "bind_res (Inl e) f = Inl e"
| "bind_res (Inr x) f = f x"

section \<open>The heap\<close>

text \<open>
  A heap holds cells of one type at addresses \<open>0, 1, \<dots>\<close>; \<open>fresh\<close> is the next address
  and counts the allocations made so far. Addresses are never handed out twice, so an access to
  a freed cell is always told apart from an access to a live one. \<open>oom n\<close> says whether the
  allocation numbered \<open>n\<close> fails, so a theorem for every heap covers every pattern of
  allocation failures.
\<close>

record 'a heap =
  cells :: "nat \<Rightarrow> 'a option"
  fresh :: nat
  oom :: "nat \<Rightarrow> bool"

definition malloc :: "'a \<Rightarrow> 'a heap \<Rightarrow> ptr \<times> 'a heap" where
  "malloc v h =
     (if oom h (fresh h) then (None, h\<lparr>fresh := Suc (fresh h)\<rparr>)
      else (Some (fresh h), h\<lparr>cells := (cells h)(fresh h := Some v), fresh := Suc (fresh h)\<rparr>))"

text \<open>Zend's allocator never returns \<open>NULL\<close>: it ends the request when memory runs out.\<close>

definition emalloc :: "'a \<Rightarrow> 'a heap \<Rightarrow> addr \<times> 'a heap" where
  "emalloc v h =
     (fresh h, h\<lparr>cells := (cells h)(fresh h := Some v), fresh := Suc (fresh h)\<rparr>)"

definition load :: "ptr \<Rightarrow> 'a heap \<Rightarrow> 'a res" where
  "load p h = (case p of None \<Rightarrow> Inl NullDeref
     | Some a \<Rightarrow> (case cells h a of None \<Rightarrow> Inl UseAfterFree | Some v \<Rightarrow> Inr v))"

definition modify :: "ptr \<Rightarrow> ('a \<Rightarrow> 'a) \<Rightarrow> 'a heap \<Rightarrow> 'a heap res" where
  "modify p f h = bind_res (load p h)
     (\<lambda>v. Inr (h\<lparr>cells := (cells h)(the p := Some (f v))\<rparr>))"

definition free_cell :: "ptr \<Rightarrow> 'a heap \<Rightarrow> 'a heap res" where
  "free_cell p h = (case p of None \<Rightarrow> Inr h
     | Some a \<Rightarrow> (case cells h a of None \<Rightarrow> Inl BadFree
         | Some _ \<Rightarrow> Inr (h\<lparr>cells := (cells h)(a := None)\<rparr>)))"

definition wf_heap :: "'a heap \<Rightarrow> bool" where
  "wf_heap h \<longleftrightarrow> (\<forall>a. cells h a \<noteq> None \<longrightarrow> a < fresh h)"

definition empty_heap :: "'a heap" where
  "empty_heap = \<lparr>cells = \<lambda>_. None, fresh = 0, oom = \<lambda>_. False\<rparr>"

section \<open>Chains of cells\<close>

text \<open>
  \<open>chain nxt c p as\<close>: following the \<open>nxt\<close> field from \<open>p\<close> visits the live cells at the
  addresses \<open>as\<close>, in this order, and then \<open>NULL\<close>.
\<close>

primrec chain :: "('n \<Rightarrow> ptr) \<Rightarrow> (nat \<Rightarrow> 'n option) \<Rightarrow> ptr \<Rightarrow> nat list \<Rightarrow> bool" where
  "chain nxt c p [] = (p = None)"
| "chain nxt c p (a # as) =
     (p = Some a \<and> (case c a of None \<Rightarrow> False | Some n \<Rightarrow> chain nxt c (nxt n) as))"

text \<open>The addresses a walk of at most \<open>n\<close> steps visits.\<close>

fun walk :: "nat \<Rightarrow> ('n \<Rightarrow> ptr) \<Rightarrow> (nat \<Rightarrow> 'n option) \<Rightarrow> ptr \<Rightarrow> nat list" where
  "walk n nxt c None = []"
| "walk 0 nxt c (Some a) = []"
| "walk (Suc n) nxt c (Some a) =
     (case c a of None \<Rightarrow> [] | Some nd \<Rightarrow> a # walk n nxt c (nxt nd))"

section \<open>C strings\<close>

text \<open>
  A \<open>char *\<close> denotes the characters up to the first NUL. Plain \<open>char\<close> is signed on the
  platforms the extension builds for, so promotion to \<open>int\<close> extends the sign.
\<close>

definition c_str :: "string \<Rightarrow> string" where
  "c_str s = takeWhile (\<lambda>c. c \<noteq> CHR 0x00) s"

definition char_word :: "char \<Rightarrow> u32" where
  "char_word c = word_of_int (sint (of_char c :: 8 word))"

section \<open>Lemmas\<close>

named_theorems c_mem \<open>unfolding of the memory operations\<close>

lemma bind_res_Inr_iff [simp]:
  "bind_res m f = Inr y \<longleftrightarrow> (\<exists>x. m = Inr x \<and> f x = Inr y)"
  by (cases m) auto

lemma bind_res_Inl_iff:
  "bind_res m f = Inl e \<longleftrightarrow> m = Inl e \<or> (\<exists>x. m = Inr x \<and> f x = Inl e)"
  by (cases m) auto

lemma bind_res_assoc: "bind_res (bind_res m f) g = bind_res m (\<lambda>x. bind_res (f x) g)"
  by (cases m) auto

lemma load_Some_live [simp, c_mem]: "cells h a = Some v \<Longrightarrow> load (Some a) h = Inr v"
  by (simp add: load_def)

lemma load_None [simp, c_mem]: "load None h = Inl NullDeref"
  by (simp add: load_def)

lemma load_dead [simp, c_mem]: "cells h a = None \<Longrightarrow> load (Some a) h = Inl UseAfterFree"
  by (simp add: load_def)

lemma load_Inr_iff: "load p h = Inr v \<longleftrightarrow> (\<exists>a. p = Some a \<and> cells h a = Some v)"
  by (auto simp: load_def split: option.splits)

lemma modify_live [simp, c_mem]:
  "cells h a = Some v \<Longrightarrow> modify (Some a) f h = Inr (h\<lparr>cells := (cells h)(a := Some (f v))\<rparr>)"
  by (simp add: modify_def)

lemma modify_dead [simp, c_mem]: "cells h a = None \<Longrightarrow> modify (Some a) f h = Inl UseAfterFree"
  by (simp add: modify_def)

lemma modify_None [simp, c_mem]: "modify None f h = Inl NullDeref"
  by (simp add: modify_def)

lemma free_cell_live [simp, c_mem]:
  "cells h a = Some v \<Longrightarrow> free_cell (Some a) h = Inr (h\<lparr>cells := (cells h)(a := None)\<rparr>)"
  by (simp add: free_cell_def)

lemma free_cell_dead [simp, c_mem]: "cells h a = None \<Longrightarrow> free_cell (Some a) h = Inl BadFree"
  by (simp add: free_cell_def)

lemma free_cell_None [simp, c_mem]: "free_cell None h = Inr h"
  by (simp add: free_cell_def)

lemma wf_heap_fresh [simp]: "wf_heap h \<Longrightarrow> cells h (fresh h) = None"
  by (auto simp: wf_heap_def)

lemma wf_heap_less: "wf_heap h \<Longrightarrow> cells h a = Some v \<Longrightarrow> a < fresh h"
  by (auto simp: wf_heap_def)

lemma wf_heap_empty [simp]: "wf_heap empty_heap"
  by (simp add: wf_heap_def empty_heap_def)

lemma wf_heap_malloc [intro]: "wf_heap h \<Longrightarrow> malloc v h = (p, h') \<Longrightarrow> wf_heap h'"
  by (auto simp: wf_heap_def malloc_def less_Suc_eq split: if_splits)

lemma wf_heap_upd [intro]:
  "wf_heap h \<Longrightarrow> cells h a \<noteq> None \<Longrightarrow> wf_heap (h\<lparr>cells := (cells h)(a := x)\<rparr>)"
  by (auto simp: wf_heap_def)

lemma chain_None [simp]: "chain nxt c None as \<longleftrightarrow> as = []"
  by (cases as) auto

lemma chain_Some:
  "chain nxt c (Some a) as \<longleftrightarrow>
     (\<exists>n bs. c a = Some n \<and> as = a # bs \<and> chain nxt c (nxt n) bs)"
  by (cases as) (auto split: option.splits)

lemma chain_unique: "chain nxt c p as \<Longrightarrow> chain nxt c p bs \<Longrightarrow> as = bs"
proof (induction as arbitrary: p bs)
  case Nil
  then show ?case by simp
next
  case (Cons a as)
  then show ?case
    by (cases bs) (auto split: option.splits)
qed

lemma chain_upd_other [simp]:
  "a \<notin> set as \<Longrightarrow> chain nxt (c(a := x)) p as = chain nxt c p as"
  by (induction as arbitrary: p) (auto split: option.splits)

lemma chain_upd_same_next:
  "c a = Some n \<Longrightarrow> nxt m = nxt n \<Longrightarrow> chain nxt (c(a := Some m)) p as = chain nxt c p as"
  by (induction as arbitrary: p) (auto split: option.splits)

lemma chain_live: "chain nxt c p as \<Longrightarrow> a \<in> set as \<Longrightarrow> c a \<noteq> None"
  by (induction as arbitrary: p) (auto split: option.splits)

lemma chain_suffix:
  "chain nxt c p (as @ b # bs) \<Longrightarrow> chain nxt c (Some b) (b # bs)"
  by (induction as arbitrary: p) (auto split: option.split_asm)

lemma chain_tail:
  "chain nxt c p (as @ b # bs) \<Longrightarrow> \<exists>n. c b = Some n \<and> chain nxt c (nxt n) bs"
  by (drule chain_suffix) (auto split: option.splits)

lemma chain_distinct: "chain nxt c p as \<Longrightarrow> distinct as"
proof (induction as arbitrary: p)
  case Nil
  then show ?case by simp
next
  case (Cons a as)
  then obtain n where n: "c a = Some n" "p = Some a" and ch: "chain nxt c (nxt n) as"
    by (auto split: option.splits)
  have "a \<notin> set as"
  proof
    assume "a \<in> set as"
    then obtain xs ys where "as = xs @ a # ys"
      by (auto simp: in_set_conv_decomp)
    with ch n have "chain nxt c (Some a) (a # ys)" "chain nxt c (Some a) (a # as)"
      by (auto dest: chain_suffix)
    then have "a # ys = a # as" by (rule chain_unique)
    with \<open>as = xs @ a # ys\<close> show False by auto
  qed
  with Cons.IH [OF ch] show ?case by simp
qed

lemma chain_length:
  assumes "chain nxt (cells h) p as" and "wf_heap h"
  shows "length as \<le> fresh h"
proof -
  have "set as \<subseteq> {..< fresh h}"
    using assms by (auto simp: wf_heap_def dest: chain_live)
  then have "card (set as) \<le> fresh h"
    using card_mono [of "{..< fresh h}"] by simp
  with distinct_card [OF chain_distinct [OF assms(1)]] show ?thesis by simp
qed

lemma chain_snoc_upd:
  assumes "chain nxt c p (as @ [b])" and "c b = Some n" and "nxt m = Some d"
    and "d \<notin> set (as @ [b])" and "nxt e = None"
  shows "chain nxt (c(b := Some m, d := Some e)) p (as @ [b, d])"
  using assms
proof (induction as arbitrary: p)
  case Nil
  then show ?case by (auto split: option.splits)
next
  case (Cons a as)
  from Cons.prems(1) have "distinct ((a # as) @ [b])" by (rule chain_distinct)
  with Cons show ?case by (auto split: option.splits)
qed

lemma walk_chain: "chain nxt c p as \<Longrightarrow> length as \<le> n \<Longrightarrow> walk n nxt c p = as"
proof (induction as arbitrary: n p)
  case Nil
  then show ?case by simp
next
  case (Cons a as)
  then show ?case by (cases n) (auto split: option.splits)
qed

lemma walk_chain_heap:
  "chain nxt (cells h) p as \<Longrightarrow> wf_heap h \<Longrightarrow> walk (fresh h) nxt (cells h) p = as"
  by (rule walk_chain [OF _ chain_length])

lemma c_str_idem [simp]: "c_str (c_str s) = c_str s"
  by (simp add: c_str_def takeWhile_idem)

lemma find_snoc:
  "List.find P (xs @ [y]) =
     (case List.find P xs of None \<Rightarrow> (if P y then Some y else None) | Some x \<Rightarrow> Some x)"
  by (induction xs) auto

end
