(* ===== verification/Cidmap.thy ===== *)
theory Cidmap
  imports Phpco_Prelude
begin

text \<open>
  The coroutine-id allocator of \<open>coroutine_util.c\<close>: a bitmap of 32768 ids with a count of the
  free ones and a next-fit cursor. The interface \<open>id_allocator\<close> is what the coroutine life
  cycle relies on; it is interpreted here on the bitmap.
\<close>

section \<open>The bitmap and its operations\<close>

text \<open>
  \<open>char page[65536]\<close> is only ever read and written as an array of 16384 words of 32 bits;
  \<open>page\<close> is that array, indexed by word, and the accesses check the bound. \<open>last_cid\<close> is
  the static variable of the same name.
\<close>

record cidmap =
  nr_free :: u32
  page :: "nat \<Rightarrow> u32"
  last_cid :: int

definition cidmap_init :: cidmap where
  "cidmap_init = \<lparr>nr_free = 0x8000, page = \<lambda>_. 0, last_cid = -1\<rparr>"

definition bit_mask :: "int \<Rightarrow> u32" where
  "bit_mask cid = push_bit (nat (cid AND 0x1f)) 1"

definition word_index :: "int \<Rightarrow> int" where
  "word_index cid = drop_bit 5 cid"

definition test_and_set_bit :: "int \<Rightarrow> (nat \<Rightarrow> u32) \<Rightarrow> (bool \<times> (nat \<Rightarrow> u32)) res" where
  "test_and_set_bit cid pg =
     (let mask = bit_mask cid; p = word_index cid
      in if p < 0 \<or> 16384 \<le> p then Inl OutOfBounds
         else let old = pg (nat p)
              in Inr (old AND mask = 0, pg(nat p := old OR mask)))"

definition clear_bit :: "int \<Rightarrow> (nat \<Rightarrow> u32) \<Rightarrow> (nat \<Rightarrow> u32) res" where
  "clear_bit cid pg =
     (let mask = bit_mask cid; p = word_index cid
      in if p < 0 \<or> 16384 \<le> p then Inl OutOfBounds
         else let old = pg (nat p) in Inr (pg(nat p := old AND NOT mask)))"

text \<open>
  The search loop: \<open>None\<close> is the loop that never ends, which the code would enter on a full
  bitmap with a mark outside \<open>0 \<dots> 0x7fff\<close>. The word read is always among the first 1024,
  because \<open>cid\<close> has been masked with \<open>0x7fff\<close>.
\<close>

partial_function (option) find_zero_loop :: "(nat \<Rightarrow> u32) \<Rightarrow> int \<Rightarrow> int \<Rightarrow> int option" where
  "find_zero_loop pg mark cid =
     (if cid = mark then Some cid
      else if NOT (pg (nat (word_index cid))) AND bit_mask cid \<noteq> 0 then Some cid
      else find_zero_loop pg mark ((cid + 1) AND 0x7fff))"

declare find_zero_loop.simps [code]

definition find_next_zero_bit :: "(nat \<Rightarrow> u32) \<Rightarrow> int \<Rightarrow> int option" where
  "find_next_zero_bit pg cid = find_zero_loop pg cid ((cid + 1) AND 0x7fff)"

definition alloc_cidmap :: "cidmap \<Rightarrow> (int \<times> cidmap) res" where
  "alloc_cidmap m =
     (if nr_free m = 0 then Inr (-1, m)
      else case find_next_zero_bit (page m) (last_cid m) of
        None \<Rightarrow> Inl Diverges
      | Some cid \<Rightarrow> bind_res (test_and_set_bit cid (page m)) (\<lambda>(was_clear, pg).
          if was_clear
          then Inr (cid + 1, m\<lparr>page := pg, nr_free := nr_free m - 1, last_cid := cid\<rparr>)
          else Inr (-1, m\<lparr>page := pg\<rparr>)))"

definition free_cidmap :: "int \<Rightarrow> cidmap \<Rightarrow> cidmap res" where
  "free_cidmap cid m =
     bind_res (clear_bit (cid - 1) (page m))
       (\<lambda>pg. Inr (m\<lparr>nr_free := nr_free m + 1, page := pg\<rparr>))"

section \<open>Abstraction and invariant\<close>

definition cid_bit :: "(nat \<Rightarrow> u32) \<Rightarrow> nat \<Rightarrow> bool" where
  "cid_bit pg i = bit (pg (i div 32)) (i mod 32)"

text \<open>The ids in use: bit \<open>c - 1\<close> stands for id \<open>c\<close>, \<open>1 \<le> c \<le> 32768\<close>.\<close>

definition used :: "cidmap \<Rightarrow> int set" where
  "used m = {c. 1 \<le> c \<and> c \<le> 32768 \<and> cid_bit (page m) (nat (c - 1))}"

definition cid_inv :: "cidmap \<Rightarrow> bool" where
  "cid_inv m \<longleftrightarrow>
     unat (nr_free m) + card (used m) = 32768 \<and> -1 \<le> last_cid m \<and> last_cid m < 32768"

text \<open>\<open>cyc c d\<close> is the id reached from cursor \<open>c\<close> (a bit number) after \<open>d\<close> cyclic steps.\<close>

definition cyc :: "int \<Rightarrow> nat \<Rightarrow> int" where
  "cyc c d = (c + int d) mod 32768"

section \<open>The interface of an id allocator\<close>

locale id_allocator =
  fixes alloc :: "'s \<Rightarrow> (int \<times> 's) res"
    and release :: "int \<Rightarrow> 's \<Rightarrow> 's res"
    and ids :: "'s \<Rightarrow> int set"
    and inv :: "'s \<Rightarrow> bool"
    and cap :: nat
  assumes ids_range: "inv s \<Longrightarrow> ids s \<subseteq> {1 .. int cap}"
    and alloc_full: "inv s \<Longrightarrow> card (ids s) = cap \<Longrightarrow> alloc s = Inr (-1, s)"
    and alloc_ok: "inv s \<Longrightarrow> card (ids s) < cap \<Longrightarrow>
          \<exists>c s'. alloc s = Inr (c, s') \<and> c \<notin> ids s \<and> ids s' = insert c (ids s) \<and> inv s'"
    and release_ok: "inv s \<Longrightarrow> c \<in> ids s \<Longrightarrow>
          \<exists>s'. release c s = Inr s' \<and> ids s' = ids s - {c} \<and> inv s'"
begin

lemma ids_finite: "inv s \<Longrightarrow> finite (ids s)"
  using ids_range finite_subset by blast

lemma ids_card: "inv s \<Longrightarrow> card (ids s) \<le> cap"
  using card_mono [OF _ ids_range] by fastforce

text \<open>An allocation never faults, and what it returns is \<open>-1\<close> or an id nobody holds.\<close>

lemma alloc_total: "inv s \<Longrightarrow> \<exists>c s'. alloc s = Inr (c, s') \<and> inv s'"
  using ids_card [of s] alloc_full [of s] alloc_ok [of s] by (cases "card (ids s) = cap") force+

lemma alloc_cases:
  assumes "inv s" and "alloc s = Inr (c, s')"
  obtains (full) "c = -1" and "s' = s" and "card (ids s) = cap"
  | (fresh) "c \<notin> ids s" and "1 \<le> c" and "c \<le> int cap" and "ids s' = insert c (ids s)"
      and "inv s'" and "card (ids s) < cap"
proof (cases "card (ids s) = cap")
  case True
  with assms alloc_full [OF assms(1)] full show thesis by simp
next
  case False
  with ids_card [OF assms(1)] have lt: "card (ids s) < cap" by simp
  from alloc_ok [OF assms(1) lt] assms(2) have "c \<notin> ids s" "ids s' = insert c (ids s)" "inv s'"
    by auto
  moreover from this ids_range have "c \<in> {1 .. int cap}" by blast
  ultimately show thesis using fresh lt by simp
qed

text \<open>Freeing what an allocation returned gives back the ids of before.\<close>

lemma alloc_release:
  assumes "inv s" and "alloc s = Inr (c, s')" and "c \<noteq> -1"
  shows "\<exists>s''. release c s' = Inr s'' \<and> ids s'' = ids s \<and> inv s''"
  using assms(1,2)
proof (cases rule: alloc_cases)
  case full
  with assms(3) show ?thesis by simp
next
  case fresh
  with release_ok [of s' c] show ?thesis by auto
qed

end

section \<open>The bitmap lemmas\<close>

lemma word_index_nat: "0 \<le> c \<Longrightarrow> nat (word_index c) = nat c div 32"
  by (simp add: word_index_def drop_bit_eq_div nat_div_distrib)

lemma word_index_range: "0 \<le> c \<Longrightarrow> c < 32768 \<Longrightarrow> 0 \<le> word_index c \<and> word_index c < 1024"
  by (auto simp: word_index_def drop_bit_eq_div)

lemma mask_5: "(c AND 0x1f) = c mod (32 :: int)"
  using take_bit_eq_mask [of 5 c] by (simp add: take_bit_eq_mod mask_eq_exp_minus_1)

lemma mask_15: "(c AND 0x7fff) = c mod (32768 :: int)"
  using take_bit_eq_mask [of 15 c] by (simp add: take_bit_eq_mod mask_eq_exp_minus_1)

lemma bit_mask_nat: "0 \<le> c \<Longrightarrow> bit_mask c = push_bit (nat c mod 32) 1"
  by (simp add: bit_mask_def mask_5 nat_mod_distrib)

lemma not_and_exp_eq_0: "n < 32 \<Longrightarrow> (NOT (w :: u32) AND 2 ^ n = 0) = bit w n"
  by (simp add: and_exp_eq_0_iff_not_bit bit_simps)

lemma cid_bit_set:
  "cid_bit (pg(i div 32 := pg (i div 32) OR push_bit (i mod 32) 1)) j = (j = i \<or> cid_bit pg j)"
proof (cases "j div 32 = i div 32")
  case True
  then have "(j mod 32 = i mod 32) = (j = i)" by (metis div_mult_mod_eq)
  with True show ?thesis by (auto simp: cid_bit_def bit_simps)
next
  case False
  then show ?thesis by (auto simp: cid_bit_def)
qed

lemma cid_bit_clear:
  "cid_bit (pg(i div 32 := pg (i div 32) AND NOT (push_bit (i mod 32) 1))) j
     = (j \<noteq> i \<and> cid_bit pg j)"
proof (cases "j div 32 = i div 32")
  case True
  then have "(j mod 32 = i mod 32) = (j = i)" by (metis div_mult_mod_eq)
  with True show ?thesis by (auto simp: cid_bit_def bit_simps)
next
  case False
  then show ?thesis by (auto simp: cid_bit_def)
qed

lemma test_and_set_bit_eq:
  "0 \<le> c \<Longrightarrow> c < 32768 \<Longrightarrow>
     test_and_set_bit c pg = Inr (\<not> cid_bit pg (nat c),
       pg(nat c div 32 := pg (nat c div 32) OR push_bit (nat c mod 32) 1))"
  using word_index_range [of c]
  by (simp add: test_and_set_bit_def Let_def word_index_nat bit_mask_nat cid_bit_def
      and_exp_eq_0_iff_not_bit)

lemma clear_bit_eq:
  "0 \<le> c \<Longrightarrow> c < 32768 \<Longrightarrow>
     clear_bit c pg = Inr (pg(nat c div 32 := pg (nat c div 32) AND NOT (push_bit (nat c mod 32) 1)))"
  using word_index_range [of c]
  by (simp add: clear_bit_def Let_def word_index_nat bit_mask_nat)

lemma find_zero_loop_step:
  "0 \<le> c \<Longrightarrow> find_zero_loop pg mark c =
     (if c = mark \<or> \<not> cid_bit pg (nat c) then Some c
      else find_zero_loop pg mark ((c + 1) mod 32768))"
  by (subst find_zero_loop.simps)
    (simp add: word_index_nat bit_mask_nat not_and_exp_eq_0 cid_bit_def mask_15)

text \<open>The loop returns the first position that is the mark or whose bit is clear.\<close>

lemma find_zero_loop_first:
  assumes "0 \<le> c" and "c < 32768"
    and "\<And>k. k < d \<Longrightarrow> cyc c k \<noteq> mark \<and> cid_bit pg (nat (cyc c k))"
    and "cyc c d = mark \<or> \<not> cid_bit pg (nat (cyc c d))"
  shows "find_zero_loop pg mark c = Some (cyc c d)"
  using assms
proof (induction d arbitrary: c)
  case 0
  then show ?case by (simp add: cyc_def find_zero_loop_step)
next
  case (Suc d)
  have shift: "cyc ((c + 1) mod 32768) k = cyc c (Suc k)" for k
    by (simp add: cyc_def mod_simps ac_simps)
  from Suc.prems(3) [of 0] Suc.prems(1,2) have "c \<noteq> mark" "cid_bit pg (nat c)"
    by (auto simp: cyc_def)
  with Suc.prems(1) have "find_zero_loop pg mark c = find_zero_loop pg mark ((c + 1) mod 32768)"
    by (simp add: find_zero_loop_step)
  also have "\<dots> = Some (cyc ((c + 1) mod 32768) d)"
  proof (rule Suc.IH)
    show "cyc ((c + 1) mod 32768) k \<noteq> mark \<and> cid_bit pg (nat (cyc ((c + 1) mod 32768) k))"
      if "k < d" for k
      using Suc.prems(3) [of "Suc k"] that by (simp add: shift)
    show "cyc ((c + 1) mod 32768) d = mark \<or> \<not> cid_bit pg (nat (cyc ((c + 1) mod 32768) d))"
      using Suc.prems(4) by (simp add: shift)
  qed simp_all
  finally show ?case by (simp add: shift)
qed

lemma cyc_range [simp]: "0 \<le> cyc c d" "cyc c d < 32768"
  by (simp_all add: cyc_def)

lemma cyc_reaches: "0 \<le> j \<Longrightarrow> j < 32768 \<Longrightarrow> cyc c (nat ((j - c) mod 32768)) = j"
  by (simp add: cyc_def mod_simps)

lemma cyc_mod: "cyc ((m + 1) mod 32768) k = cyc m (Suc k)"
  by (simp add: cyc_def mod_simps ac_simps)

text \<open>
  With a clear bit somewhere, the search returns; the position it returns is clear and every
  position strictly between the cursor and it is set (next fit).
\<close>

lemma find_next_zero_bit_finds:
  assumes m: "-1 \<le> m" "m < 32768"
    and j: "0 \<le> j" "j < 32768" "\<not> cid_bit pg (nat j)"
  shows "\<exists>d. find_next_zero_bit pg m = Some (cyc m (Suc d)) \<and> d < 32768
           \<and> \<not> cid_bit pg (nat (cyc m (Suc d)))
           \<and> (\<forall>k. k < d \<longrightarrow> cid_bit pg (nat (cyc m (Suc k))))"
proof -
  let ?c = "(m + 1) mod 32768"
  let ?stop = "\<lambda>d. cyc m (Suc d) = m \<or> \<not> cid_bit pg (nat (cyc m (Suc d)))"
  define d0 where "d0 = nat ((j - ?c) mod 32768)"
  have d0: "cyc m (Suc d0) = j" "d0 < 32768"
    using cyc_reaches [OF j(1,2), of ?c] by (simp_all add: d0_def cyc_mod nat_less_iff)
  with j(3) have stop0: "?stop d0" by simp
  define d where "d = (LEAST d. ?stop d)"
  have stop: "?stop d" using stop0 unfolding d_def by (rule LeastI)
  have before: "cyc m (Suc k) \<noteq> m \<and> cid_bit pg (nat (cyc m (Suc k)))" if "k < d" for k
    using not_less_Least [of k ?stop] that by (auto simp: d_def)
  have "d \<le> d0" using stop0 unfolding d_def by (rule Least_le)
  have clear: "\<not> cid_bit pg (nat (cyc m (Suc d)))"
  proof (cases "cyc m (Suc d) = m")
    case False
    with stop show ?thesis by simp
  next
    case True
    define q where "q = (m + (1 + int d)) div 32768"
    have "32768 * q + (m + (1 + int d)) mod 32768 = m + (1 + int d)"
      unfolding q_def by (rule mult_div_mod_eq)
    moreover have "(m + (1 + int d)) mod 32768 = m" using True by (simp add: cyc_def)
    ultimately have q: "1 + int d = 32768 * q" by linarith
    then have "1 \<le> q" by (cases "1 \<le> q") auto
    with q have "d \<ge> 32767" by linarith
    with \<open>d \<le> d0\<close> d0(2) have "d = d0" by simp
    with d0 j(3) show ?thesis by simp
  qed
  have "find_next_zero_bit pg m = Some (cyc ?c d)"
    unfolding find_next_zero_bit_def mask_15
  proof (rule find_zero_loop_first)
    show "cyc ?c k \<noteq> m \<and> cid_bit pg (nat (cyc ?c k))" if "k < d" for k
      using before [OF that] by (simp only: cyc_mod simp_thms)
    show "cyc ?c d = m \<or> \<not> cid_bit pg (nat (cyc ?c d))"
      using stop by (simp only: cyc_mod simp_thms)
  qed simp_all
  then have found: "find_next_zero_bit pg m = Some (cyc m (Suc d))" by (simp only: cyc_mod)
  have "d < 32768" using \<open>d \<le> d0\<close> d0(2) by simp
  moreover have "\<forall>k. k < d \<longrightarrow> cid_bit pg (nat (cyc m (Suc k)))" using before by blast
  ultimately show ?thesis using found clear by blast
qed

lemma used_range: "used m \<subseteq> {1 .. 32768}"
  by (auto simp: used_def)

lemma finite_used [simp]: "finite (used m)"
  using used_range finite_subset by blast

lemma card_used: "card (used m) \<le> 32768"
  using card_mono [OF _ used_range [of m]] by simp

lemma used_set_bit:
  "0 \<le> c \<Longrightarrow> c < 32768 \<Longrightarrow>
     used (m\<lparr>page := (page m)(nat c div 32 := page m (nat c div 32) OR push_bit (nat c mod 32) 1),
            nr_free := n, last_cid := l\<rparr>) = insert (c + 1) (used m)"
  by (auto simp: used_def cid_bit_set simp del: push_bit_of_1)

lemma used_clear_bit:
  "0 \<le> c \<Longrightarrow> c < 32768 \<Longrightarrow>
     used (m\<lparr>nr_free := n,
            page := (page m)(nat c div 32 := page m (nat c div 32) AND NOT (push_bit (nat c mod 32) 1))\<rparr>)
       = used m - {c + 1}"
  by (auto simp: used_def cid_bit_clear simp del: push_bit_of_1)

lemma not_in_used_clear:
  assumes "card (used m) < 32768"
  shows "\<exists>j. 0 \<le> j \<and> j < 32768 \<and> \<not> cid_bit (page m) (nat j)"
proof -
  have "used m \<noteq> {1 .. 32768}" using assms by auto
  then obtain c where "c \<in> {1 .. 32768}" "c \<notin> used m" using used_range [of m] by blast
  then show ?thesis by (intro exI [of _ "c - 1"]) (auto simp: used_def)
qed

lemma unat_nr_free_zero: "cid_inv m \<Longrightarrow> (nr_free m = 0) = (card (used m) = 32768)"
  by (auto simp: cid_inv_def unat_eq_0 [symmetric])

lemma unat_dec: "(w :: u32) \<noteq> 0 \<Longrightarrow> unat (w - 1) = unat w - 1"
  by (simp add: unat_minus_one)

lemma unat_inc: "unat (w :: u32) < 32768 \<Longrightarrow> unat (w + 1) = unat w + 1"
  by (simp add: unat_word_ariths)

lemma alloc_cidmap_full: "cid_inv m \<Longrightarrow> card (used m) = 32768 \<Longrightarrow> alloc_cidmap m = Inr (-1, m)"
  by (simp add: alloc_cidmap_def unat_nr_free_zero)

lemma alloc_cidmap_free:
  assumes "cid_inv m" and "card (used m) < 32768"
  shows "\<exists>d m'. alloc_cidmap m = Inr (cyc (last_cid m) (Suc d) + 1, m')
           \<and> cyc (last_cid m) (Suc d) + 1 \<notin> used m
           \<and> used m' = insert (cyc (last_cid m) (Suc d) + 1) (used m) \<and> cid_inv m'
           \<and> last_cid m' = cyc (last_cid m) (Suc d)
           \<and> (\<forall>k < d. cyc (last_cid m) (Suc k) + 1 \<in> used m)"
proof -
  from assms have nz: "nr_free m \<noteq> 0" using unat_nr_free_zero [of m] by simp
  from not_in_used_clear [OF assms(2)] obtain j where
    "0 \<le> j" "j < 32768" "\<not> cid_bit (page m) (nat j)" by blast
  with assms(1) obtain d where
      d: "find_next_zero_bit (page m) (last_cid m) = Some (cyc (last_cid m) (Suc d))"
        "\<not> cid_bit (page m) (nat (cyc (last_cid m) (Suc d)))"
        "\<forall>k. k < d \<longrightarrow> cid_bit (page m) (nat (cyc (last_cid m) (Suc k)))"
    using find_next_zero_bit_finds [of "last_cid m" j "page m"] unfolding cid_inv_def by blast
  let ?c = "cyc (last_cid m) (Suc d)"
  have new: "?c + 1 \<notin> used m" using d(2) by (simp add: used_def)
  define m' where "m' = m\<lparr>page := (page m)(nat ?c div 32 :=
      page m (nat ?c div 32) OR push_bit (nat ?c mod 32) 1), nr_free := nr_free m - 1, last_cid := ?c\<rparr>"
  have "alloc_cidmap m = Inr (?c + 1, m')"
    using nz d(1,2) by (simp add: alloc_cidmap_def test_and_set_bit_eq m'_def)
  moreover have u: "used m' = insert (?c + 1) (used m)"
    unfolding m'_def by (rule used_set_bit) simp_all
  moreover have "cid_inv m'"
  proof -
    have "unat (nr_free m) \<noteq> 0" using nz by (simp add: unat_eq_0)
    with assms(1) new u nz show ?thesis
      using cyc_range [of "last_cid m" "Suc d"]
      by (simp add: cid_inv_def unat_dec m'_def del: cyc_range)
  qed
  moreover have "\<forall>k < d. cyc (last_cid m) (Suc k) + 1 \<in> used m"
  proof (intro allI impI)
    fix k assume "k < d"
    with d(3) have "cid_bit (page m) (nat (cyc (last_cid m) (Suc k)))" by blast
    then show "cyc (last_cid m) (Suc k) + 1 \<in> used m"
      using cyc_range [of "last_cid m" "Suc k"] by (simp add: used_def del: cyc_range)
  qed
  moreover have "last_cid m' = ?c" by (simp add: m'_def)
  ultimately show ?thesis using new by blast
qed

lemma free_cidmap_used:
  assumes "cid_inv m" and "c \<in> used m"
  shows "\<exists>m'. free_cidmap c m = Inr m' \<and> used m' = used m - {c} \<and> cid_inv m'"
proof -
  have c: "0 \<le> c - 1" "c - 1 < 32768" using assms(2) by (auto simp: used_def)
  define m' where "m' = m\<lparr>nr_free := nr_free m + 1, page := (page m)(nat (c - 1) div 32 :=
      page m (nat (c - 1) div 32) AND NOT (push_bit (nat (c - 1) mod 32) 1))\<rparr>"
  have "free_cidmap c m = Inr m'"
    using c by (simp add: free_cidmap_def clear_bit_eq m'_def)
  moreover have u: "used m' = used m - {c}"
    using used_clear_bit [OF c, of m "nr_free m + 1"] by (simp add: m'_def)
  moreover have "cid_inv m'"
  proof -
    have "0 < card (used m)" using assms(2) by (auto simp: card_gt_0_iff)
    with assms(1) have "unat (nr_free m) < 32768" by (simp add: cid_inv_def)
    with assms u \<open>0 < card (used m)\<close> show ?thesis
      by (simp add: cid_inv_def unat_inc m'_def)
  qed
  ultimately show ?thesis by blast
qed

lemma used_init [simp]: "used cidmap_init = {}"
  by (auto simp: used_def cidmap_init_def cid_bit_def)

lemma cid_inv_init [simp]: "cid_inv cidmap_init"
  unfolding cid_inv_def used_init by (simp add: cidmap_init_def)

interpretation cm: id_allocator alloc_cidmap free_cidmap used cid_inv 32768
proof unfold_locales
  show "used m \<subseteq> {1 .. int 32768}" if "cid_inv m" for m
    using used_range by simp
  show "alloc_cidmap m = Inr (-1, m)" if "cid_inv m" "card (used m) = 32768" for m
    using that by (rule alloc_cidmap_full)
  show "\<exists>c m'. alloc_cidmap m = Inr (c, m') \<and> c \<notin> used m \<and> used m' = insert c (used m) \<and> cid_inv m'"
    if "cid_inv m" "card (used m) < 32768" for m
    using alloc_cidmap_free [OF that] by blast
  show "\<exists>m'. free_cidmap c m = Inr m' \<and> used m' = used m - {c} \<and> cid_inv m'"
    if "cid_inv m" "c \<in> used m" for m c
    using that by (rule free_cidmap_used)
qed

section \<open>Properties\<close>

text \<open>C14: \<open>alloc_cidmap\<close> on a consistent map with a free id always returns, never faults, and hands
  out an id between 1 and 32768 that was free, marks exactly that one as used and keeps the map
  consistent; the id is the first free one after \<open>last_cid\<close> in cyclic order.\<close>

theorem alloc_cidmap_correct:
  assumes "cid_inv m" and "nr_free m \<noteq> 0"
  shows "\<exists>d m'. let c = cyc (last_cid m) (Suc d) + 1 in
     alloc_cidmap m = Inr (c, m') \<and> 1 \<le> c \<and> c \<le> 32768 \<and> c \<notin> used m
     \<and> used m' = insert c (used m) \<and> cid_inv m' \<and> last_cid m' = c - 1
     \<and> (\<forall>k. k < d \<longrightarrow> cyc (last_cid m) (Suc k) + 1 \<in> used m)"
proof -
  have "card (used m) < 32768"
    using assms unat_nr_free_zero [OF assms(1)] card_used [of m] by simp
  from alloc_cidmap_free [OF assms(1) this] obtain d m' where
    "alloc_cidmap m = Inr (cyc (last_cid m) (Suc d) + 1, m')"
    "cyc (last_cid m) (Suc d) + 1 \<notin> used m"
    "used m' = insert (cyc (last_cid m) (Suc d) + 1) (used m)" "cid_inv m'"
    "last_cid m' = cyc (last_cid m) (Suc d)"
    "\<forall>k < d. cyc (last_cid m) (Suc k) + 1 \<in> used m" by blast
  then show ?thesis
    using cyc_range [of "last_cid m" "Suc d"]
    by (intro exI [of _ d] exI [of _ m']) (simp add: Let_def del: cyc_range)
qed

theorem alloc_cidmap_correct_witness:
  "cid_inv cidmap_init \<and> nr_free cidmap_init \<noteq> 0 \<and> (\<exists>c m'. alloc_cidmap cidmap_init = Inr (c, m')
     \<and> 1 \<le> c \<and> c \<le> 32768 \<and> used m' = {c} \<and> cid_inv m')"
proof -
  have nz: "nr_free cidmap_init \<noteq> 0" by (simp add: cidmap_init_def)
  from alloc_cidmap_correct [OF cid_inv_init nz] nz show ?thesis by (auto simp: Let_def)
qed

text \<open>C25: \<open>alloc_cidmap\<close> on a consistent map never faults and never loops for ever, whatever the
  bitmap; it answers \<open>-1\<close> exactly when all 32768 ids are in use, and then changes nothing.\<close>

theorem alloc_cidmap_exhausted:
  assumes "cid_inv m"
  shows "\<exists>c m'. alloc_cidmap m = Inr (c, m') \<and> (c = -1 \<longleftrightarrow> card (used m) = 32768)
    \<and> (c = -1 \<longrightarrow> m' = m)"
proof -
  obtain c m' where a: "alloc_cidmap m = Inr (c, m')" using cm.alloc_total [OF assms] by blast
  from assms a show ?thesis by (cases rule: cm.alloc_cases) (auto simp: a)
qed

theorem alloc_cidmap_exhausted_witness:
  "\<exists>c m'. alloc_cidmap cidmap_init = Inr (c, m') \<and> c \<noteq> -1"
  using alloc_cidmap_exhausted [OF cid_inv_init] by auto

text \<open>C26: \<open>free_cidmap\<close> of an id in use gives exactly that id back and keeps the count of free ids
  equal to the number of clear bits.\<close>

theorem free_cidmap_correct:
  assumes "cid_inv m" and "c \<in> used m"
  shows "\<exists>m'. free_cidmap c m = Inr m' \<and> used m' = used m - {c} \<and> cid_inv m'
    \<and> unat (nr_free m') = unat (nr_free m) + 1"
proof -
  from cm.release_ok [OF assms] obtain m' where
    m': "free_cidmap c m = Inr m'" "used m' = used m - {c}" "cid_inv m'" by blast
  have "card (used m) = Suc (card (used m - {c}))"
    by (rule card.remove) (use assms(2) in simp_all)
  then have "card (used m) = card (used m') + 1" using m'(2) by simp
  with m'(3) assms(1) have "unat (nr_free m') = unat (nr_free m) + 1" by (simp add: cid_inv_def)
  with m' show ?thesis by blast
qed

text \<open>The map after the first allocation.\<close>

lemma cidmap_one: obtains c m where "alloc_cidmap cidmap_init = Inr (c, m)" and "cid_inv m"
    and "used m = {c}" and "c \<noteq> -1"
proof -
  obtain c m where a: "alloc_cidmap cidmap_init = Inr (c, m)" using cm.alloc_total [OF cid_inv_init] by blast
  show thesis using cid_inv_init a
    by (cases rule: cm.alloc_cases) (use that a in auto)
qed

theorem free_cidmap_correct_witness:
  "\<exists>c m m'. alloc_cidmap cidmap_init = Inr (c, m) \<and> free_cidmap c m = Inr m' \<and> used m' = {} \<and> cid_inv m'"
proof -
  obtain c m where "alloc_cidmap cidmap_init = Inr (c, m)" "cid_inv m" "used m = {c}"
    by (rule cidmap_one)
  with free_cidmap_correct [of m c] show ?thesis by auto
qed

text \<open>\<open>free_cidmap\<close> checks nothing: giving back an id that is not in use raises the count of
  free ids above the number of clear bits, and the id \<open>-1\<close> of a failed allocation makes it write
  outside the page.\<close>

lemma free_cidmap_unchecked:
  assumes "cid_inv m" and "1 \<le> c" and "c \<le> 32768" and "c \<notin> used m"
  shows "(\<exists>m'. free_cidmap c m = Inr m' \<and> used m' = used m \<and> \<not> cid_inv m')
    \<and> free_cidmap (-1) m = Inl OutOfBounds"
proof -
  have c: "0 \<le> c - 1" "c - 1 < 32768" using assms by auto
  define m' where "m' = m\<lparr>nr_free := nr_free m + 1, page := (page m)(nat (c - 1) div 32 :=
      page m (nat (c - 1) div 32) AND NOT (push_bit (nat (c - 1) mod 32) 1))\<rparr>"
  have "free_cidmap c m = Inr m'" using c by (simp add: free_cidmap_def clear_bit_eq m'_def)
  moreover have u: "used m' = used m"
    using used_clear_bit [OF c, of m "nr_free m + 1"] assms(4) by (simp add: m'_def)
  moreover have "\<not> cid_inv m'"
    using assms(1) u by (auto simp: cid_inv_def m'_def unat_word_ariths)
  moreover have "free_cidmap (-1) m = Inl OutOfBounds"
    by (simp add: free_cidmap_def clear_bit_def word_index_def drop_bit_eq_div Let_def)
  ultimately show ?thesis by blast
qed

end
