(* ===== verification/Link.thy ===== *)
theory Link
  imports Phpco_Prelude
begin

text \<open>
  The linked queue of \<open>src/link/link.c\<close>, which holds the socket timeouts of the event loop: a
  header with \<open>front\<close>, \<open>rear\<close> and \<open>size\<close> over a heap of nodes. \<open>slot_register\<close> is
  the contract the queue really implements: a register that can be filled once.
\<close>

section \<open>The queue and its operations\<close>

record 'd node =
  data :: 'd
  node_next :: ptr

record link =
  front :: ptr
  rear :: ptr
  lsize :: int

type_synonym 'd queue = "link \<times> 'd node heap"

text \<open>\<open>initqueue\<close> ends the process when the header cannot be allocated (\<open>ok = False\<close>).\<close>

definition initqueue :: "bool \<Rightarrow> link res" where
  "initqueue ok = (if \<not> ok then Inl ProcessExit else Inr \<lparr>front = None, rear = None, lsize = 0\<rparr>)"

definition emptyqueue :: "link \<Rightarrow> bool" where
  "emptyqueue p \<longleftrightarrow> front p = None \<and> rear p = None"

definition getlength :: "link \<Rightarrow> int" where
  "getlength p = lsize p"

text \<open>The result of \<open>malloc\<close> is not checked: the write to \<open>que->data\<close> faults on \<open>NULL\<close>.\<close>

definition pushqueue :: "'d \<Rightarrow> 'd queue \<Rightarrow> 'd queue res" where
  "pushqueue x q =
     (let (p, h) = q; (que, h1) = malloc \<lparr>data = x, node_next = None\<rparr> h
      in case que of None \<Rightarrow> Inl NullDeref
         | Some a \<Rightarrow>
           (let p1 = (if emptyqueue p then p\<lparr>front := Some a, rear := Some a\<rparr>
                      else p\<lparr>rear := Some a\<rparr>)
            in if lsize p1 = INT_MAX then Inl SignedOverflow
               else Inr (p1\<lparr>lsize := lsize p1 + 1\<rparr>, h1)))"

text \<open>
  Taking node \<open>q\<close>, whose predecessor in the walk is \<open>f\<close>, out of the list: the code of
  \<open>delete_node\<close> and, word for word, of the event loop.
\<close>

definition unlink :: "ptr \<Rightarrow> addr \<Rightarrow> 'd queue \<Rightarrow> 'd queue res" where
  "unlink f q ph =
     (let (p, h) = ph
      in if Some q = front p
         then bind_res (load (front p) h) (\<lambda>nd. Inr (p\<lparr>front := node_next nd\<rparr>, h))
         else if Some q = rear p then Inr (p\<lparr>rear := f\<rparr>, h)
         else bind_res (load (Some q) h) (\<lambda>nd.
                bind_res (modify f (\<lambda>fn. fn\<lparr>node_next := node_next nd\<rparr>) h) (\<lambda>h1. Inr (p, h1))))"

definition remove_node :: "ptr \<Rightarrow> addr \<Rightarrow> 'd queue \<Rightarrow> 'd queue res" where
  "remove_node f q ph =
     bind_res (unlink f q ph) (\<lambda>(p, h).
     bind_res (free_cell (Some q) h) (\<lambda>h1. Inr (p\<lparr>lsize := lsize p - 1\<rparr>, h1)))"

text \<open>
  The walk of \<open>delete_node\<close>. The loop changes nothing until it finds the node, so a walk over
  more live nodes than were ever allocated goes round a cycle and never ends.
\<close>

fun delete_loop :: "nat \<Rightarrow> 'd \<Rightarrow> ptr \<Rightarrow> ptr \<Rightarrow> 'd queue \<Rightarrow> 'd queue res" where
  "delete_loop n d f None ph = Inr ph"
| "delete_loop 0 d f (Some a) ph = Inl Diverges"
| "delete_loop (Suc n) d f (Some a) ph =
     bind_res (load (Some a) (snd ph)) (\<lambda>nd.
       if data nd = d then remove_node f a ph
       else delete_loop n d (Some a) (node_next nd) ph)"

definition delete_node :: "'d \<Rightarrow> 'd queue \<Rightarrow> 'd queue res" where
  "delete_node d ph =
     (if lsize (fst ph) = 0 then Inr ph
      else delete_loop (Suc (fresh (snd ph))) d None (front (fst ph)) ph)"

text \<open>\<open>printqueue\<close> walks the list and does nothing with it.\<close>

fun print_loop :: "nat \<Rightarrow> ptr \<Rightarrow> 'd node heap \<Rightarrow> unit res" where
  "print_loop n None h = Inr ()"
| "print_loop 0 (Some a) h = Inl Diverges"
| "print_loop (Suc n) (Some a) h = bind_res (load (Some a) h) (\<lambda>nd. print_loop n (node_next nd) h)"

definition printqueue :: "'d queue \<Rightarrow> unit res" where
  "printqueue ph = print_loop (Suc (fresh (snd ph))) (front (fst ph)) (snd ph)"

section \<open>Abstraction and invariant\<close>

text \<open>
  What the queue holds: nothing yet, one element, or nothing any more. \<open>Spent\<close> is the state
  after the only element was removed: \<open>front\<close> is \<open>NULL\<close> while \<open>rear\<close> still points to the
  freed node, so \<open>emptyqueue\<close> is false and no push can set \<open>front\<close> again.
\<close>

datatype 'd slot = Vacant | Held 'd | Spent

definition link_view :: "'d queue \<Rightarrow> 'd slot" where
  "link_view q = (let (p, h) = q in
     case front p of
       None \<Rightarrow> (if rear p = None then Vacant else Spent)
     | Some a \<Rightarrow> (case cells h a of None \<Rightarrow> Spent | Some nd \<Rightarrow> Held (data nd)))"

definition link_inv :: "'d queue \<Rightarrow> bool" where
  "link_inv q \<longleftrightarrow> (let (p, h) = q in
     wf_heap h \<and> 0 \<le> lsize p \<and> lsize p \<le> INT_MAX \<and> (emptyqueue p \<longrightarrow> lsize p = 0)
     \<and> (case front p of None \<Rightarrow> True
        | Some a \<Rightarrow> rear p \<noteq> None \<and> 1 \<le> lsize p \<and>
            (case cells h a of None \<Rightarrow> False | Some nd \<Rightarrow> node_next nd = None)))"

definition link_room :: "'d queue \<Rightarrow> bool" where
  "link_room q \<longleftrightarrow> lsize (fst q) < INT_MAX \<and> \<not> oom (snd q) (fresh (snd q))"

fun slot_push :: "'d \<Rightarrow> 'd slot \<Rightarrow> 'd slot" where
  "slot_push x Vacant = Held x"
| "slot_push x s = s"

definition slot_remove :: "'d \<Rightarrow> 'd slot \<Rightarrow> 'd slot" where
  "slot_remove d s = (if s = Held d then Spent else s)"

text \<open>The queues a program can build from a fresh one.\<close>

inductive queue_reach :: "'d queue \<Rightarrow> bool" where
  start: "initqueue True = Inr p \<Longrightarrow> wf_heap h \<Longrightarrow> queue_reach (p, h)"
| push: "queue_reach q \<Longrightarrow> pushqueue x q = Inr q' \<Longrightarrow> queue_reach q'"
| delete: "queue_reach q \<Longrightarrow> delete_node x q = Inr q' \<Longrightarrow> queue_reach q'"

text \<open>Two small queues: nothing pushed yet, and one element.\<close>

definition queue_none :: "nat queue" where
  "queue_none = (\<lparr>front = None, rear = None, lsize = 0\<rparr>, empty_heap)"

definition queue_one :: "nat queue" where
  "queue_one = (\<lparr>front = Some 0, rear = Some 0, lsize = 1\<rparr>,
     empty_heap\<lparr>cells := [0 \<mapsto> \<lparr>data = 7, node_next = None\<rparr>], fresh := 1\<rparr>)"

section \<open>The contract of a register that is filled once\<close>

locale slot_register =
  fixes push :: "'d \<Rightarrow> 's \<Rightarrow> 's res"
    and remove :: "'d \<Rightarrow> 's \<Rightarrow> 's res"
    and view :: "'s \<Rightarrow> 'd slot"
    and count :: "'s \<Rightarrow> int"
    and room :: "'s \<Rightarrow> bool"
    and inv :: "'s \<Rightarrow> bool"
  assumes push_ok: "inv s \<Longrightarrow> room s \<Longrightarrow>
        \<exists>s'. push x s = Inr s' \<and> inv s' \<and> view s' = slot_push x (view s) \<and> count s' = count s + 1"
    and push_no_room: "inv s \<Longrightarrow> \<not> room s \<Longrightarrow> \<exists>e. push x s = Inl e"
    and remove_ok: "inv s \<Longrightarrow>
        \<exists>s'. remove x s = Inr s' \<and> inv s' \<and> view s' = slot_remove x (view s)
          \<and> count s' = (if view s = Held x then count s - 1 else count s)"
begin

lemma push_view: "inv s \<Longrightarrow> push x s = Inr s' \<Longrightarrow> inv s' \<and> view s' = slot_push x (view s)"
  using push_ok [of s x] push_no_room [of s x] by (cases "room s") auto

lemma remove_view: "inv s \<Longrightarrow> remove x s = Inr s' \<Longrightarrow> inv s' \<and> view s' = slot_remove x (view s)"
  using remove_ok [of s x] by auto

text \<open>A held element stays the only one until it is removed, and a spent register stays spent.\<close>

lemma held_blocks_push: "inv s \<Longrightarrow> view s = Held y \<Longrightarrow> push x s = Inr s' \<Longrightarrow> view s' = Held y"
  by (drule (1) push_view) simp

lemma spent_stays:
  "inv s \<Longrightarrow> view s = Spent \<Longrightarrow> push x s = Inr s' \<or> remove x s = Inr s' \<Longrightarrow> view s' = Spent"
  using push_view [of s x s'] remove_view [of s x s'] by (auto simp: slot_remove_def)

end

section \<open>Lemmas\<close>

lemmas link_defs = link_inv_def link_view_def link_room_def emptyqueue_def

lemma pushqueue_ok:
  assumes "link_inv q" and "link_room q"
  shows "\<exists>q'. pushqueue x q = Inr q' \<and> link_inv q' \<and> link_view q' = slot_push x (link_view q)
           \<and> lsize (fst q') = lsize (fst q) + 1"
proof -
  obtain p h where q: "q = (p, h)" by (cases q)
  show ?thesis
    using assms unfolding q
    by (cases "front p"; cases "rear p")
      (auto simp: link_defs pushqueue_def malloc_def wf_heap_def Let_def less_Suc_eq
        split: option.splits)
qed

lemma pushqueue_no_room: "link_inv q \<Longrightarrow> \<not> link_room q \<Longrightarrow> \<exists>e. pushqueue x q = Inl e"
  by (cases q) (auto simp: link_inv_def link_room_def pushqueue_def malloc_def Let_def)

text \<open>With the front node last in its chain, the walk looks at one node at most.\<close>

lemma delete_node_ok:
  assumes "link_inv q"
  shows "\<exists>q'. delete_node x q = Inr q' \<and> link_inv q' \<and> link_view q' = slot_remove x (link_view q)
           \<and> lsize (fst q') = (if link_view q = Held x then lsize (fst q) - 1 else lsize (fst q))"
proof -
  obtain p h where q: "q = (p, h)" by (cases q)
  show ?thesis
  proof (cases "front p")
    case None
    with assms show ?thesis
      by (auto simp: q delete_node_def slot_remove_def link_view_def)
  next
    case (Some a)
    with assms obtain nd where nd: "cells h a = Some nd" "node_next nd = None" "1 \<le> lsize p"
      by (auto simp: q link_inv_def split: option.splits)
    with Some have view: "link_view q = Held (data nd)"
      by (simp add: q link_view_def)
    show ?thesis
    proof (cases "data nd = x")
      case True
      with Some nd view assms show ?thesis
        by (auto simp: q delete_node_def remove_node_def unlink_def slot_remove_def link_defs
            wf_heap_def)
    next
      case False
      with Some nd view assms show ?thesis
        by (auto simp: q delete_node_def slot_remove_def)
    qed
  qed
qed

interpretation lq: slot_register pushqueue delete_node link_view "\<lambda>q. lsize (fst q)" link_room link_inv
  by unfold_locales (rule pushqueue_ok pushqueue_no_room delete_node_ok; assumption)+

lemma initqueue_inv: "initqueue True = Inr p \<Longrightarrow> wf_heap h \<Longrightarrow> link_inv (p, h)"
  by (auto simp: initqueue_def link_defs INT_MAX_def)

lemma initqueue_view: "initqueue True = Inr p \<Longrightarrow> link_view (p, h) = Vacant"
  by (auto simp: initqueue_def link_view_def)

lemma queue_reach_inv: "queue_reach q \<Longrightarrow> link_inv q"
proof (induction rule: queue_reach.induct)
  case (start p h)
  then show ?case by (rule initqueue_inv)
next
  case (push q x q')
  then show ?case using lq.push_view [of q x q'] by simp
next
  case (delete q x q')
  then show ?case using lq.remove_view [of q x q'] by simp
qed

lemma link_inv_chain:
  assumes "link_inv q"
  obtains (none) "front (fst q) = None" and "chain node_next (cells (snd q)) (front (fst q)) []"
  | (one) a nd where "front (fst q) = Some a" and "cells (snd q) a = Some nd"
      and "chain node_next (cells (snd q)) (front (fst q)) [a]"
proof (cases "front (fst q)")
  case None
  with none show thesis by simp
next
  case (Some a)
  with assms obtain nd where "cells (snd q) a = Some nd" "node_next nd = None"
    by (cases q) (auto simp: link_inv_def split: option.splits)
  with Some one show thesis by simp
qed

lemma queue_none_ok [simp]: "link_inv queue_none" "link_room queue_none" "queue_reach queue_none"
  by (auto simp: queue_none_def link_defs INT_MAX_def empty_heap_def wf_heap_def initqueue_def
      intro!: queue_reach.start)

lemma queue_one_ok [simp]: "link_inv queue_one" "link_view queue_one = Held 7"
  by (auto simp: queue_one_def link_defs INT_MAX_def empty_heap_def wf_heap_def)

lemma push_queue_none: "pushqueue 7 queue_none = Inr queue_one"
  by (simp add: queue_none_def queue_one_def pushqueue_def malloc_def empty_heap_def emptyqueue_def
      INT_MAX_def)

section \<open>Properties\<close>

text \<open>C20: refinement of \<open>pushqueue\<close>. From every queue in its invariant with memory left, a push
  succeeds, keeps the invariant, counts one more element, and what the queue then holds is what
  the fill-once register says: the new element only if nothing was ever pushed before.\<close>

theorem pushqueue_refines:
  assumes "link_inv q" and "link_room q"
  shows "\<exists>q'. pushqueue x q = Inr q' \<and> link_inv q' \<and> link_view q' = slot_push x (link_view q)
           \<and> getlength (fst q') = getlength (fst q) + 1"
  using lq.push_ok [OF assms] by (simp add: getlength_def)

theorem pushqueue_refines_witness:
  "link_inv queue_none \<and> link_room queue_none
   \<and> (\<exists>q'. pushqueue 7 queue_none = Inr q' \<and> link_inv q'
         \<and> link_view q' = slot_push 7 (link_view queue_none)
         \<and> getlength (fst q') = getlength (fst queue_none) + 1)"
  using pushqueue_refines [of queue_none 7] by simp

text \<open>C21: refinement of \<open>delete_node\<close>. From every queue in its invariant the deletion returns
  without a fault: it removes the element if the queue holds it and then leaves the queue spent,
  and otherwise changes neither what is held nor the count.\<close>

theorem delete_node_refines:
  assumes "link_inv q"
  shows "\<exists>q'. delete_node x q = Inr q' \<and> link_inv q' \<and> link_view q' = slot_remove x (link_view q)
           \<and> getlength (fst q') =
               (if link_view q = Held x then getlength (fst q) - 1 else getlength (fst q))"
  using lq.remove_ok [OF assms, of x] unfolding getlength_def .

theorem delete_node_refines_witness:
  "link_inv queue_one
   \<and> (\<exists>q'. delete_node 7 queue_one = Inr q' \<and> link_inv q' \<and> link_view q' = Spent
         \<and> getlength (fst q') = getlength (fst queue_one) - 1)"
  using delete_node_refines [of queue_one 7] by (simp add: slot_remove_def)

text \<open>Whatever sequence of pushes and deletions built a queue from \<open>initqueue\<close>, at most one
  element can be reached from \<open>front\<close>: \<open>pushqueue\<close> never links the old rear to the new node.\<close>

lemma queue_capacity_one:
  assumes "queue_reach q"
  shows "\<exists>as. chain node_next (cells (snd q)) (front (fst q)) as \<and> length as \<le> 1"
  using queue_reach_inv [OF assms]
proof (cases rule: link_inv_chain)
  case none
  then show ?thesis by (intro exI [of _ "[]"]) simp
next
  case (one a nd)
  then show ?thesis by (intro exI [of _ "[a]"]) simp
qed

text \<open>Once its only element has been removed, a queue never holds an element again: a later
  push succeeds and is counted, but its element is not reachable.\<close>

lemma queue_spent_forever:
  assumes "link_inv q" and "link_view q = Held x" and "delete_node x q = Inr q1"
    and "pushqueue y q1 = Inr q2"
  shows "link_view q2 = Spent \<and> front (fst q2) = None \<and> getlength (fst q2) = getlength (fst q)"
proof -
  from delete_node_ok [OF assms(1), of x] assms(2,3)
  have q1: "link_inv q1" "link_view q1 = Spent" "lsize (fst q1) = lsize (fst q) - 1"
    by (auto simp: slot_remove_def)
  have spent: "link_view q2 = Spent" using lq.spent_stays [OF q1(1,2)] assms(4) by blast
  have inv2: "link_inv q2" using lq.push_view [OF q1(1) assms(4)] by simp
  from spent inv2 have "front (fst q2) = None"
    by (cases q2) (auto simp: link_view_def link_inv_def split: option.splits)
  moreover have "lsize (fst q2) = lsize (fst q1) + 1"
    using lq.push_ok [OF q1(1), of y] lq.push_no_room [OF q1(1), of y] assms(4)
    by (cases "link_room q1") auto
  ultimately show ?thesis using spent q1(3) by (simp add: getlength_def)
qed

end
