(* ===== verification/Hash_Table.thy ===== *)
theory Hash_Table
  imports Phpco_Prelude
begin

text \<open>
  The chained hash table of \<open>src/hashtable/hashtable.c\<close>: 1024 buckets, the Times33 hash on 32-bit
  words, chains of heap cells whose keys are heap copies. \<open>kv_store\<close> is the contract of
  \<open>hash_table_put2\<close> and \<open>hash_table_get\<close>, interpreted here on the heap model.
\<close>

section \<open>Data\<close>

text \<open>
  Values are \<open>void *\<close>, with \<open>None\<close> for \<open>NULL\<close>; a \<open>free_value\<close> callback is named by
  a value of type \<open>'f\<close>, and every call of one is logged with its argument.
\<close>

record ('v, 'f) kv =
  kv_next :: ptr
  kv_key :: ptr
  kv_value :: "'v option"
  kv_free_value :: "'f option"

record ('v, 'f) hmem =
  kvs :: "('v, 'f) kv heap"
  strs :: "string heap"
  calls :: "('f \<times> 'v option) list"

text \<open>The \<open>HashTable\<close> struct; its \<open>table\<close> is an array of 1024 bucket heads.\<close>

record hash_table =
  table :: "(nat \<Rightarrow> ptr) option"

abbreviation (input) TABLE_SIZE :: nat where "TABLE_SIZE \<equiv> 1024"

definition init_kv :: "('v, 'f) kv" where
  "init_kv = \<lparr>kv_next = None, kv_key = None, kv_value = None, kv_free_value = None\<rparr>"

section \<open>Operations\<close>

fun hash_loop :: "string \<Rightarrow> u32 \<Rightarrow> u32" where
  "hash_loop [] hash = hash"
| "hash_loop (c # key) hash =
     (if c = CHR 0x00 then hash else hash_loop key (push_bit 5 hash + hash + char_word c))"

definition hash_33 :: "string \<Rightarrow> u32" where
  "hash_33 key = hash_loop key 0"

definition bucket :: "string \<Rightarrow> nat" where
  "bucket key = unat (hash_33 key mod 1024)"

text \<open>Calling a \<open>free_value\<close> callback, if there is one.\<close>

definition call_free_value :: "'f option \<Rightarrow> 'v option \<Rightarrow> ('v, 'f) hmem \<Rightarrow> ('v, 'f) hmem" where
  "call_free_value fv v m = (case fv of None \<Rightarrow> m | Some f \<Rightarrow> m\<lparr>calls := calls m @ [(f, v)]\<rparr>)"

definition free_kv :: "ptr \<Rightarrow> ('v, 'f) hmem \<Rightarrow> ('v, 'f) hmem res" where
  "free_kv kv m =
     (case kv of None \<Rightarrow> Inr m
      | Some a \<Rightarrow>
        bind_res (load kv (kvs m)) (\<lambda>n.
        let m1 = call_free_value (kv_free_value n) (kv_value n) m in
        bind_res (free_cell (kv_key n) (strs m1)) (\<lambda>ss.
        bind_res (modify kv (\<lambda>n. n\<lparr>kv_key := None\<rparr>) (kvs m1)) (\<lambda>h.
        bind_res (free_cell kv h) (\<lambda>h1. Inr (m1\<lparr>kvs := h1, strs := ss\<rparr>))))))"

text \<open>
  \<open>hash_table_delete\<close> walks every bucket and frees its cells; the struct and the array go with
  it. A walk over more live cells than were ever allocated would go round a cycle.
\<close>

fun free_chain :: "nat \<Rightarrow> ptr \<Rightarrow> ('v, 'f) hmem \<Rightarrow> ('v, 'f) hmem res" where
  "free_chain n None m = Inr m"
| "free_chain 0 (Some a) m = Inl Diverges"
| "free_chain (Suc n) (Some a) m =
     bind_res (load (Some a) (kvs m)) (\<lambda>nd.
     bind_res (free_kv (Some a) m) (\<lambda>m1. free_chain n (kv_next nd) m1))"

fun free_buckets :: "nat list \<Rightarrow> (nat \<Rightarrow> ptr) \<Rightarrow> ('v, 'f) hmem \<Rightarrow> ('v, 'f) hmem res" where
  "free_buckets [] t m = Inr m"
| "free_buckets (i # is) t m =
     bind_res (free_chain (fresh (kvs m)) (t i) m) (\<lambda>m1. free_buckets is t m1)"

definition hash_table_delete :: "hash_table option \<Rightarrow> ('v, 'f) hmem \<Rightarrow> ('v, 'f) hmem res" where
  "hash_table_delete ht m =
     (case ht of None \<Rightarrow> Inr m
      | Some h \<Rightarrow> (case table h of None \<Rightarrow> Inr m
                  | Some t \<Rightarrow> free_buckets [0..<TABLE_SIZE] t m))"

text \<open>\<open>ok1\<close>, \<open>ok2\<close>: whether the struct and the array can be allocated.\<close>

definition hash_table_new ::
  "bool \<Rightarrow> bool \<Rightarrow> ('v, 'f) hmem \<Rightarrow> (hash_table option \<times> ('v, 'f) hmem) res" where
  "hash_table_new ok1 ok2 m =
     (if \<not> ok1 then bind_res (hash_table_delete None m) (\<lambda>m1. Inr (None, m1))
      else if \<not> ok2
      then bind_res (hash_table_delete (Some \<lparr>table = None\<rparr>) m) (\<lambda>m1. Inr (None, m1))
      else Inr (Some \<lparr>table = Some (\<lambda>_. None)\<rparr>, m))"

text \<open>\<open>strcmp(a, b) == 0\<close> on two strings in memory, one of them a key of the table.\<close>

definition key_matches :: "('v, 'f) kv \<Rightarrow> string \<Rightarrow> ('v, 'f) hmem \<Rightarrow> bool res" where
  "key_matches n key m = bind_res (load (kv_key n) (strs m)) (\<lambda>s. Inr (c_str s = c_str key))"

text \<open>The update loop of \<open>hash_table_put2\<close>: its result is \<open>p\<close> and \<open>prep\<close> at the exit.\<close>

fun put_loop :: "nat \<Rightarrow> string \<Rightarrow> 'v option \<Rightarrow> 'f option \<Rightarrow> ptr \<Rightarrow> ptr \<Rightarrow> ('v, 'f) hmem
    \<Rightarrow> (ptr \<times> ptr \<times> ('v, 'f) hmem) res" where
  "put_loop n key v fv prep None m = Inr (None, prep, m)"
| "put_loop 0 key v fv prep (Some a) m = Inl Diverges"
| "put_loop (Suc n) key v fv prep (Some a) m =
     bind_res (load (Some a) (kvs m)) (\<lambda>nd.
     bind_res (key_matches nd key m) (\<lambda>eq.
       if eq then
         let m1 = call_free_value (kv_free_value nd) (kv_value nd) m in
         bind_res (modify (Some a) (\<lambda>nd. nd\<lparr>kv_value := v, kv_free_value := fv\<rparr>) (kvs m1))
           (\<lambda>h. Inr (Some a, prep, m1\<lparr>kvs := h\<rparr>))
       else put_loop n key v fv (Some a) (kv_next nd) m))"

text \<open>Adding a new cell at the end of the chain; \<open>prep\<close> is the last cell, if there is one.\<close>

definition put_append :: "nat \<Rightarrow> string \<Rightarrow> 'v option \<Rightarrow> 'f option \<Rightarrow> ptr \<Rightarrow> (nat \<Rightarrow> ptr)
    \<Rightarrow> ('v, 'f) hmem \<Rightarrow> (int \<times> (nat \<Rightarrow> ptr) \<times> ('v, 'f) hmem) res" where
  "put_append i key v fv prep t m =
     (let (kstr, ss) = malloc (c_str key) (strs m) in
      case kstr of None \<Rightarrow> Inr (-1, t, m\<lparr>strs := ss\<rparr>)
      | Some _ \<Rightarrow>
        (let (kv, h) = malloc (init_kv\<lparr>kv_key := kstr, kv_value := v, kv_free_value := fv\<rparr>) (kvs m) in
         case kv of
           None \<Rightarrow> bind_res (free_cell kstr ss) (\<lambda>ss1. Inr (-1, t, m\<lparr>kvs := h, strs := ss1\<rparr>))
         | Some _ \<Rightarrow>
             (if prep = None then Inr (0, t(i := kv), m\<lparr>kvs := h, strs := ss\<rparr>)
              else bind_res (modify prep (\<lambda>nd. nd\<lparr>kv_next := kv\<rparr>) h)
                     (\<lambda>h1. Inr (0, t, m\<lparr>kvs := h1, strs := ss\<rparr>)))))"

definition hash_table_put2 :: "string \<Rightarrow> 'v option \<Rightarrow> 'f option \<Rightarrow> hash_table \<times> ('v, 'f) hmem
    \<Rightarrow> (int \<times> hash_table \<times> ('v, 'f) hmem) res" where
  "hash_table_put2 key v fv s =
     (let (ht, m) = s; i = bucket key in
      case table ht of None \<Rightarrow> Inl NullDeref
      | Some t \<Rightarrow>
        bind_res (put_loop (fresh (kvs m)) key v fv (t i) (t i) m) (\<lambda>(p, prep, m1).
          if p = None
          then bind_res (put_append i key v fv prep t m1)
                 (\<lambda>(r, t1, m2). Inr (r, ht\<lparr>table := Some t1\<rparr>, m2))
          else Inr (0, ht, m1)))"

fun get_loop :: "nat \<Rightarrow> string \<Rightarrow> ptr \<Rightarrow> ('v, 'f) hmem \<Rightarrow> 'v option res" where
  "get_loop n key None m = Inr None"
| "get_loop 0 key (Some a) m = Inl Diverges"
| "get_loop (Suc n) key (Some a) m =
     bind_res (load (Some a) (kvs m)) (\<lambda>nd.
     bind_res (key_matches nd key m) (\<lambda>eq.
       if eq then Inr (kv_value nd) else get_loop n key (kv_next nd) m))"

definition hash_table_get :: "string \<Rightarrow> hash_table \<times> ('v, 'f) hmem \<Rightarrow> 'v option res" where
  "hash_table_get key s =
     (let (ht, m) = s in
      case table ht of None \<Rightarrow> Inl NullDeref
      | Some t \<Rightarrow> get_loop (fresh (kvs m)) key (t (bucket key)) m)"

text \<open>
  \<open>hash_table_rm\<close>: after freeing the cell, the loop reads its \<open>next\<close> field, once to unlink it
  from a predecessor and once to go on.
\<close>

fun rm_loop :: "nat \<Rightarrow> string \<Rightarrow> nat \<Rightarrow> ptr \<Rightarrow> ptr \<Rightarrow> (nat \<Rightarrow> ptr) \<Rightarrow> ('v, 'f) hmem
    \<Rightarrow> ((nat \<Rightarrow> ptr) \<times> ('v, 'f) hmem) res" where
  "rm_loop n key i prep None t m = Inr (t, m)"
| "rm_loop 0 key i prep (Some a) t m = Inl Diverges"
| "rm_loop (Suc n) key i prep (Some a) t m =
     bind_res (load (Some a) (kvs m)) (\<lambda>nd.
     bind_res (key_matches nd key m) (\<lambda>eq.
     bind_res
       (if eq then
          bind_res (free_kv (Some a) m) (\<lambda>m1.
            if Some a = prep then Inr (t(i := None), m1)
            else bind_res (load (Some a) (kvs m1)) (\<lambda>nd1.
                 bind_res (modify prep (\<lambda>pn. pn\<lparr>kv_next := kv_next nd1\<rparr>) (kvs m1))
                   (\<lambda>h. Inr (t, m1\<lparr>kvs := h\<rparr>))))
        else Inr (t, m))
       (\<lambda>(t1, m2). bind_res (load (Some a) (kvs m2))
          (\<lambda>nd2. rm_loop n key i (Some a) (kv_next nd2) t1 m2))))"

definition hash_table_rm :: "string \<Rightarrow> hash_table \<times> ('v, 'f) hmem
    \<Rightarrow> (hash_table \<times> ('v, 'f) hmem) res" where
  "hash_table_rm key s =
     (let (ht, m) = s; i = bucket key in
      case table ht of None \<Rightarrow> Inl NullDeref
      | Some t \<Rightarrow> bind_res (rm_loop (fresh (kvs m)) key i (t i) (t i) t m)
          (\<lambda>(t1, m1). Inr (ht\<lparr>table := Some t1\<rparr>, m1)))"

section \<open>Abstraction and invariant\<close>

text \<open>The key string and the value of the cell at an address.\<close>

definition key_at :: "('v, 'f) hmem \<Rightarrow> addr \<Rightarrow> string option" where
  "key_at m a = (case cells (kvs m) a of None \<Rightarrow> None
     | Some nd \<Rightarrow> (case kv_key nd of None \<Rightarrow> None
        | Some k \<Rightarrow> map_option c_str (cells (strs m) k)))"

definition value_at :: "('v, 'f) hmem \<Rightarrow> addr \<Rightarrow> 'v option" where
  "value_at m a = (case cells (kvs m) a of None \<Rightarrow> None | Some nd \<Rightarrow> kv_value nd)"

definition bucket_cells :: "(nat \<Rightarrow> ptr) \<Rightarrow> ('v, 'f) hmem \<Rightarrow> nat \<Rightarrow> addr list" where
  "bucket_cells t m i = walk (fresh (kvs m)) kv_next (cells (kvs m)) (t i)"

definition find_cell :: "(nat \<Rightarrow> ptr) \<Rightarrow> ('v, 'f) hmem \<Rightarrow> string \<Rightarrow> addr option" where
  "find_cell t m key = List.find (\<lambda>a. key_at m a = Some (c_str key)) (bucket_cells t m (bucket key))"

text \<open>The map a table stands for.\<close>

definition ht_lookup :: "hash_table \<times> ('v, 'f) hmem \<Rightarrow> string \<Rightarrow> 'v option" where
  "ht_lookup s key = (let (ht, m) = s in
     case table ht of None \<Rightarrow> None
     | Some t \<Rightarrow> (case find_cell t m key of None \<Rightarrow> None | Some a \<Rightarrow> value_at m a))"

text \<open>Whether a key is stored.\<close>

definition ht_has :: "hash_table \<times> ('v, 'f) hmem \<Rightarrow> string \<Rightarrow> bool" where
  "ht_has s key = (let (ht, m) = s in
     case table ht of None \<Rightarrow> False | Some t \<Rightarrow> find_cell t m key \<noteq> None)"

text \<open>
  In every bucket the chain is well formed, and every cell on it has a live key that hashes to
  this bucket.
\<close>

definition bucket_ok :: "(nat \<Rightarrow> ptr) \<Rightarrow> ('v, 'f) hmem \<Rightarrow> nat \<Rightarrow> addr list \<Rightarrow> bool" where
  "bucket_ok t m i as \<longleftrightarrow> chain kv_next (cells (kvs m)) (t i) as
     \<and> (\<forall>a \<in> set as. \<exists>s. key_at m a = Some s \<and> bucket s = i)"

definition ht_inv :: "hash_table \<times> ('v, 'f) hmem \<Rightarrow> bool" where
  "ht_inv s \<longleftrightarrow> (let (ht, m) = s in
     wf_heap (kvs m) \<and> wf_heap (strs m)
     \<and> (case table ht of None \<Rightarrow> False
        | Some t \<Rightarrow> \<forall>i < TABLE_SIZE. \<exists>as. bucket_ok t m i as))"

text \<open>A table with no key in it, over an empty heap.\<close>

definition table_none :: "hash_table \<times> (nat, nat) hmem" where
  "table_none = (\<lparr>table = Some (\<lambda>_. None)\<rparr>, \<lparr>kvs = empty_heap, strs = empty_heap, calls = []\<rparr>)"

section \<open>The contract of a key-value store\<close>

text \<open>
  Keys are compared after \<open>norm\<close>. A store either records the value or, when memory runs out,
  reports \<open>-1\<close> and leaves every key as it was.
\<close>

locale kv_store =
  fixes put :: "'k \<Rightarrow> 'v \<Rightarrow> 's \<Rightarrow> (int \<times> 's) res"
    and get :: "'k \<Rightarrow> 's \<Rightarrow> 'v res"
    and lookup :: "'s \<Rightarrow> 'k \<Rightarrow> 'v"
    and norm :: "'k \<Rightarrow> 'k"
    and inv :: "'s \<Rightarrow> bool"
  assumes get_ok: "inv s \<Longrightarrow> get k s = Inr (lookup s k)"
    and put_ok: "inv s \<Longrightarrow> \<exists>r s'. put k v s = Inr (r, s') \<and> inv s'
          \<and> (r = 0 \<and> (\<forall>k'. lookup s' k' = (if norm k' = norm k then v else lookup s k'))
             \<or> r = -1 \<and> lookup s' = lookup s)"
begin

text \<open>The value read back is the last one stored; a failed store changes no read.\<close>

lemma put_get:
  assumes "inv s" and "put k v s = Inr (r, s')"
  shows "get k' s' = (if r = 0 \<and> norm k' = norm k then Inr v else get k' s)"
proof -
  from put_ok [OF assms(1), of k v] assms(2) have "inv s'"
    and "r = 0 \<and> (\<forall>k'. lookup s' k' = (if norm k' = norm k then v else lookup s k'))
       \<or> r = -1 \<and> lookup s' = lookup s"
    by auto
  with get_ok [of s' k'] get_ok [OF assms(1), of k'] show ?thesis by auto
qed

text \<open>Stores under different keys commute, as far as reads can tell.\<close>

lemma put_commute:
  assumes "inv s" and "norm k \<noteq> norm l"
    and "put k v s = Inr (0, s1)" and "put l w s1 = Inr (0, s2)"
    and "put l w s = Inr (0, t1)" and "put k v t1 = Inr (0, t2)"
  shows "get j s2 = get j t2"
proof -
  have "inv s1" "inv t1"
    using put_ok [OF assms(1), of k v] put_ok [OF assms(1), of l w] assms(3,5) by auto
  with assms show ?thesis
    using put_get [OF assms(1,3)] put_get [OF \<open>inv s1\<close> assms(4)]
      put_get [OF assms(1,5)] put_get [OF \<open>inv t1\<close> assms(6)] by auto
qed

end

section \<open>Lemmas\<close>

lemma hash_loop_c_str: "hash_loop (c_str key) h = hash_loop key h"
  by (induction key arbitrary: h) (auto simp: c_str_def)

lemma bucket_c_str [simp]: "bucket (c_str key) = bucket key"
  by (simp add: bucket_def hash_33_def hash_loop_c_str)

lemma bucket_less [simp]: "bucket key < 1024"
proof -
  have "unat (hash_33 key mod 1024) = unat (hash_33 key) mod 1024"
    by (simp add: unat_mod_distrib)
  then show ?thesis by (simp add: bucket_def)
qed

lemma key_at_SomeE:
  assumes "key_at m a = Some s"
  obtains nd k str where "cells (kvs m) a = Some nd" and "kv_key nd = Some k"
    and "cells (strs m) k = Some str" and "\<forall>key. key_matches nd key m = Inr (s = c_str key)"
  using assms by (auto simp: key_at_def key_matches_def split: option.splits)

lemma value_at_cell [simp]: "cells (kvs m) a = Some nd \<Longrightarrow> value_at m a = kv_value nd"
  by (simp add: value_at_def)

text \<open>\<open>live_keys m as\<close>: every cell of \<open>as\<close> has a key to compare with.\<close>

abbreviation (input) live_keys :: "('v, 'f) hmem \<Rightarrow> addr list \<Rightarrow> bool" where
  "live_keys m as \<equiv> \<forall>a \<in> set as. key_at m a \<noteq> None"

abbreviation (input) find_key :: "('v, 'f) hmem \<Rightarrow> string \<Rightarrow> addr list \<Rightarrow> addr option" where
  "find_key m key as \<equiv> List.find (\<lambda>a. key_at m a = Some (c_str key)) as"

lemma get_loop_eq:
  assumes "chain kv_next (cells (kvs m)) p as" and "live_keys m as" and "length as \<le> n"
  shows "get_loop n key p m =
    Inr (case find_key m key as of None \<Rightarrow> None | Some a \<Rightarrow> value_at m a)"
  using assms
proof (induction as arbitrary: n p)
  case Nil
  then show ?case by simp
next
  case (Cons a as)
  then obtain s n' where s: "key_at m a = Some s" and n: "n = Suc n'" by (cases n) auto
  from s obtain nd k str where "cells (kvs m) a = Some nd" "kv_key nd = Some k"
    "cells (strs m) k = Some str" "\<forall>key. key_matches nd key m = Inr (s = c_str key)"
    by (rule key_at_SomeE)
  with s Cons show ?case
    by (auto simp: n)
qed

lemma put_loop_miss:
  assumes "chain kv_next (cells (kvs m)) p as" and "live_keys m as" and "length as \<le> n"
    and "find_key m key as = None"
  shows "put_loop n key v fv prep p m = Inr (None, if as = [] then prep else Some (last as), m)"
  using assms
proof (induction as arbitrary: n p prep)
  case Nil
  then show ?case by simp
next
  case (Cons a as)
  then obtain s n' where s: "key_at m a = Some s" and n: "n = Suc n'" by (cases n) auto
  from s obtain nd k str where "cells (kvs m) a = Some nd" "kv_key nd = Some k"
    "cells (strs m) k = Some str" "\<forall>key. key_matches nd key m = Inr (s = c_str key)"
    by (rule key_at_SomeE)
  with s Cons show ?case
    by (auto simp: n split: if_splits)
qed

definition overwrite :: "addr \<Rightarrow> 'v option \<Rightarrow> 'f option \<Rightarrow> ('v, 'f) hmem \<Rightarrow> ('v, 'f) hmem" where
  "overwrite a v fv m = (case cells (kvs m) a of None \<Rightarrow> m
     | Some nd \<Rightarrow> (call_free_value (kv_free_value nd) (kv_value nd) m)
         \<lparr>kvs := (kvs m)\<lparr>cells := (cells (kvs m))(a := Some (nd\<lparr>kv_value := v, kv_free_value := fv\<rparr>))\<rparr>\<rparr>)"

lemma call_free_value_mem [simp]:
  "kvs (call_free_value f x m) = kvs m" "strs (call_free_value f x m) = strs m"
  by (auto simp: call_free_value_def split: option.splits)

lemma put_loop_hit:
  assumes "chain kv_next (cells (kvs m)) p as" and "live_keys m as" and "length as \<le> n"
    and "find_key m key as = Some b"
  shows "\<exists>prep'. put_loop n key v fv prep p m = Inr (Some b, prep', overwrite b v fv m)"
  using assms
proof (induction as arbitrary: n p prep)
  case Nil
  then show ?case by simp
next
  case (Cons a as)
  then obtain s n' where s: "key_at m a = Some s" and n: "n = Suc n'" by (cases n) auto
  from s obtain nd k str where "cells (kvs m) a = Some nd" "kv_key nd = Some k"
    "cells (strs m) k = Some str" "\<forall>key. key_matches nd key m = Inr (s = c_str key)"
    by (rule key_at_SomeE)
  with s Cons show ?case
    by (auto simp: n overwrite_def split: if_splits)
qed

lemma rm_loop_miss:
  assumes "chain kv_next (cells (kvs m)) p as" and "live_keys m as" and "length as \<le> n"
    and "find_key m key as = None"
  shows "rm_loop n key i prep p t m = Inr (t, m)"
  using assms
proof (induction as arbitrary: n p prep)
  case Nil
  then show ?case by simp
next
  case (Cons a as)
  then obtain s n' where s: "key_at m a = Some s" and n: "n = Suc n'" by (cases n) auto
  from s obtain nd k str where "cells (kvs m) a = Some nd" "kv_key nd = Some k"
    "cells (strs m) k = Some str" "\<forall>key. key_matches nd key m = Inr (s = c_str key)"
    by (rule key_at_SomeE)
  with s Cons show ?case
    by (auto simp: n split: if_splits)
qed

lemma free_kv_live:
  assumes "key_at m a = Some s"
  shows "\<exists>m'. free_kv (Some a) m = Inr m' \<and> cells (kvs m') a = None"
  using assms by (rule key_at_SomeE) (simp add: free_kv_def Let_def)

lemma rm_loop_hit:
  assumes "chain kv_next (cells (kvs m)) p as" and "live_keys m as" and "length as \<le> n"
    and "find_key m key as = Some b"
  shows "rm_loop n key i prep p t m = Inl UseAfterFree"
  using assms
proof (induction as arbitrary: n p prep)
  case Nil
  then show ?case by simp
next
  case (Cons a as)
  then obtain s n' where s: "key_at m a = Some s" and n: "n = Suc n'" by (cases n) auto
  obtain m' where m': "free_kv (Some a) m = Inr m'" "cells (kvs m') a = None"
    using free_kv_live [OF s] by blast
  from s obtain nd k str where "cells (kvs m) a = Some nd" "kv_key nd = Some k"
    "cells (strs m) k = Some str" "\<forall>key. key_matches nd key m = Inr (s = c_str key)"
    by (rule key_at_SomeE)
  with s Cons m' show ?case
    by (auto simp: n split: if_splits)
qed

lemma ht_invE:
  assumes "ht_inv (ht, m)"
  obtains t where "table ht = Some t" and "wf_heap (kvs m)" and "wf_heap (strs m)"
    and "\<forall>i < 1024. \<exists>as. bucket_ok t m i as"
  using assms by (auto simp: ht_inv_def split: option.splits)

lemma bucket_okD:
  assumes "bucket_ok t m i as" and "wf_heap (kvs m)"
  shows "chain kv_next (cells (kvs m)) (t i) as" and "live_keys m as"
    and "length as \<le> fresh (kvs m)" and "bucket_cells t m i = as"
proof -
  show ch: "chain kv_next (cells (kvs m)) (t i) as" and "live_keys m as"
    using assms(1) by (auto simp: bucket_ok_def)
  show "length as \<le> fresh (kvs m)" using ch assms(2) by (rule chain_length)
  show "bucket_cells t m i = as"
    unfolding bucket_cells_def using ch assms(2) by (rule walk_chain_heap)
qed

lemma ht_lookup_eq:
  assumes "table ht = Some t" and "bucket_ok t m (bucket key) as" and "wf_heap (kvs m)"
  shows "ht_lookup (ht, m) key = (case find_key m key as of None \<Rightarrow> None | Some a \<Rightarrow> value_at m a)"
    and "ht_has (ht, m) key = (find_key m key as \<noteq> None)"
  using assms bucket_okD(4) [OF assms(2,3)]
  by (auto simp: ht_lookup_def ht_has_def find_cell_def split: option.splits)

lemma find_key_cong:
  "(\<And>a. a \<in> set as \<Longrightarrow> key_at m' a = key_at m a) \<Longrightarrow> find_key m' key as = find_key m key as"
  by (rule find_cong) auto

lemma find_key_mem: "find_key m key as = Some a \<Longrightarrow> a \<in> set as \<and> key_at m a = Some (c_str key)"
  by (auto simp: find_Some_iff)

text \<open>A cell is in the bucket of its key only.\<close>

lemma bucket_ok_disjoint:
  assumes "bucket_ok t m i as" and "bucket_ok t m j bs" and "a \<in> set as" and "a \<in> set bs"
  shows "i = j"
  using assms by (fastforce simp: bucket_ok_def)

subsection \<open>Overwriting\<close>

lemma overwrite_simps:
  assumes "cells (kvs m) a = Some nd"
  shows "cells (kvs (overwrite a v fv m)) = (cells (kvs m))(a := Some (nd\<lparr>kv_value := v, kv_free_value := fv\<rparr>))"
    and "fresh (kvs (overwrite a v fv m)) = fresh (kvs m)"
    and "strs (overwrite a v fv m) = strs m"
    and "calls (overwrite a v fv m) =
      calls m @ (case kv_free_value nd of None \<Rightarrow> [] | Some f \<Rightarrow> [(f, kv_value nd)])"
  using assms by (auto simp: overwrite_def call_free_value_def split: option.splits)

lemma key_at_overwrite [simp]: "key_at (overwrite a v fv m) b = key_at m b"
proof (cases "cells (kvs m) a")
  case None
  then show ?thesis by (simp add: overwrite_def)
next
  case (Some nd)
  then show ?thesis
    by (auto simp: key_at_def overwrite_simps [OF Some] split: option.splits)
qed

lemma bucket_ok_overwrite: "bucket_ok t (overwrite a v fv m) = bucket_ok t m"
proof (cases "cells (kvs m) a")
  case None
  then show ?thesis by (simp add: overwrite_def)
next
  case (Some nd)
  then show ?thesis
    by (simp add: bucket_ok_def overwrite_simps [OF Some] fun_eq_iff
        chain_upd_same_next [where c = "cells (kvs m)" and a = a and n = nd])
qed

lemma overwrite_wf:
  assumes "wf_heap (kvs m)" and "cells (kvs m) a = Some nd"
  shows "wf_heap (kvs (overwrite a v fv m))"
  using assms by (auto simp: wf_heap_def overwrite_simps)

lemma value_at_overwrite:
  "cells (kvs m) a = Some nd \<Longrightarrow> value_at (overwrite a v fv m) b = (if b = a then v else value_at m b)"
  by (simp add: value_at_def overwrite_simps)

lemma put_hit:
  assumes inv: "ht_inv (ht, m)" and has: "ht_has (ht, m) key"
  obtains a nd t where "table ht = Some t" and "find_cell t m key = Some a"
    and "cells (kvs m) a = Some nd"
    and "hash_table_put2 key v fv (ht, m) = Inr (0, ht, overwrite a v fv m)"
    and "ht_inv (ht, overwrite a v fv m)"
    and "\<forall>k. ht_lookup (ht, overwrite a v fv m) k = (if c_str k = c_str key then v else ht_lookup (ht, m) k)"
proof -
  from inv obtain t where t: "table ht = Some t" "wf_heap (kvs m)" "wf_heap (strs m)"
    "\<forall>i < 1024. \<exists>as. bucket_ok t m i as" by (rule ht_invE)
  obtain as where as: "bucket_ok t m (bucket key) as" using t(4) bucket_less by blast
  from has obtain a where a: "find_key m key as = Some a"
    by (auto simp: ht_lookup_eq(2) [OF t(1) as t(2)])
  from find_key_mem [OF a] obtain nd where nd: "cells (kvs m) a = Some nd"
    by (auto elim: key_at_SomeE)
  let ?m = "overwrite a v fv m"
  have wf: "wf_heap (kvs ?m)" using overwrite_wf [OF t(2) nd] .
  have put: "hash_table_put2 key v fv (ht, m) = Inr (0, ht, ?m)"
    using put_loop_hit [OF bucket_okD(1-3) [OF as t(2)] a, of v fv "t (bucket key)"] t(1)
    by (auto simp: hash_table_put2_def)
  have inv': "ht_inv (ht, ?m)"
    using t wf by (simp add: ht_inv_def bucket_ok_overwrite overwrite_simps [OF nd])
  have look: "ht_lookup (ht, ?m) k = (if c_str k = c_str key then v else ht_lookup (ht, m) k)" for k
  proof -
    obtain bs where bs: "bucket_ok t m (bucket k) bs" using t(4) bucket_less by blast
    then have bs': "bucket_ok t ?m (bucket k) bs" by (simp add: bucket_ok_overwrite)
    show ?thesis
    proof (cases "c_str k = c_str key")
      case True
      then have "bucket k = bucket key" using bucket_c_str by metis
      with as bs t(2) have "bs = as" using bucket_okD(1) chain_unique by metis
      with True a show ?thesis
        by (simp add: ht_lookup_eq(1) [OF t(1) bs' wf] value_at_overwrite [OF nd])
    next
      case False
      have "find_key m k bs \<noteq> Some a"
        using find_key_mem [OF a] find_key_mem [of m k bs a] False by auto
      with False show ?thesis
        by (auto simp: ht_lookup_eq(1) [OF t(1) bs' wf] ht_lookup_eq(1) [OF t(1) bs t(2)]
            value_at_overwrite [OF nd] split: option.splits)
    qed
  qed
  have "find_cell t m key = Some a"
    using a bucket_okD(4) [OF as t(2)] by (simp add: find_cell_def)
  with t(1) nd put inv' look show thesis using that by blast
qed

subsection \<open>Appending\<close>

text \<open>
  The memory after a cell for \<open>key\<close> was appended to a bucket with the cells \<open>as\<close>: only the
  last cell of the bucket and the new cell and key differ.
\<close>

definition appended :: "addr list \<Rightarrow> string \<Rightarrow> 'v option \<Rightarrow> 'f option \<Rightarrow> ('v, 'f) hmem \<Rightarrow> ('v, 'f) hmem" where
  "appended as key v fv m =
     (let d = fresh (kvs m); k = fresh (strs m);
          c = (if as = [] then cells (kvs m)
               else (cells (kvs m))(last as := map_option (\<lambda>nd. nd\<lparr>kv_next := Some d\<rparr>) (cells (kvs m) (last as))))
      in m\<lparr>kvs := (kvs m)\<lparr>cells := c(d := Some \<lparr>kv_next = None, kv_key = Some k, kv_value = v, kv_free_value = fv\<rparr>),
                        fresh := Suc d\<rparr>,
           strs := (strs m)\<lparr>cells := (cells (strs m))(k := Some (c_str key)), fresh := Suc k\<rparr>\<rparr>)"

lemma put_append_ok:
  assumes "bucket_ok t m i as" and "wf_heap (kvs m)"
    and "\<not> oom (kvs m) (fresh (kvs m))" and "\<not> oom (strs m) (fresh (strs m))"
  shows "put_append i key v fv (if as = [] then t i else Some (last as)) t m
    = Inr (0, if as = [] then t(i := Some (fresh (kvs m))) else t, appended as key v fv m)"
proof (cases "as = []")
  case True
  with assms show ?thesis
    by (simp add: put_append_def malloc_def appended_def Let_def bucket_ok_def init_kv_def)
next
  case False
  then obtain nd where "cells (kvs m) (last as) = Some nd"
    using assms(1) chain_live [of kv_next "cells (kvs m)" "t i" as "last as"]
    by (auto simp: bucket_ok_def)
  moreover from this have "last as \<noteq> fresh (kvs m)" using assms(2) by auto
  ultimately show ?thesis using False assms(3,4)
    by (simp add: put_append_def malloc_def appended_def Let_def init_kv_def fun_upd_twist)
qed

lemma appended_wf:
  assumes "wf_heap (kvs m)" and "wf_heap (strs m)"
  shows "wf_heap (kvs (appended as key v fv m))" and "wf_heap (strs (appended as key v fv m))"
  using assms by (auto simp: wf_heap_def appended_def Let_def less_Suc_eq split: if_splits)

lemma appended_old:
  assumes "wf_heap (kvs m)" and "wf_heap (strs m)" and "key_at m a = Some s"
  shows "key_at (appended as key v fv m) a = Some s"
    and "value_at (appended as key v fv m) a = value_at m a"
  using assms
  by (auto simp: key_at_def value_at_def appended_def Let_def split: option.splits if_splits)

lemma appended_new:
  shows "key_at (appended as key v fv m) (fresh (kvs m)) = Some (c_str key)"
    and "value_at (appended as key v fv m) (fresh (kvs m)) = v"
  by (simp_all add: key_at_def value_at_def appended_def Let_def)

lemma appended_bucket_same:
  assumes ok: "bucket_ok t m i as" and wf: "wf_heap (kvs m)" "wf_heap (strs m)" and i: "i = bucket key"
  shows "bucket_ok (if as = [] then t(i := Some (fresh (kvs m))) else t) (appended as key v fv m) i
           (as @ [fresh (kvs m)])"
proof -
  note ch = bucket_okD(1) [OF ok wf(1)]
  have keys: "\<forall>a \<in> set (as @ [fresh (kvs m)]). \<exists>s. key_at (appended as key v fv m) a = Some s \<and> bucket s = i"
    using ok appended_old(1) [OF wf] appended_new(1) [of as key v fv m] i
    by (fastforce simp: bucket_ok_def)
  show ?thesis
  proof (cases "as = []")
    case True
    with keys show ?thesis by (simp add: bucket_ok_def appended_def Let_def)
  next
    case False
    then obtain bs b where as: "as = bs @ [b]" by (cases as rule: rev_cases) auto
    with ch obtain nd where nd: "cells (kvs m) b = Some nd" using chain_live by fastforce
    have fr: "fresh (kvs m) \<notin> set (bs @ [b])"
      using ch wf(1) as chain_live by fastforce
    have "chain kv_next (cells (kvs (appended as key v fv m))) (t i) (as @ [fresh (kvs m)])"
      using chain_snoc_upd [of kv_next "cells (kvs m)" "t i" bs b nd "nd\<lparr>kv_next := Some (fresh (kvs m))\<rparr>"
          "fresh (kvs m)"] ch nd fr
      by (simp add: as appended_def Let_def)
    with keys False show ?thesis by (simp add: bucket_ok_def)
  qed
qed

lemma appended_bucket_other:
  assumes ok: "bucket_ok t m i as" "bucket_ok t m j bs" and "i \<noteq> j"
    and wf: "wf_heap (kvs m)" "wf_heap (strs m)"
  shows "bucket_ok (if as = [] then t(i := Some (fresh (kvs m))) else t) (appended as key v fv m) j bs"
proof -
  note ch = bucket_okD(1) [OF ok(2) wf(1)]
  have "as \<noteq> [] \<Longrightarrow> last as \<notin> set bs"
    using bucket_ok_disjoint [OF ok, of "last as"] assms(3) last_in_set [of as] by blast
  moreover have "fresh (kvs m) \<notin> set bs" using ch wf(1) chain_live by fastforce
  ultimately have "chain kv_next (cells (kvs (appended as key v fv m))) (t j) bs"
    using ch by (simp add: appended_def Let_def)
  moreover have "\<forall>a \<in> set bs. \<exists>s. key_at (appended as key v fv m) a = Some s \<and> bucket s = j"
    using ok(2) appended_old(1) [OF wf] by (fastforce simp: bucket_ok_def)
  ultimately show ?thesis using assms(3) by (cases "as = []") (auto simp: bucket_ok_def)
qed

lemma put_miss:
  assumes inv: "ht_inv (ht, m)" and miss: "\<not> ht_has (ht, m) key"
  obtains t as where "table ht = Some t" and "bucket_ok t m (bucket key) as"
    and "find_key m key as = None"
    and "hash_table_put2 key v fv (ht, m) =
      bind_res (put_append (bucket key) key v fv (if as = [] then t (bucket key) else Some (last as)) t m)
        (\<lambda>(r, t1, m2). Inr (r, ht\<lparr>table := Some t1\<rparr>, m2))"
proof -
  from inv obtain t where t: "table ht = Some t" "wf_heap (kvs m)" "wf_heap (strs m)"
    "\<forall>i < 1024. \<exists>as. bucket_ok t m i as" by (rule ht_invE)
  obtain as where as: "bucket_ok t m (bucket key) as" using t(4) bucket_less by blast
  from miss have none: "find_key m key as = None"
    by (auto simp: ht_lookup_eq(2) [OF t(1) as t(2)])
  show thesis
    using that [OF t(1) as none] put_loop_miss [OF bucket_okD(1-3) [OF as t(2)] none] t(1)
    by (simp add: hash_table_put2_def Let_def)
qed

text \<open>What can be looked up after the append: the new key, and the old ones as before.\<close>

lemma appended_find:
  assumes wf: "wf_heap (kvs m)" "wf_heap (strs m)" and bs: "bucket_ok t m (bucket k) bs"
  shows "find_key (appended as key v fv m) k bs = find_key m k bs"
    and "find_key m k bs = Some a \<Longrightarrow> value_at (appended as key v fv m) a = value_at m a"
proof -
  show "find_key (appended as key v fv m) k bs = find_key m k bs"
    using bs appended_old(1) [OF wf] by (intro find_key_cong) (fastforce simp: bucket_ok_def)
  show "value_at (appended as key v fv m) a = value_at m a" if "find_key m k bs = Some a"
    using find_key_mem [OF that] appended_old(2) [OF wf] by blast
qed

lemma appended_lookup:
  assumes t: "table ht = Some t" and wf: "wf_heap (kvs m)" "wf_heap (strs m)"
    and all: "\<forall>i < 1024. \<exists>as. bucket_ok t m i as"
    and as: "bucket_ok t m (bucket key) as" and none: "find_key m key as = None"
  shows "ht_lookup (ht\<lparr>table := Some (if as = [] then t(bucket key := Some (fresh (kvs m))) else t)\<rparr>,
      appended as key v fv m) k = (if c_str k = c_str key then v else ht_lookup (ht, m) k)"
    (is "ht_lookup ?s k = _")
proof (cases "bucket k = bucket key")
  case True
  let ?m = "appended as key v fv m"
  have as': "bucket_ok t m (bucket k) as" using as True by simp
  have "find_key ?m k (as @ [fresh (kvs m)]) =
      (case find_key m k as of None \<Rightarrow> (if c_str k = c_str key then Some (fresh (kvs m)) else None)
       | Some a \<Rightarrow> Some a)"
    using appended_find(1) [OF wf as'] appended_new(1) [of as key v fv m]
    by (auto simp: find_snoc split: option.splits)
  moreover have "c_str k = c_str key \<Longrightarrow> find_key m k as = None" using none by simp
  moreover have "ht_lookup ?s k = (case find_key ?m k (as @ [fresh (kvs m)]) of None \<Rightarrow> None
      | Some a \<Rightarrow> value_at ?m a)"
    by (rule ht_lookup_eq(1))
      (use appended_bucket_same [OF as wf refl] True appended_wf [OF wf] in simp_all)
  ultimately show ?thesis
    using appended_find(2) [OF wf as'] appended_new(2) [of as key v fv m] ht_lookup_eq(1) [OF t as' wf(1)]
    by (auto split: option.splits)
next
  case False
  let ?m = "appended as key v fv m"
  have neq: "c_str k \<noteq> c_str key" using False bucket_c_str by metis
  obtain bs where bs: "bucket_ok t m (bucket k) bs" using all bucket_less by blast
  have "ht_lookup ?s k = (case find_key ?m k bs of None \<Rightarrow> None | Some a \<Rightarrow> value_at ?m a)"
    by (rule ht_lookup_eq(1))
      (use appended_bucket_other [OF as bs _ wf] False appended_wf [OF wf] in simp_all)
  then show ?thesis
    using neq appended_find [OF wf bs] ht_lookup_eq(1) [OF t bs wf(1)]
    by (auto split: option.splits)
qed

lemma put_miss_ok:
  assumes inv: "ht_inv (ht, m)" and miss: "\<not> ht_has (ht, m) key"
    and mem: "\<not> oom (kvs m) (fresh (kvs m))" "\<not> oom (strs m) (fresh (strs m))"
  shows "\<exists>s'. hash_table_put2 key v fv (ht, m) = Inr (0, s') \<and> ht_inv s' \<and> calls (snd s') = calls m
    \<and> (\<forall>k. ht_lookup s' k = (if c_str k = c_str key then v else ht_lookup (ht, m) k))"
proof -
  from inv obtain t0 where t0: "table ht = Some t0" and wf: "wf_heap (kvs m)" "wf_heap (strs m)"
    and all0: "\<forall>i < 1024. \<exists>as. bucket_ok t0 m i as" by (rule ht_invE)
  from inv miss obtain t as where t: "table ht = Some t" and as: "bucket_ok t m (bucket key) as"
    and none: "find_key m key as = None"
    and put: "hash_table_put2 key v fv (ht, m) =
      bind_res (put_append (bucket key) key v fv (if as = [] then t (bucket key) else Some (last as)) t m)
        (\<lambda>(r, t1, m2). Inr (r, ht\<lparr>table := Some t1\<rparr>, m2))" by (rule put_miss)
  have all: "\<forall>i < 1024. \<exists>as. bucket_ok t m i as" using all0 t t0 by simp
  let ?t = "if as = [] then t(bucket key := Some (fresh (kvs m))) else t"
  let ?s = "(ht\<lparr>table := Some ?t\<rparr>, appended as key v fv m)"
  have put': "hash_table_put2 key v fv (ht, m) = Inr (0, ?s)"
    using put put_append_ok [OF as wf(1) mem] by simp
  have "\<exists>bs. bucket_ok ?t (appended as key v fv m) j bs" if "j < 1024" for j
    using appended_bucket_same [OF as wf refl] appended_bucket_other [OF as _ _ wf] all that
    by (cases "j = bucket key") blast+
  then have inv': "ht_inv ?s" using appended_wf [OF wf] by (simp add: ht_inv_def)
  have "calls (appended as key v fv m) = calls m" by (simp add: appended_def Let_def)
  with put' inv' appended_lookup [OF t wf all as none] show ?thesis by (intro exI [of _ ?s]) simp
qed

subsection \<open>Running out of memory\<close>

lemma same_cells:
  assumes "cells (kvs m') = cells (kvs m)" and "cells (strs m') = cells (strs m)"
  shows "key_at m' = key_at m" and "value_at m' = value_at m" and "bucket_ok t m' = bucket_ok t m"
proof -
  show k: "key_at m' = key_at m" and "value_at m' = value_at m"
    unfolding key_at_def value_at_def assms by simp_all
  show "bucket_ok t m' = bucket_ok t m"
    by (intro ext) (simp add: bucket_ok_def assms k)
qed

lemma same_cells_table:
  assumes inv: "ht_inv (ht, m)" and c: "cells (kvs m') = cells (kvs m)" "cells (strs m') = cells (strs m)"
    and f: "fresh (kvs m) \<le> fresh (kvs m')" "fresh (strs m) \<le> fresh (strs m')"
  shows "ht_inv (ht, m')" and "ht_lookup (ht, m') = ht_lookup (ht, m)"
proof -
  from inv obtain t where t: "table ht = Some t" and wf: "wf_heap (kvs m)" "wf_heap (strs m)"
    and all: "\<forall>i < 1024. \<exists>as. bucket_ok t m i as" by (rule ht_invE)
  have wf': "wf_heap (kvs m')" "wf_heap (strs m')"
    using wf c f unfolding wf_heap_def by (metis order_less_le_trans)+
  show "ht_inv (ht, m')" using t wf' all same_cells(3) [OF c] by (simp add: ht_inv_def)
  show "ht_lookup (ht, m') = ht_lookup (ht, m)"
  proof
    fix k
    obtain as where as: "bucket_ok t m (bucket k) as" using all bucket_less by blast
    then have "bucket_ok t m' (bucket k) as" using same_cells(3) [OF c] by simp
    then show "ht_lookup (ht, m') k = ht_lookup (ht, m) k"
      using ht_lookup_eq(1) [OF t _ wf'(1)] ht_lookup_eq(1) [OF t as wf(1)] same_cells(1,2) [OF c]
      by (simp split: option.splits)
  qed
qed

lemma put_append_oom:
  assumes "wf_heap (strs m)" and "oom (kvs m) (fresh (kvs m)) \<or> oom (strs m) (fresh (strs m))"
  shows "\<exists>m'. put_append i key v fv prep t m = Inr (-1, t, m') \<and> cells (kvs m') = cells (kvs m)
    \<and> cells (strs m') = cells (strs m) \<and> fresh (kvs m) \<le> fresh (kvs m')
    \<and> fresh (strs m) \<le> fresh (strs m') \<and> calls m' = calls m"
  using assms wf_heap_fresh [OF assms(1)]
  by (cases "oom (strs m) (fresh (strs m))")
    (auto simp: put_append_def malloc_def Let_def free_cell_def fun_upd_idem)

lemma put_miss_oom:
  assumes inv: "ht_inv (ht, m)" and miss: "\<not> ht_has (ht, m) key"
    and full: "oom (kvs m) (fresh (kvs m)) \<or> oom (strs m) (fresh (strs m))"
  shows "\<exists>m'. hash_table_put2 key v fv (ht, m) = Inr (-1, ht, m') \<and> ht_inv (ht, m')
    \<and> ht_lookup (ht, m') = ht_lookup (ht, m) \<and> calls m' = calls m
    \<and> cells (kvs m') = cells (kvs m) \<and> cells (strs m') = cells (strs m)"
proof -
  from inv have wf: "wf_heap (strs m)" by (rule ht_invE)
  from inv miss obtain t as where t: "table ht = Some t"
    and put: "hash_table_put2 key v fv (ht, m) =
      bind_res (put_append (bucket key) key v fv (if as = [] then t (bucket key) else Some (last as)) t m)
        (\<lambda>(r, t1, m2). Inr (r, ht\<lparr>table := Some t1\<rparr>, m2))" by (rule put_miss)
  from put_append_oom [OF wf full] obtain m' where m':
    "put_append (bucket key) key v fv (if as = [] then t (bucket key) else Some (last as)) t m = Inr (-1, t, m')"
    "cells (kvs m') = cells (kvs m)" "cells (strs m') = cells (strs m)"
    "fresh (kvs m) \<le> fresh (kvs m')" "fresh (strs m) \<le> fresh (strs m')" "calls m' = calls m"
    by blast
  have "ht\<lparr>table := Some t\<rparr> = ht" using t by (cases ht) simp
  with put m'(1) have "hash_table_put2 key v fv (ht, m) = Inr (-1, ht, m')" by simp
  with same_cells_table [OF inv m'(2-5)] m' show ?thesis by simp
qed

lemma get_correct: "ht_inv s \<Longrightarrow> hash_table_get key s = Inr (ht_lookup s key)"
proof -
  assume inv: "ht_inv s"
  obtain ht m where s: "s = (ht, m)" by (cases s)
  from inv obtain t where t: "table ht = Some t" and wf: "wf_heap (kvs m)"
    and all: "\<forall>i < 1024. \<exists>as. bucket_ok t m i as" unfolding s by (rule ht_invE)
  obtain as where as: "bucket_ok t m (bucket key) as" using all bucket_less by blast
  show ?thesis
    using get_loop_eq [OF bucket_okD(1-3) [OF as wf]] t ht_lookup_eq(1) [OF t as wf]
    by (simp add: s hash_table_get_def)
qed

lemma put_correct:
  assumes "ht_inv s"
  shows "\<exists>r s'. hash_table_put2 key v fv s = Inr (r, s') \<and> ht_inv s'
    \<and> (r = 0 \<and> (\<forall>k. ht_lookup s' k = (if c_str k = c_str key then v else ht_lookup s k))
       \<or> r = -1 \<and> ht_lookup s' = ht_lookup s)"
proof -
  obtain ht m where s: "s = (ht, m)" by (cases s)
  note inv = assms [unfolded s]
  show ?thesis
  proof (cases "ht_has (ht, m) key")
    case True
    with inv show ?thesis unfolding s by (rule put_hit [where v = v and fv = fv]) blast
  next
    case False
    then show ?thesis unfolding s
      using put_miss_ok [OF inv False] put_miss_oom [OF inv False] by blast
  qed
qed

text \<open>\<open>hash_table_put2\<close> and \<open>hash_table_get\<close> are a key-value store over C strings.\<close>

interpretation ht: kv_store "\<lambda>k v. hash_table_put2 k v fv" hash_table_get ht_lookup c_str ht_inv
  for fv :: "'f option"
  by unfold_locales (rule get_correct put_correct; assumption)+

lemma ht_has_lookup: "ht_lookup s key \<noteq> None \<Longrightarrow> ht_has s key"
  by (auto simp: ht_lookup_def ht_has_def split: prod.splits option.splits)

lemma table_none_inv: "ht_inv table_none"
  by (auto simp: table_none_def ht_inv_def bucket_ok_def intro!: exI [of _ "[]"])

lemma table_none_lookup: "ht_lookup table_none k = None" "\<not> ht_has table_none k"
  by (auto simp: table_none_def ht_lookup_def ht_has_def find_cell_def bucket_cells_def)

text \<open>The table after storing value 5, with callback 1, under \<open>''k''\<close>.\<close>

lemma table_one:
  obtains s where "hash_table_put2 ''k'' (Some 5) (Some 1) table_none = Inr (0, s)"
    and "ht_inv s" and "ht_lookup s ''k'' = Some 5" and "ht_has s ''k''"
proof -
  obtain ht m where t: "table_none = (ht, m)" and ok: "\<not> oom (kvs m) (fresh (kvs m))"
    "\<not> oom (strs m) (fresh (strs m))"
    by (simp add: table_none_def empty_heap_def)
  from put_miss_ok [OF table_none_inv [unfolded t] table_none_lookup(2) [unfolded t] ok, of "''k''" "Some 5" "Some 1"]
  obtain s where "hash_table_put2 ''k'' (Some 5) (Some 1) (ht, m) = Inr (0, s)" "ht_inv s"
    "ht_lookup s ''k'' = Some 5" by auto
  with ht_has_lookup [of s "''k''"] show thesis using that by (simp add: t)
qed

lemma rm_correct:
  assumes "ht_inv s"
  shows "hash_table_rm key s = (if ht_has s key then Inl UseAfterFree else Inr s)"
proof -
  obtain ht m where s: "s = (ht, m)" by (cases s)
  from assms obtain t where t: "table ht = Some t" and wf: "wf_heap (kvs m)"
    and all: "\<forall>i < 1024. \<exists>as. bucket_ok t m i as" unfolding s by (rule ht_invE)
  obtain as where as: "bucket_ok t m (bucket key) as" using all bucket_less by blast
  have same: "ht\<lparr>table := Some t\<rparr> = ht" using t by (cases ht) simp
  show ?thesis
  proof (cases "find_key m key as")
    case None
    with rm_loop_miss [OF bucket_okD(1-3) [OF as wf] None] t same show ?thesis
      by (simp add: s hash_table_rm_def Let_def ht_lookup_eq(2) [OF t as wf])
  next
    case (Some a)
    with rm_loop_hit [OF bucket_okD(1-3) [OF as wf] Some] t show ?thesis
      by (simp add: s hash_table_rm_def Let_def ht_lookup_eq(2) [OF t as wf])
  qed
qed

lemma hash_loop_poly:
  "hash_loop key h = h * 33 ^ length (c_str key)
     + (\<Sum>i < length (c_str key). char_word (c_str key ! i) * 33 ^ (length (c_str key) - Suc i))"
proof (induction key arbitrary: h)
  case Nil
  then show ?case by (simp add: c_str_def)
next
  case (Cons c key)
  have shift: "push_bit 5 h + h = h * 33" by (simp add: push_bit_eq_mult algebra_simps)
  show ?case
  proof (cases "c = CHR 0x00")
    case True
    then show ?thesis by (simp add: c_str_def)
  next
    case False
    then have c: "c_str (c # key) = c # c_str key" by (simp add: c_str_def)
    have "hash_loop (c # key) h = hash_loop key (h * 33 + char_word c)"
      using False by (simp add: shift)
    with Cons [of "h * 33 + char_word c"] show ?thesis
      by (simp add: c sum.lessThan_Suc_shift algebra_simps del: sum.lessThan_Suc hash_loop.simps)
  qed
qed

section \<open>Properties\<close>

text \<open>C22: round trip. After \<open>hash_table_put2\<close> on a well-formed table, \<open>hash_table_get\<close> returns
  the stored value for exactly the keys equal as C strings when the put reported success, and what
  it returned before for every other key, and for every key when the put reported failure.\<close>

theorem hash_table_put_get:
  assumes "ht_inv s" and "hash_table_put2 key v fv s = Inr (r, s')"
  shows "hash_table_get k s' = (if r = 0 \<and> c_str k = c_str key then Inr v else hash_table_get k s)"
  using assms by (rule ht.put_get)

theorem hash_table_put_get_witness:
  "\<exists>s. hash_table_put2 ''k'' (Some 5) (Some 1) table_none = Inr (0, s)
     \<and> hash_table_get ''k'' s = Inr (Some 5) \<and> hash_table_get ''q'' s = hash_table_get ''q'' table_none"
proof -
  obtain s where put: "hash_table_put2 ''k'' (Some 5) (Some 1) table_none = Inr (0, s)"
    by (rule table_one)
  with hash_table_put_get [OF table_none_inv put] show ?thesis by (simp add: c_str_def)
qed

text \<open>C23: \<open>hash_table_put2\<close> on a well-formed table always returns, keeps the table well formed, and
  either stores the value (0) or reports \<open>-1\<close> and changes no lookup; on \<open>-1\<close> the heap holds
  exactly the live cells it held before, so nothing leaks.\<close>

theorem hash_table_put_total:
  assumes "ht_inv s"
  shows "\<exists>r s'. hash_table_put2 key v fv s = Inr (r, s') \<and> ht_inv s'
    \<and> (r = 0 \<and> (\<forall>k. ht_lookup s' k = (if c_str k = c_str key then v else ht_lookup s k))
       \<or> r = -1 \<and> ht_lookup s' = ht_lookup s \<and> cells (kvs (snd s')) = cells (kvs (snd s))
          \<and> cells (strs (snd s')) = cells (strs (snd s)))"
proof -
  obtain ht m where s: "s = (ht, m)" by (cases s)
  note inv = assms [unfolded s]
  show ?thesis
  proof (cases "ht_has (ht, m) key")
    case True
    with inv show ?thesis unfolding s by (rule put_hit [where v = v and fv = fv]) blast
  next
    case False
    then show ?thesis unfolding s
      using put_miss_ok [OF inv False] put_miss_oom [OF inv False] by fastforce
  qed
qed

theorem hash_table_put_total_witness:
  "\<exists>r s'. hash_table_put2 ''k'' (Some 5) (Some 1) table_none = Inr (r, s') \<and> ht_inv s'
    \<and> (r = 0 \<and> ht_lookup s' ''k'' = Some 5 \<or> r = -1 \<and> ht_lookup s' = ht_lookup table_none)"
  using hash_table_put_total [OF table_none_inv, of "''k''" "Some 5" "Some 1"] by auto

text \<open>Storing under a key that is already there calls the old value's \<open>free_value\<close> callback
  exactly once, on the old value, and calls no other callback.\<close>

lemma hash_table_put_frees_old:
  assumes "ht_inv (ht, m)" and "table ht = Some t" and "find_cell t m key = Some a"
    and "cells (kvs m) a = Some nd"
  shows "\<exists>m'. hash_table_put2 key v fv (ht, m) = Inr (0, ht, m')
    \<and> calls m' = calls m @ (case kv_free_value nd of None \<Rightarrow> [] | Some f \<Rightarrow> [(f, kv_value nd)])"
proof -
  have "ht_has (ht, m) key" using assms(2,3) by (simp add: ht_has_def)
  with assms(1) show ?thesis
  proof (rule put_hit [where v = v and fv = fv])
    fix b nb t' assume "table ht = Some t'" "find_cell t' m key = Some b" "cells (kvs m) b = Some nb"
      "hash_table_put2 key v fv (ht, m) = Inr (0, ht, overwrite b v fv m)"
    with assms(2-4) overwrite_simps(4) [OF assms(4)] show ?thesis by simp
  qed
qed

text \<open>C34: \<open>hash_table_rm\<close> on a well-formed table is the identity when the key is not stored, and
  reads freed memory whenever it is: the loop takes \<open>p->next\<close> after \<open>free_kv(p)\<close>.\<close>

theorem hash_table_rm_uses_freed_cell:
  assumes "ht_inv s"
  shows "hash_table_rm key s = (if ht_has s key then Inl UseAfterFree else Inr s)"
  using assms by (rule rm_correct)

theorem hash_table_rm_uses_freed_cell_witness:
  "\<exists>s. hash_table_put2 ''k'' (Some 5) (Some 1) table_none = Inr (0, s)
     \<and> hash_table_rm ''k'' s = Inl UseAfterFree \<and> hash_table_rm ''k'' table_none = Inr table_none"
proof -
  obtain s where "hash_table_put2 ''k'' (Some 5) (Some 1) table_none = Inr (0, s)" "ht_inv s"
    "ht_has s ''k''" by (rule table_one)
  with hash_table_rm_uses_freed_cell [OF table_none_inv, of "''k''"]
    hash_table_rm_uses_freed_cell [of s "''k''"] table_none_lookup show ?thesis by auto
qed

text \<open>C27: the Times33 hash is the polynomial in 33 of the characters before the first NUL, modulo
  \<open>2 ^ 32\<close>, with signed characters, and it selects one of the 1024 buckets.\<close>

theorem hash_33_polynomial:
  "hash_33 key = (\<Sum>i < length (c_str key). char_word (c_str key ! i) * 33 ^ (length (c_str key) - Suc i))
    \<and> bucket key < TABLE_SIZE \<and> bucket (c_str key) = bucket key"
  using hash_loop_poly [of key 0] by (simp add: hash_33_def)

end
