(* ===== verification/Hash_Delete.thy ===== *)
theory Hash_Delete
  imports Hash_Table
begin

text \<open>
  Deleting a hash table. A table built by \<open>hash_table_new\<close> and \<open>hash_table_put2\<close> owns all the
  memory of its heap: every live cell is on the chain of one bucket, every live string is the key of
  one cell. \<open>hash_table_delete\<close> releases all of it and calls every callback once.
\<close>

section \<open>Ownership\<close>

text \<open>Every live cell has a live key of its own.\<close>

definition keys_own :: "('v, 'f) hmem \<Rightarrow> bool" where
  "keys_own m \<longleftrightarrow>
     (\<forall>a nd. cells (kvs m) a = Some nd \<longrightarrow> (\<exists>k. kv_key nd = Some k \<and> cells (strs m) k \<noteq> None))
   \<and> (\<forall>a b nd nd'. cells (kvs m) a = Some nd \<longrightarrow> cells (kvs m) b = Some nd' \<longrightarrow> kv_key nd = kv_key nd' \<longrightarrow> a = b)"

text \<open>No cell and no string is lost.\<close>

definition covered :: "(nat \<Rightarrow> ptr) \<Rightarrow> ('v, 'f) hmem \<Rightarrow> bool" where
  "covered t m \<longleftrightarrow>
     (\<forall>a. cells (kvs m) a \<noteq> None \<longrightarrow> (\<exists>i as. i < TABLE_SIZE \<and> bucket_ok t m i as \<and> a \<in> set as))
   \<and> (\<forall>k. cells (strs m) k \<noteq> None \<longrightarrow> (\<exists>a nd. cells (kvs m) a = Some nd \<and> kv_key nd = Some k))"

definition ht_owned :: "hash_table \<times> ('v, 'f) hmem \<Rightarrow> bool" where
  "ht_owned s \<longleftrightarrow> ht_inv s \<and> (let (ht, m) = s in
     keys_own m \<and> (case table ht of None \<Rightarrow> False | Some t \<Rightarrow> covered t m))"

text \<open>The callbacks due when the cell at \<open>a\<close> is freed.\<close>

definition callback_of :: "('v, 'f) hmem \<Rightarrow> addr \<Rightarrow> ('f \<times> 'v option) list" where
  "callback_of m a = (case cells (kvs m) a of None \<Rightarrow> []
     | Some nd \<Rightarrow> (case kv_free_value nd of None \<Rightarrow> [] | Some f \<Rightarrow> [(f, kv_value nd)]))"

text \<open>The tables a client can build in an empty heap.\<close>

inductive ht_reach :: "hash_table \<times> ('v, 'f) hmem \<Rightarrow> bool" where
  new: "\<lbrakk>hash_table_new ok1 ok2 m = Inr (Some ht, m'); \<forall>a. cells (kvs m) a = None; \<forall>k. cells (strs m) k = None\<rbrakk>
    \<Longrightarrow> ht_reach (ht, m')"
| put: "\<lbrakk>ht_reach s; hash_table_put2 key v fv s = Inr (r, s')\<rbrakk> \<Longrightarrow> ht_reach s'"

section \<open>Lemmas\<close>

subsection \<open>Freeing\<close>

text \<open>\<open>released A m m'\<close>: the cells \<open>A\<close> and their keys are gone, nothing else.\<close>

definition released :: "addr set \<Rightarrow> ('v, 'f) hmem \<Rightarrow> ('v, 'f) hmem \<Rightarrow> bool" where
  "released A m m' \<longleftrightarrow> fresh (kvs m') = fresh (kvs m)
     \<and> (\<forall>a. cells (kvs m') a = (if a \<in> A then None else cells (kvs m) a))
     \<and> (\<forall>k. cells (strs m') k = (if \<exists>a\<in>A. \<exists>nd. cells (kvs m) a = Some nd \<and> kv_key nd = Some k then None
          else cells (strs m) k))"

lemma released_empty: "released {} m m"
  by (simp add: released_def)

lemma released_keys: "keys_own m \<Longrightarrow> released A m m' \<Longrightarrow> keys_own m'"
  unfolding keys_own_def released_def by (auto split: if_splits; metis)

lemma released_trans:
  assumes "released A m m1" and "released B m1 m2" and "A \<inter> B = {}"
  shows "released (A \<union> B) m m2"
  using assms unfolding released_def by (auto; metis disjoint_iff option.distinct(1) option.inject)

lemma released_wf: "wf_heap (kvs m) \<Longrightarrow> released A m m' \<Longrightarrow> wf_heap (kvs m')"
  by (auto simp: wf_heap_def released_def split: if_splits)

lemma released_chain:
  "released A m m' \<Longrightarrow> chain kv_next (cells (kvs m)) p as \<Longrightarrow> set as \<inter> A = {} \<Longrightarrow> chain kv_next (cells (kvs m')) p as"
proof (induction as arbitrary: p)
  case Nil
  then show ?case by simp
next
  case (Cons a as)
  then have "cells (kvs m') a = cells (kvs m) a" by (auto simp: released_def)
  with Cons show ?case by (auto split: option.splits)
qed

lemma released_callbacks: "released A m m' \<Longrightarrow> a \<notin> A \<Longrightarrow> callback_of m' a = callback_of m a"
  by (simp add: released_def callback_of_def cong: option.case_cong)

lemma free_kv_releases:
  assumes "keys_own m" and "cells (kvs m) a = Some nd"
  shows "\<exists>m'. free_kv (Some a) m = Inr m' \<and> released {a} m m' \<and> calls m' = calls m @ callback_of m a"
proof -
  obtain k where k: "kv_key nd = Some k" "cells (strs m) k \<noteq> None" using assms unfolding keys_own_def by blast
  have "calls (call_free_value (kv_free_value nd) (kv_value nd) m) = calls m @ callback_of m a"
    using assms(2) by (simp add: call_free_value_def callback_of_def split: option.splits)
  with assms(2) k show ?thesis by (auto simp: free_kv_def Let_def released_def)
qed

lemma free_chain_releases:
  assumes "chain kv_next (cells (kvs m)) p as" and "length as \<le> n" and "keys_own m"
  shows "\<exists>m'. free_chain n p m = Inr m' \<and> released (set as) m m'
    \<and> calls m' = calls m @ concat (map (callback_of m) as)"
  using assms
proof (induction as arbitrary: n p m)
  case Nil
  then show ?case by (simp add: released_empty)
next
  case (Cons a as)
  have dist: "a \<notin> set as" using chain_distinct [OF Cons.prems(1)] by simp
  from Cons.prems obtain nd k where nd: "p = Some a" "cells (kvs m) a = Some nd" "chain kv_next (cells (kvs m)) (kv_next nd) as"
    and n: "n = Suc k" "length as \<le> k" by (cases n) (auto split: option.splits)
  obtain m1 where m1: "free_kv (Some a) m = Inr m1" "released {a} m m1" "calls m1 = calls m @ callback_of m a"
    using free_kv_releases [OF Cons.prems(3) nd(2)] by blast
  have "chain kv_next (cells (kvs m1)) (kv_next nd) as" using released_chain [OF m1(2) nd(3)] dist by simp
  from Cons.IH [OF this n(2) released_keys [OF Cons.prems(3) m1(2)]] obtain m2 where m2:
    "free_chain k (kv_next nd) m1 = Inr m2" "released (set as) m1 m2"
    "calls m2 = calls m1 @ concat (map (callback_of m1) as)" by blast
  have "map (callback_of m1) as = map (callback_of m) as"
    by (intro map_cong refl released_callbacks [OF m1(2)]) (use dist in auto)
  with m1 m2 nd n released_trans [OF m1(2) m2(2)] dist show ?case by simp
qed

lemma free_buckets_releases:
  assumes "distinct js" and "\<And>i. i \<in> set js \<Longrightarrow> chain kv_next (cells (kvs m)) (t i) (bs i)"
    and "\<And>i j. i \<in> set js \<Longrightarrow> j \<in> set js \<Longrightarrow> i \<noteq> j \<Longrightarrow> set (bs i) \<inter> set (bs j) = {}"
    and "keys_own m" and "wf_heap (kvs m)"
  shows "\<exists>m'. free_buckets js t m = Inr m' \<and> released (\<Union>i\<in>set js. set (bs i)) m m'
    \<and> calls m' = calls m @ concat (map (\<lambda>i. concat (map (callback_of m) (bs i))) js)"
  using assms
proof (induction js arbitrary: m)
  case Nil
  then show ?case by (simp add: released_empty)
next
  case (Cons i js)
  have ch: "chain kv_next (cells (kvs m)) (t i) (bs i)" using Cons.prems(2) by simp
  obtain m1 where m1: "free_chain (fresh (kvs m)) (t i) m = Inr m1" "released (set (bs i)) m m1"
    "calls m1 = calls m @ concat (map (callback_of m) (bs i))"
    using free_chain_releases [OF ch chain_length [OF ch Cons.prems(5)] Cons.prems(4)] by blast
  have disj: "set (bs j) \<inter> set (bs i) = {}" if "j \<in> set js" for j
    using Cons.prems(1,3) that by (metis distinct.simps(2) list.set_intros)
  have "\<exists>m'. free_buckets js t m1 = Inr m' \<and> released (\<Union>i\<in>set js. set (bs i)) m1 m'
    \<and> calls m' = calls m1 @ concat (map (\<lambda>i. concat (map (callback_of m1) (bs i))) js)"
  proof (rule Cons.IH)
    show "chain kv_next (cells (kvs m1)) (t j) (bs j)" if "j \<in> set js" for j
      using released_chain [OF m1(2) Cons.prems(2) disj] that by simp
  qed (use Cons.prems released_keys [OF _ m1(2)] released_wf [OF _ m1(2)] in auto)
  then obtain m2 where m2: "free_buckets js t m1 = Inr m2" "released (\<Union>i\<in>set js. set (bs i)) m1 m2"
    "calls m2 = calls m1 @ concat (map (\<lambda>i. concat (map (callback_of m1) (bs i))) js)" by blast
  have cb: "map (\<lambda>i. concat (map (callback_of m1) (bs i))) js = map (\<lambda>i. concat (map (callback_of m) (bs i))) js"
    using released_callbacks [OF m1(2)] disj by (intro map_cong refl arg_cong [where f = concat]) (auto intro!: map_cong)
  have "released (set (bs i) \<union> (\<Union>i\<in>set js. set (bs i))) m m2"
    by (rule released_trans [OF m1(2) m2(2)]) (use disj in blast)
  with m1 m2(1) m2(3) [unfolded cb] show ?case by simp
qed

subsection \<open>Ownership is kept\<close>

lemma ht_ownedE:
  assumes "ht_owned (ht, m)"
  obtains t where "table ht = Some t" and "ht_inv (ht, m)" and "keys_own m" and "covered t m"
  using assms by (auto simp: ht_owned_def split: option.splits)

lemma overwrite_owned:
  assumes "keys_own m" and "covered t m" and "cells (kvs m) a = Some nd"
  shows "keys_own (overwrite a v fv m)" and "covered t (overwrite a v fv m)"
proof -
  have key: "\<exists>nd. cells (kvs m) b = Some nd \<and> kv_key nd = kv_key nd'"
    if "cells (kvs (overwrite a v fv m)) b = Some nd'" for b nd'
    using that assms(3) by (auto simp: overwrite_simps(1) [OF assms(3)] split: if_splits)
  show "keys_own (overwrite a v fv m)"
    using assms(1) unfolding keys_own_def overwrite_simps(3) [OF assms(3)] by (metis key)
  have "\<exists>nd'. cells (kvs (overwrite a v fv m)) b = Some nd' \<and> kv_key nd' = kv_key nb" if "cells (kvs m) b = Some nb" for b nb
    using that assms(3) by (auto simp: overwrite_simps(1) [OF assms(3)])
  note kept = this
  show "covered t (overwrite a v fv m)"
    unfolding covered_def bucket_ok_overwrite overwrite_simps(3) [OF assms(3)]
  proof (intro conjI allI impI)
    fix b assume "cells (kvs (overwrite a v fv m)) b \<noteq> None"
    with key have "cells (kvs m) b \<noteq> None" by fastforce
    with assms(2) show "\<exists>i as. i < TABLE_SIZE \<and> bucket_ok t m i as \<and> b \<in> set as" unfolding covered_def by blast
  next
    fix k assume "cells (strs m) k \<noteq> None"
    then obtain b nb where "cells (kvs m) b = Some nb" "kv_key nb = Some k" using assms(2) unfolding covered_def by blast
    with kept show "\<exists>b nd. cells (kvs (overwrite a v fv m)) b = Some nd \<and> kv_key nd = Some k" by fastforce
  qed
qed

lemma appended_cell:
  assumes "bucket_ok t m i as" and "wf_heap (kvs m)"
  shows "cells (kvs (appended as key v fv m)) b = Some nd' \<Longrightarrow>
      b = fresh (kvs m) \<and> kv_key nd' = Some (fresh (strs m)) \<or> (\<exists>nd. cells (kvs m) b = Some nd \<and> kv_key nd = kv_key nd')"
    and "cells (kvs m) b = Some nd \<Longrightarrow> \<exists>nd'. cells (kvs (appended as key v fv m)) b = Some nd' \<and> kv_key nd' = kv_key nd"
    and "\<exists>nd'. cells (kvs (appended as key v fv m)) (fresh (kvs m)) = Some nd' \<and> kv_key nd' = Some (fresh (strs m))"
    and "cells (strs (appended as key v fv m)) = (cells (strs m))(fresh (strs m) := Some (c_str key))"
  using assms(2) by (auto simp: appended_def Let_def split: if_splits option.splits)

lemma appended_owned:
  assumes own: "keys_own m" and cov: "covered t m" and all: "\<forall>i < 1024. \<exists>as. bucket_ok t m i as"
    and as: "bucket_ok t m (bucket key) as" and wf: "wf_heap (kvs m)" "wf_heap (strs m)"
  shows "keys_own (appended as key v fv m)"
    and "covered (if as = [] then t(bucket key := Some (fresh (kvs m))) else t) (appended as key v fv m)"
proof -
  let ?m = "appended as key v fv m" and ?t = "if as = [] then t(bucket key := Some (fresh (kvs m))) else t"
  note cell = appended_cell [OF as wf(1), where key = key and v = v and fv = fv]
  have old: "kv_key nd \<noteq> Some (fresh (strs m))" if "cells (kvs m) b = Some nd" for b nd
    using own that wf(2) unfolding keys_own_def by (metis option.inject wf_heap_fresh)
  show "keys_own ?m"
    unfolding keys_own_def
  proof (intro conjI allI impI)
    fix b nd' assume "cells (kvs ?m) b = Some nd'"
    from cell(1) [OF this] show "\<exists>k. kv_key nd' = Some k \<and> cells (strs ?m) k \<noteq> None"
      using own unfolding keys_own_def cell(4) by (metis fun_upd_apply option.distinct(1))
  next
    fix b c nd nd' assume "cells (kvs ?m) b = Some nd" "cells (kvs ?m) c = Some nd'" "kv_key nd = kv_key nd'"
    with cell(1) [of b nd] cell(1) [of c nd'] old own show "b = c" unfolding keys_own_def by metis
  qed
  have same: "bucket_ok ?t ?m (bucket key) (as @ [fresh (kvs m)])" by (rule appended_bucket_same [OF as wf refl])
  show "covered ?t ?m"
    unfolding covered_def
  proof (intro conjI allI impI)
    fix b assume "cells (kvs ?m) b \<noteq> None"
    then obtain nd' where "cells (kvs ?m) b = Some nd'" by blast
    from cell(1) [OF this] consider "b = fresh (kvs m)" | "cells (kvs m) b \<noteq> None" by auto
    then show "\<exists>i cs. i < TABLE_SIZE \<and> bucket_ok ?t ?m i cs \<and> b \<in> set cs"
    proof cases
      case 1
      with same bucket_less show ?thesis by (metis in_set_conv_decomp)
    next
      case 2
      then obtain i cs where cs: "i < TABLE_SIZE" "bucket_ok t m i cs" "b \<in> set cs" using cov unfolding covered_def by blast
      show ?thesis
      proof (cases "i = bucket key")
        case True
        with cs(2) as wf(1) have "cs = as" using bucket_okD(1) chain_unique by metis
        with same cs True show ?thesis by (metis Un_iff set_append)
      next
        case False
        with appended_bucket_other [OF as cs(2) _ wf] cs show ?thesis by blast
      qed
    qed
  next
    fix k assume "cells (strs ?m) k \<noteq> None"
    then consider "k = fresh (strs m)" | "cells (strs m) k \<noteq> None" by (auto simp: cell(4) split: if_splits)
    then show "\<exists>b nd. cells (kvs ?m) b = Some nd \<and> kv_key nd = Some k"
      using cell(2,3) cov unfolding covered_def by cases metis+
  qed
qed

lemma put_owned:
  assumes own: "ht_owned s" and put: "hash_table_put2 key v fv s = Inr (r, s')"
  shows "ht_owned s'"
proof -
  obtain ht m where s: "s = (ht, m)" by (cases s)
  from own obtain t where t: "table ht = Some t" and inv: "ht_inv (ht, m)" and ko: "keys_own m" and cov: "covered t m"
    unfolding s by (rule ht_ownedE)
  from inv have wf: "wf_heap (kvs m)" "wf_heap (strs m)" and all: "\<forall>i < 1024. \<exists>as. bucket_ok t m i as"
    using t by (auto elim!: ht_invE)
  have inv': "ht_inv s'" using put_correct [OF inv, of key v fv] put s by auto
  show ?thesis
  proof (cases "ht_has (ht, m) key")
    case True
    from inv True obtain a nd where a: "cells (kvs m) a = Some nd"
      "hash_table_put2 key v fv (ht, m) = Inr (0, ht, overwrite a v fv m)" by (rule put_hit)
    with put s inv' t overwrite_owned [OF ko cov a(1)] show ?thesis by (auto simp: ht_owned_def)
  next
    case False
    from inv False obtain t1 as where as: "table ht = Some t1" "bucket_ok t1 m (bucket key) as"
      and p: "hash_table_put2 key v fv (ht, m) =
        bind_res (put_append (bucket key) key v fv (if as = [] then t1 (bucket key) else Some (last as)) t1 m)
          (\<lambda>(r, t1, m2). Inr (r, ht\<lparr>table := Some t1\<rparr>, m2))" by (rule put_miss)
    have t1: "t1 = t" using as(1) t by simp
    show ?thesis
    proof (cases "oom (kvs m) (fresh (kvs m)) \<or> oom (strs m) (fresh (strs m))")
      case True
      from put_miss_oom [OF inv False True, of v fv] put s obtain m' where m': "s' = (ht, m')"
        "cells (kvs m') = cells (kvs m)" "cells (strs m') = cells (strs m)" by auto
      with inv' t ko cov same_cells(3) [OF m'(2,3), of t] show ?thesis
        by (simp add: ht_owned_def keys_own_def covered_def)
    next
      case False
      then have "hash_table_put2 key v fv (ht, m) = Inr (0, ht\<lparr>table := Some (if as = [] then t(bucket key := Some (fresh (kvs m))) else t)\<rparr>,
          appended as key v fv m)"
        using p put_append_ok [OF as(2) wf(1), of key v fv] unfolding t1 by simp
      with put s inv' appended_owned [OF ko cov all as(2) [unfolded t1] wf] show ?thesis by (auto simp: ht_owned_def)
    qed
  qed
qed

lemma ht_reach_owned: "ht_reach s \<Longrightarrow> ht_owned s"
proof (induction rule: ht_reach.induct)
  case (new ok1 ok2 m ht m')
  from new(1) have m: "m' = m" "table ht = Some (\<lambda>_. None)"
    by (auto simp: hash_table_new_def hash_table_delete_def split: if_splits)
  have "bucket_ok (\<lambda>_. None) m i []" for i by (simp add: bucket_ok_def)
  moreover have "wf_heap (kvs m)" "wf_heap (strs m)" using new(2,3) by (simp_all add: wf_heap_def)
  ultimately have "ht_inv (ht, m)" using m(2) by (auto simp: ht_inv_def)
  with m new(2,3) show ?case by (simp add: ht_owned_def keys_own_def covered_def)
next
  case (put s key v fv r s')
  show ?case by (rule put_owned [OF put.IH put.hyps(2)])
qed

lemma bucket_cells_ok:
  assumes "wf_heap (kvs m)" and "\<forall>i < 1024. \<exists>as. bucket_ok t m i as" and "i < 1024"
  shows "bucket_ok t m i (bucket_cells t m i)"
  using assms bucket_okD(4) by metis

lemma delete_owned:
  assumes "ht_owned (ht, m)" and t: "table ht = Some t"
  shows "\<exists>m'. hash_table_delete (Some ht) m = Inr m' \<and> (\<forall>a. cells (kvs m') a = None) \<and> (\<forall>k. cells (strs m') k = None)
    \<and> calls m' = calls m @ concat (map (\<lambda>i. concat (map (callback_of m) (bucket_cells t m i))) [0..<1024])"
proof -
  from assms have inv: "ht_inv (ht, m)" and ko: "keys_own m" and cov: "covered t m" by (auto elim!: ht_ownedE)
  from inv have wf: "wf_heap (kvs m)" and all: "\<forall>i < 1024. \<exists>as. bucket_ok t m i as" using t by (auto elim!: ht_invE)
  note ok = bucket_cells_ok [OF wf all]
  let ?A = "\<Union>i\<in>set [0..<1024]. set (bucket_cells t m i)"
  have "\<exists>m'. free_buckets [0..<1024] t m = Inr m' \<and> released ?A m m'
    \<and> calls m' = calls m @ concat (map (\<lambda>i. concat (map (callback_of m) (bucket_cells t m i))) [0..<1024])"
  proof (rule free_buckets_releases)
    show "chain kv_next (cells (kvs m)) (t i) (bucket_cells t m i)" if "i \<in> set [0..<1024]" for i
      using that by (intro bucket_okD(1) [OF ok wf]) simp
    show "set (bucket_cells t m i) \<inter> set (bucket_cells t m j) = {}" if "i \<in> set [0..<1024]" "j \<in> set [0..<1024]" "i \<noteq> j" for i j
      using that bucket_ok_disjoint [OF ok ok, of i j] by auto
  qed (use ko wf in simp_all)
  then obtain m' where m': "free_buckets [0..<1024] t m = Inr m'" "released ?A m m'"
    "calls m' = calls m @ concat (map (\<lambda>i. concat (map (callback_of m) (bucket_cells t m i))) [0..<1024])" by blast
  have "a \<in> ?A" if live: "cells (kvs m) a \<noteq> None" for a
  proof -
    from cov live obtain i as where i: "i < 1024" "bucket_ok t m i as" "a \<in> set as" unfolding covered_def by blast
    with bucket_okD(4) [OF i(2) wf] show ?thesis by auto
  qed
  then have none: "cells (kvs m') a = None" for a using m'(2) unfolding released_def by metis
  have "cells (strs m') k = None" for k
  proof (cases "cells (strs m) k")
    case None
    with m'(2) show ?thesis by (simp add: released_def)
  next
    case (Some str)
    with cov obtain a nd where a: "cells (kvs m) a = Some nd" "kv_key nd = Some k" unfolding covered_def by blast
    with \<open>\<And>a. cells (kvs m) a \<noteq> None \<Longrightarrow> a \<in> ?A\<close> have "a \<in> ?A" by blast
    with a m'(2) show ?thesis unfolding released_def by metis
  qed
  with none m' t show ?thesis by (simp add: hash_table_delete_def del: upt_conv_Cons set_upt)
qed

section \<open>Properties\<close>

text \<open>C24: whatever keys were stored in a table made by \<open>hash_table_new\<close>, \<open>hash_table_delete\<close> returns
  without a fault, frees every cell and every key string, none twice, and calls the \<open>free_value\<close>
  callback of every stored value exactly once, bucket by bucket in the order of the chains.\<close>

theorem hash_table_delete_frees_all:
  assumes "ht_reach (ht, m)"
  shows "\<exists>t m'. table ht = Some t \<and> hash_table_delete (Some ht) m = Inr m'
    \<and> (\<forall>a. cells (kvs m') a = None) \<and> (\<forall>k. cells (strs m') k = None)
    \<and> calls m' = calls m @ concat (map (\<lambda>i. concat (map (callback_of m) (bucket_cells t m i))) [0..<1024])"
proof -
  have own: "ht_owned (ht, m)" using assms by (rule ht_reach_owned)
  then obtain t where "table ht = Some t" by (rule ht_ownedE)
  with delete_owned [OF own this] show ?thesis by blast
qed

theorem hash_table_delete_frees_all_witness:
  "\<exists>ht m m'. hash_table_put2 ''k'' (Some 5) (Some 1) table_none = Inr (0, ht, m) \<and> cells (kvs m) 0 \<noteq> None
    \<and> hash_table_delete (Some ht) m = Inr m' \<and> (\<forall>a. cells (kvs m') a = None)"
proof -
  obtain ht m where s: "hash_table_put2 ''k'' (Some 5) (Some 1) table_none = Inr (0, ht, m)" "ht_has (ht, m) ''k''"
    using table_one by (metis surj_pair)
  have "ht_reach table_none"
    unfolding table_none_def by (rule ht_reach.new [of True True "\<lparr>kvs = empty_heap, strs = empty_heap, calls = []\<rparr>"])
      (simp_all add: hash_table_new_def empty_heap_def)
  then have "ht_reach (ht, m)" by (rule ht_reach.put) (rule s(1))
  moreover have "cells (kvs m) 0 \<noteq> None"
    using s(1) by (auto simp: hash_table_put2_def table_none_def put_append_def malloc_def empty_heap_def Let_def init_kv_def)
  ultimately show ?thesis using hash_table_delete_frees_all [of ht m] s(1) by blast
qed

end
