(* ===== verification/Timer.thy ===== *)
theory Timer
  imports Phpco_Prelude
begin

text \<open>
  The timer descriptors of \<open>coroutine_timer.c\<close> and the millisecond clock of \<open>coroutine.c\<close>.
  What the system calls answer is an argument of the definitions.
\<close>

section \<open>Definitions\<close>

record itimerspec =
  value_sec :: int
  value_nsec :: int
  interval_sec :: int
  interval_nsec :: int

text \<open>Addition of \<open>time_t\<close> values, 64-bit signed.\<close>

definition time_add :: "int \<Rightarrow> int \<Rightarrow> int res" where
  "time_add a b = (if - (2 ^ 63) \<le> a + b \<and> a + b < 2 ^ 63 then Inr (a + b) else Inl SignedOverflow)"

text \<open>
  \<open>tfd\<close> is the answer of \<open>timerfd_create\<close>, \<open>clock\<close> that of \<open>clock_gettime\<close>: seconds and
  nanoseconds of the monotonic clock, or \<open>None\<close> when the call fails.
\<close>

definition create_timerfd :: "int \<Rightarrow> (int \<times> int) option \<Rightarrow> itimerspec \<Rightarrow> int \<Rightarrow> (int \<times> itimerspec) res" where
  "create_timerfd tfd clock its interval =
     (if tfd < 0 then Inr (C_ERR, its)
      else case clock of
        None \<Rightarrow> Inr (C_ERR, its)
      | Some (sec, nsec) \<Rightarrow>
          bind_res (time_add sec interval) (\<lambda>t.
            Inr (tfd, its\<lparr>value_sec := t, value_nsec := 0, interval_sec := 0, interval_nsec := 0\<rparr>)))"

text \<open>\<open>gettimeofday\<close> gives seconds and microseconds; the result is in milliseconds.\<close>

definition get_current_time :: "int \<times> int \<Rightarrow> int" where
  "get_current_time tv = (let (sec, usec) = tv in sec * 1000 + usec div 1000)"

section \<open>Properties\<close>

text \<open>C31: when \<open>create_timerfd\<close> succeeds, the timer is one-shot and expires less than one second
  before, and never after, the requested interval counted from the clock reading: the fraction of
  the current second is dropped, so \<open>sleep(n)\<close> waits more than \<open>n - 1\<close> and at most \<open>n\<close> seconds.\<close>

theorem create_timerfd_deadline:
  assumes "0 \<le> tfd" and "0 \<le> nsec" and "nsec < 1000000000"
    and "0 \<le> sec" and "0 < interval" and "sec + interval < 2 ^ 63"
  shows "\<exists>its'. create_timerfd tfd (Some (sec, nsec)) its interval = Inr (tfd, its')
    \<and> interval_sec its' = 0 \<and> interval_nsec its' = 0
    \<and> (let now = sec * 1000000000 + nsec; expiry = value_sec its' * 1000000000 + value_nsec its' in
         now + (interval - 1) * 1000000000 < expiry \<and> expiry \<le> now + interval * 1000000000)"
  using assms by (simp add: create_timerfd_def time_add_def Let_def algebra_simps)

theorem create_timerfd_deadline_witness:
  "\<exists>its'. create_timerfd 7 (Some (100, 999999999)) \<lparr>value_sec = 0, value_nsec = 0, interval_sec = 0,
      interval_nsec = 0\<rparr> 1 = Inr (7, its')
    \<and> value_sec its' * 1000000000 + value_nsec its' - (100 * 1000000000 + 999999999) \<le> 1000000000"
  using create_timerfd_deadline [of 7 999999999 100 1
      "\<lparr>value_sec = 0, value_nsec = 0, interval_sec = 0, interval_nsec = 0\<rparr>"]
  by (auto simp: Let_def)

text \<open>The millisecond clock never runs ahead of the microsecond clock and lags it by less than
  one millisecond, so it is monotone in the time of day.\<close>

lemma get_current_time_accuracy:
  "get_current_time (sec, usec) * 1000 \<le> sec * 1000000 + usec
   \<and> sec * 1000000 + usec < (get_current_time (sec, usec) + 1) * 1000"
proof -
  have "usec div 1000 * 1000 \<le> usec" "usec < (usec div 1000 + 1) * 1000"
    by presburger+
  then show ?thesis by (simp add: get_current_time_def algebra_simps)
qed

end
