(* ===== verification/Zend.thy ===== *)
theory Zend
  imports Phpco_Prelude
begin

text \<open>
  The PHP values the extension handles, what it asks of PHP streams, sockets and PDO objects (an
  argument of the definitions, as that code is not part of the repository), and the conversion of
  a PHP value to a file descriptor in \<open>coroutine_event.c\<close>.
\<close>

section \<open>Definitions\<close>

datatype zval =
    ZUndef | ZNull | ZBool bool | ZLong int | ZString string | ZResource nat | ZObject nat

text \<open>
  The handle of a connection of the driver \<open>pdo_mysql\<close>, in the branch for \<open>mysqlnd\<close>; \<open>server\<close> is a
  \<open>MYSQLND\<close>. The private data of a \<open>pdo_dbh_t\<close> is such a handle for this driver, something else for
  another one, and missing as long as the connection was not made.
\<close>

record pdo_mysql_error_info =
  ei_file :: string
  ei_line :: int
  ei_errcode :: u32
  ei_errmsg :: "string option"

record pdo_mysql_db_handle =
  server :: nat
  assume_national_character_set_strings :: bool
  attached :: bool
  buffered :: bool
  emulate_prepare :: bool
  fetch_table_names :: bool
  einfo :: pdo_mysql_error_info

datatype driver_data = NoDriver | MysqlDriver pdo_mysql_db_handle | OtherDriver

text \<open>
  \<open>stream_fd r\<close>: \<open>None\<close> when resource \<open>r\<close> is no stream, \<open>Some None\<close> when the stream cannot
  be cast to a descriptor, \<open>Some (Some fd)\<close> otherwise; \<open>socket_fd r\<close>: the descriptor of a
  socket resource; \<open>class_of o\<close>: the class name of an object; \<open>pdo_inner o\<close> and \<open>stmt_dbh o\<close>: the
  \<open>pdo_dbh_t\<close> of a PDO and of a PDOStatement object; \<open>mysqlnd_fd m\<close>: the descriptor of the stream of
  a \<open>MYSQLND\<close> connection, \<open>None\<close> when the cast fails.
\<close>

record php_env =
  stream_fd :: "nat \<Rightarrow> int option option"
  socket_fd :: "nat \<Rightarrow> int option"
  class_of :: "nat \<Rightarrow> string"
  pdo_inner :: "nat \<Rightarrow> nat"
  stmt_dbh :: "nat \<Rightarrow> nat"
  driver_data_of :: "nat \<Rightarrow> driver_data"
  mysqlnd_fd :: "nat \<Rightarrow> int option"

text \<open>
  The way from a \<open>pdo_dbh_t\<close> to its descriptor. The driver is not looked at: the private data of another
  one is read as if it were a handle of \<open>pdo_mysql\<close>. The result of \<open>php_stream_cast\<close> is not checked:
  when the cast fails, \<open>socket_fd\<close> is returned without having been set.
\<close>

definition dbh_fd :: "php_env \<Rightarrow> nat \<Rightarrow> int res" where
  "dbh_fd env dbh =
     (case driver_data_of env dbh of
        NoDriver \<Rightarrow> Inl NullDeref
      | OtherDriver \<Rightarrow> Inl BadCast
      | MysqlDriver h \<Rightarrow> (case mysqlnd_fd env (server h) of Some fd \<Rightarrow> Inr fd | None \<Rightarrow> Inl Uninitialised))"

text \<open>For an object of another class \<open>socket_fd\<close> is returned without having been set, too.\<close>

definition c_convert_to_fd :: "php_env \<Rightarrow> zval \<Rightarrow> int res" where
  "c_convert_to_fd env zfd =
     (case zfd of
        ZResource r \<Rightarrow>
          (case stream_fd env r of
             Some cast \<Rightarrow> (case cast of None \<Rightarrow> Inr C_ERR
                | Some fd \<Rightarrow> if fd < 0 then Inr C_ERR else Inr fd)
           | None \<Rightarrow> (case socket_fd env r of Some fd \<Rightarrow> Inr fd | None \<Rightarrow> Inr C_ERR))
      | ZLong n \<Rightarrow> (let fd = to_cint n in if fd < 0 then Inr C_ERR else Inr fd)
      | ZObject ob \<Rightarrow>
          (if class_of env ob = ''PDO''
           then dbh_fd env (pdo_inner env ob)
           else if class_of env ob = ''PDOStatement''
           then dbh_fd env (stmt_dbh env ob)
           else Inl Uninitialised)
      | _ \<Rightarrow> Inr C_ERR)"

definition env_none :: php_env where
  "env_none = \<lparr>stream_fd = \<lambda>_. None, socket_fd = \<lambda>_. None, class_of = \<lambda>_. ''stdClass'',
     pdo_inner = id, stmt_dbh = id, driver_data_of = \<lambda>_. NoDriver, mysqlnd_fd = \<lambda>_. None\<rparr>"

section \<open>Lemmas\<close>

lemma to_cint_small: "- 2147483648 \<le> z \<Longrightarrow> z < 2147483648 \<Longrightarrow> to_cint z = z"
  by (simp add: to_cint_def signed_of_int signed_take_bit_int_eq_self)

lemma to_cint_range: "- 2147483648 \<le> to_cint z \<and> to_cint z < 2147483648"
  using sint_range_size [of "word_of_int z :: u32"] by (simp add: to_cint_def word_size)

lemma to_cint_period: "to_cint (z + 4294967296 * k) = to_cint z"
proof -
  have "(word_of_int (z + 4294967296 * k) :: u32) = word_of_int z"
    by (simp only: word_of_int_eq_iff take_bit_eq_mod) simp
  then show ?thesis by (simp add: to_cint_def)
qed

text \<open>The \<open>pdo_dbh_t\<close> a PDO or PDOStatement object names.\<close>

definition dbh_of :: "php_env \<Rightarrow> nat \<Rightarrow> nat option" where
  "dbh_of env ob = (if class_of env ob = ''PDO'' then Some (pdo_inner env ob)
     else if class_of env ob = ''PDOStatement'' then Some (stmt_dbh env ob) else None)"

section \<open>Properties\<close>

text \<open>C29: the conversion faults only for objects: the result was never set for an object of another class
  and for a connection that has no descriptor, a connection that was not made is dereferenced as
  \<open>NULL\<close>, and the data of another driver than \<open>pdo_mysql\<close> are cast to a handle they are not; a
  negative result other than \<open>C_ERR\<close> can only come from a socket resource or a connection, whose
  descriptors are not checked; and an integer is cut to its low 32 bits, so integers that differ by a
  multiple of \<open>2 ^ 32\<close> name the same descriptor.\<close>

theorem c_convert_to_fd_range:
  "(case c_convert_to_fd env z of
      Inl e \<Rightarrow> (\<exists>ob. z = ZObject ob \<and> (case dbh_of env ob of None \<Rightarrow> e = Uninitialised
         | Some dbh \<Rightarrow> driver_data_of env dbh = NoDriver \<and> e = NullDeref \<or> driver_data_of env dbh = OtherDriver \<and> e = BadCast
            \<or> (\<exists>h. driver_data_of env dbh = MysqlDriver h \<and> mysqlnd_fd env (server h) = None \<and> e = Uninitialised)))
    | Inr fd \<Rightarrow> fd = C_ERR \<or> 0 \<le> fd
        \<or> (\<exists>r. z = ZResource r \<and> stream_fd env r = None \<and> socket_fd env r = Some fd)
        \<or> (\<exists>ob dbh h. z = ZObject ob \<and> dbh_of env ob = Some dbh \<and> driver_data_of env dbh = MysqlDriver h \<and> mysqlnd_fd env (server h) = Some fd))
   \<and> c_convert_to_fd env (ZLong (n + 2 ^ 32 * k)) = c_convert_to_fd env (ZLong n)
   \<and> (0 \<le> n \<and> n < 2 ^ 31 \<longrightarrow> c_convert_to_fd env (ZLong n) = Inr n)"
  by (cases z) (auto simp: c_convert_to_fd_def dbh_fd_def dbh_of_def Let_def to_cint_period to_cint_small
      split: option.splits driver_data.splits)

theorem c_convert_to_fd_range_witness:
  "c_convert_to_fd env_none (ZLong (5 + 2 ^ 32 * 7)) = Inr 5"
  using c_convert_to_fd_range [where env = env_none and z = ZNull and n = 5 and k = 7] by simp

end
