(* ===== verification/Wrapper.thy ===== *)
theory Wrapper
  imports Zend
begin

text \<open>
  The compatibility layer \<open>php7_wrapper.h\<close>, in the branch for PHP 7: functions with the signatures
  of PHP 5 on top of the Zend API of PHP 7. The Zend functions they call are arguments of the
  definitions; what the API promises about its hash tables is \<open>zend_hash_laws\<close>. The address space of
  the C stack is a heap whose cells die when the function returns.
\<close>

section \<open>Keys\<close>

abbreviation (input) SUCCESS :: int where "SUCCESS \<equiv> 0"
abbreviation (input) FAILURE :: int where "FAILURE \<equiv> -1"

type_synonym u64 = "64 word"

text \<open>
  PHP 5 counts the final NUL of a key, PHP 7 does not: the wrappers pass \<open>len - 1\<close>. \<open>k\<close> is the
  buffer the key pointer points to, of which the Zend function reads that many bytes. An \<open>int\<close>
  length is decremented as an \<open>int\<close> and then converted to \<open>size_t\<close>.
\<close>

definition key_bytes :: "string \<Rightarrow> u64 \<Rightarrow> string res" where
  "key_bytes k n = (if unat n \<le> length k then Inr (take (unat n) k) else Inl OutOfBounds)"

definition assoc_key :: "string \<Rightarrow> u64 \<Rightarrow> string res" where
  "assoc_key k key_len = key_bytes k (key_len - 1)"

definition hash_key :: "string \<Rightarrow> int \<Rightarrow> string res" where
  "hash_key k len = (if len = -2147483648 then Inl SignedOverflow else key_bytes k (word_of_int (len - 1)))"

section \<open>Values\<close>

definition Z_BVAL_P :: "zval \<Rightarrow> int" where
  "Z_BVAL_P v = (case v of ZBool True \<Rightarrow> 1 | _ \<Rightarrow> 0)"

text \<open>\<open>add_assoc_stringl_ex\<close>, \<open>add_assoc_long_ex\<close> and \<open>add_assoc_double_ex\<close> are the arguments \<open>add\<close>.
  The parameter \<open>__duplicate\<close> of PHP 5 is ignored.\<close>

definition c_add_assoc_stringl_ex ::
    "(string \<Rightarrow> string \<Rightarrow> 'h \<Rightarrow> int \<times> 'h) \<Rightarrow> 'h \<Rightarrow> string \<Rightarrow> u64 \<Rightarrow> string \<Rightarrow> u64 \<Rightarrow> int \<Rightarrow> (int \<times> 'h) res" where
  "c_add_assoc_stringl_ex add arg key key_len str len duplicate =
     bind_res (assoc_key key key_len) (\<lambda>k. bind_res (key_bytes str len) (\<lambda>s. Inr (add k s arg)))"

definition c_add_assoc_long_ex :: "(string \<Rightarrow> int \<Rightarrow> 'h \<Rightarrow> int \<times> 'h) \<Rightarrow> 'h \<Rightarrow> string \<Rightarrow> u64 \<Rightarrow> int \<Rightarrow> (int \<times> 'h) res" where
  "c_add_assoc_long_ex add arg key key_len v = bind_res (assoc_key key key_len) (\<lambda>k. Inr (add k v arg))"

definition c_add_assoc_double_ex :: "(string \<Rightarrow> 'd \<Rightarrow> 'h \<Rightarrow> int \<times> 'h) \<Rightarrow> 'h \<Rightarrow> string \<Rightarrow> u64 \<Rightarrow> 'd \<Rightarrow> (int \<times> 'h) res" where
  "c_add_assoc_double_ex add arg key key_len v = bind_res (assoc_key key key_len) (\<lambda>k. Inr (add k v arg))"

text \<open>\<open>estrndup\<close> of the bytes of a \<open>zend_string\<close>, which is then released; \<open>*exten\<close> is an \<open>int\<close>.\<close>

definition c_php_format_date :: "(string \<Rightarrow> int \<Rightarrow> int \<Rightarrow> string) \<Rightarrow> string \<Rightarrow> u64 \<Rightarrow> int \<Rightarrow> int \<Rightarrow> string res" where
  "c_php_format_date date format format_len ts localtime =
     bind_res (key_bytes format format_len) (\<lambda>f. Inr (date f ts localtime))"

definition c_php_url_encode :: "(string \<Rightarrow> string) \<Rightarrow> string \<Rightarrow> u64 \<Rightarrow> (string \<times> int) res" where
  "c_php_url_encode encode v value_len =
     bind_res (key_bytes v value_len) (\<lambda>s. let str = encode s in Inr (str, to_cint (int (length str))))"

section \<open>Hash tables\<close>

text \<open>
  The functions on a Zend hash table of type \<open>'h\<close>: deletion returns a status, insertion and update
  whether they returned a pointer.
\<close>

record 'h zend_hash =
  str_del :: "string \<Rightarrow> 'h \<Rightarrow> int \<times> 'h"
  str_add :: "string \<Rightarrow> zval \<Rightarrow> 'h \<Rightarrow> bool \<times> 'h"
  str_update :: "string \<Rightarrow> zval \<Rightarrow> 'h \<Rightarrow> bool \<times> 'h"
  str_find :: "string \<Rightarrow> 'h \<Rightarrow> zval option"
  index_update :: "u64 \<Rightarrow> zval \<Rightarrow> 'h \<Rightarrow> bool \<times> 'h"

definition status_of :: "bool \<times> 'h \<Rightarrow> int \<times> 'h" where
  "status_of r = (if fst r then SUCCESS else FAILURE, snd r)"

definition c_zend_hash_del :: "'h zend_hash \<Rightarrow> 'h \<Rightarrow> string \<Rightarrow> int \<Rightarrow> (int \<times> 'h) res" where
  "c_zend_hash_del H ht k len = bind_res (hash_key k len) (\<lambda>s. Inr (str_del H s ht))"

text \<open>\<open>pData\<close> points to a pointer to the value: \<open>None\<close> when it is \<open>NULL\<close>.\<close>

definition c_zend_hash_add :: "'h zend_hash \<Rightarrow> 'h \<Rightarrow> string \<Rightarrow> int \<Rightarrow> zval option \<Rightarrow> (int \<times> 'h) res" where
  "c_zend_hash_add H ht k len pData =
     (case pData of None \<Rightarrow> Inl NullDeref
      | Some v \<Rightarrow> bind_res (hash_key k len) (\<lambda>s. Inr (status_of (str_add H s v ht))))"

definition c_zend_hash_index_update :: "'h zend_hash \<Rightarrow> 'h \<Rightarrow> int \<Rightarrow> zval option \<Rightarrow> (int \<times> 'h) res" where
  "c_zend_hash_index_update H ht key pData =
     (case pData of None \<Rightarrow> Inl NullDeref
      | Some v \<Rightarrow> Inr (status_of (index_update H (word_of_int key) v ht)))"

definition c_zend_hash_update :: "'h zend_hash \<Rightarrow> 'h \<Rightarrow> string \<Rightarrow> int \<Rightarrow> zval \<Rightarrow> (int \<times> 'h) res" where
  "c_zend_hash_update H ht k len val = bind_res (hash_key k len) (\<lambda>s. Inr (status_of (str_update H s val ht)))"

text \<open>\<open>*v\<close> before and after the call: it is left as it was when the key is not found.\<close>

definition c_zend_hash_find :: "'h zend_hash \<Rightarrow> 'h \<Rightarrow> string \<Rightarrow> int \<Rightarrow> zval option \<Rightarrow> (int \<times> zval option) res" where
  "c_zend_hash_find H ht k len v = bind_res (hash_key k len) (\<lambda>s.
     Inr (case str_find H s ht of None \<Rightarrow> (FAILURE, v) | Some val \<Rightarrow> (SUCCESS, Some val)))"

definition c_zend_hash_exists :: "'h zend_hash \<Rightarrow> 'h \<Rightarrow> string \<Rightarrow> int \<Rightarrow> int res" where
  "c_zend_hash_exists H ht k len = bind_res (hash_key k len) (\<lambda>s.
     Inr (case str_find H s ht of None \<Rightarrow> FAILURE | Some val \<Rightarrow> SUCCESS))"

text \<open>The branch for PHP 5, where \<open>zend_hash_find\<close>, the argument, counts the NUL itself.\<close>

definition c_zend_hash_find_php5 :: "(string \<Rightarrow> int \<Rightarrow> 'h \<Rightarrow> zval option) \<Rightarrow> 'h \<Rightarrow> string \<Rightarrow> int \<Rightarrow> int \<times> zval option" where
  "c_zend_hash_find_php5 zfind ht k len =
     (case zfind k len ht of Some val \<Rightarrow> (SUCCESS, Some val) | None \<Rightarrow> (FAILURE, None))"

text \<open>What the Zend API promises of its hash tables, and the tables themselves as maps.\<close>

definition zend_hash_laws :: "'h zend_hash \<Rightarrow> bool" where
  "zend_hash_laws H \<longleftrightarrow>
     (\<forall>k v h. fst (str_update H k v h) \<and> (\<forall>k'. str_find H k' (snd (str_update H k v h)) = (if k' = k then Some v else str_find H k' h)))
   \<and> (\<forall>k v h. fst (str_add H k v h) = (str_find H k h = None)
        \<and> (\<forall>k'. str_find H k' (snd (str_add H k v h)) = (if k' = k \<and> str_find H k h = None then Some v else str_find H k' h)))
   \<and> (\<forall>k h. fst (str_del H k h) = (if str_find H k h = None then FAILURE else SUCCESS)
        \<and> (\<forall>k'. str_find H k' (snd (str_del H k h)) = (if k' = k then None else str_find H k' h)))"

definition map_hash :: "(string \<Rightarrow> zval option) zend_hash" where
  "map_hash = \<lparr>str_del = (\<lambda>k h. (if h k = None then FAILURE else SUCCESS, h(k := None))),
     str_add = (\<lambda>k v h. if h k = None then (True, h(k := Some v)) else (False, h)),
     str_update = (\<lambda>k v h. (True, h(k := Some v))), str_find = (\<lambda>k h. h k), index_update = (\<lambda>i v h. (True, h))\<rparr>"

section \<open>Calls\<close>

definition C_PHP_MAX_PARAMS_NUM :: nat where "C_PHP_MAX_PARAMS_NUM = 20"

text \<open>The loop that copies \<open>**params[i]\<close> into the array \<open>real_params\<close> on the stack.\<close>

function copy_params :: "nat \<Rightarrow> nat \<Rightarrow> zval list \<Rightarrow> zval list \<Rightarrow> zval list res" where
  "copy_params i n params real =
     (if i < n
      then if length params \<le> i \<or> length real \<le> i then Inl OutOfBounds
           else copy_params (Suc i) n params (real[i := params ! i])
      else Inr real)"
  by pat_completeness auto
termination by (relation "measure (\<lambda>(i, n, params, real). n - i)") auto

declare copy_params.simps [simp del]

text \<open>
  \<open>call_user_function_ex\<close> and \<open>zend_call_function\<close> are the arguments \<open>call\<close>: they get the number of
  parameters and the array and return a status, the value they store in \<open>phpng_retval\<close> and the
  state of the engine. \<open>stk\<close> holds the variables of the stack: \<open>*retval_ptr_ptr\<close> is the address of
  \<open>phpng_retval\<close>, which is gone when the wrapper returns. The symbol table is not passed on.
\<close>

definition c_call_user_function_ex ::
    "(zval option \<Rightarrow> zval \<Rightarrow> nat \<Rightarrow> zval list \<Rightarrow> int \<Rightarrow> 'z \<Rightarrow> int \<times> zval \<times> 'z) \<Rightarrow> zval option \<Rightarrow> zval \<Rightarrow> u32 \<Rightarrow> zval list \<Rightarrow> int
      \<Rightarrow> zval heap \<Rightarrow> 'z \<Rightarrow> (int \<times> ptr \<times> zval heap \<times> 'z) res" where
  "c_call_user_function_ex call object_pp function_name param_count params no_separation stk z =
     bind_res (copy_params 0 (unat param_count) params (replicate C_PHP_MAX_PARAMS_NUM ZUndef)) (\<lambda>real_params.
       let (phpng_retval, stk1) = emalloc ZUndef stk;
           (ret, v, z1) = call object_pp function_name (unat param_count) real_params no_separation z
       in bind_res (modify (Some phpng_retval) (\<lambda>_. v) stk1) (\<lambda>stk2.
          bind_res (free_cell (Some phpng_retval) stk2) (\<lambda>stk3. Inr (ret, Some phpng_retval, stk3, z1))))"

record fcall_info =
  fci_function_name :: zval
  fci_object :: "zval option"
  fci_param_count :: nat
  fci_params :: "zval list"
  fci_no_separation :: int

definition c_call_user_function_fast ::
    "(fcall_info \<Rightarrow> nat \<Rightarrow> 'z \<Rightarrow> int \<times> zval \<times> 'z) \<Rightarrow> zval \<Rightarrow> nat \<Rightarrow> u32 \<Rightarrow> zval list \<Rightarrow> zval heap \<Rightarrow> 'z
      \<Rightarrow> (int \<times> ptr \<times> zval heap \<times> 'z) res" where
  "c_call_user_function_fast call function_name fci_cache param_count params stk z =
     bind_res (copy_params 0 (unat param_count) params (replicate C_PHP_MAX_PARAMS_NUM ZUndef)) (\<lambda>real_params.
       let (phpng_retval, stk1) = emalloc ZUndef stk;
           (ret, v, z1) = call \<lparr>fci_function_name = function_name, fci_object = None, fci_param_count = unat param_count,
              fci_params = real_params, fci_no_separation = 0\<rparr> fci_cache z
       in bind_res (modify (Some phpng_retval) (\<lambda>_. v) stk1) (\<lambda>stk2.
          bind_res (free_cell (Some phpng_retval) stk2) (\<lambda>stk3. Inr (ret, Some phpng_retval, stk3, z1))))"

text \<open>
  \<open>zend_read_property\<close>, the argument, returns a pointer to the property (\<open>Inl\<close>) or, for a property
  with a getter, stores the value in \<open>rv\<close> and returns its address (\<open>Inr\<close>).
\<close>

datatype property_ptr = PropertySlot addr | StackVar addr

definition c_zend_read_property ::
    "(zval \<Rightarrow> string \<Rightarrow> int \<Rightarrow> 'z \<Rightarrow> (addr + zval) \<times> 'z) \<Rightarrow> zval \<Rightarrow> string \<Rightarrow> int \<Rightarrow> int \<Rightarrow> zval heap \<Rightarrow> 'z
      \<Rightarrow> (property_ptr \<times> zval heap \<times> 'z) res" where
  "c_zend_read_property read obj s len silent stk z =
     bind_res (key_bytes s (word_of_int len)) (\<lambda>name.
       let (rv, stk1) = emalloc ZUndef stk; (r, z1) = read obj name silent z
       in case r of
            Inl slot \<Rightarrow> bind_res (free_cell (Some rv) stk1) (\<lambda>stk2. Inr (PropertySlot slot, stk2, z1))
          | Inr v \<Rightarrow> bind_res (modify (Some rv) (\<lambda>_. v) stk1) (\<lambda>stk2.
              bind_res (free_cell (Some rv) stk2) (\<lambda>stk3. Inr (StackVar rv, stk3, z1))))"

text \<open>
  The callable checks, \<open>check\<close>, store the name in \<open>key\<close>, which starts as \<open>NULL\<close> (\<open>None\<close>). The second
  one passes \<open>NULL\<close> for the object it is given and never sets \<open>callable_name_len\<close>.
\<close>

definition c_zend_is_callable :: "(zval \<Rightarrow> int \<Rightarrow> int \<times> string option) \<Rightarrow> zval \<Rightarrow> int \<Rightarrow> (int \<times> string) res" where
  "c_zend_is_callable check cb a =
     (case check cb a of (ret, None) \<Rightarrow> Inl NullDeref | (ret, Some key) \<Rightarrow> Inr (ret, key))"

definition c_zend_is_callable_ex ::
    "(zval \<Rightarrow> zval option \<Rightarrow> u32 \<Rightarrow> int \<times> string option \<times> nat) \<Rightarrow> zval \<Rightarrow> zval option \<Rightarrow> u32 \<Rightarrow> (int \<times> string \<times> nat) res" where
  "c_zend_is_callable_ex check cb ob check_flags =
     (case check cb None check_flags of (ret, None, fcc) \<Rightarrow> Inl NullDeref | (ret, Some key, fcc) \<Rightarrow> Inr (ret, key, fcc))"

section \<open>Lemmas\<close>

text \<open>A key with its NUL counted, as the callers of the PHP 5 API write \<open>"key", sizeof("key")\<close>.\<close>

lemma hash_key_sizeof:
  assumes "length k < 2147483647"
  shows "hash_key (k @ [CHR 0x00]) (int (length k) + 1) = Inr k"
proof -
  have "unat (word_of_int (int (length k)) :: u64) = length k"
    using assms by (simp add: unsigned_of_nat take_bit_nat_eq_self)
  then show ?thesis by (simp add: hash_key_def key_bytes_def)
qed

lemma hash_key_zero:
  assumes "length k < 2 ^ 64 - 1"
  shows "hash_key k 0 = Inl OutOfBounds"
proof -
  have "unat (- 1 :: u64) = 2 ^ 64 - 1" by (simp add: unsigned_minus_1_eq_mask mask_eq_exp_minus_1)
  with assms show ?thesis by (simp add: hash_key_def key_bytes_def)
qed

lemma copy_params_from:
  assumes "i \<le> n" and "length real = 20"
  shows "copy_params i n params real =
    (if i = n \<or> n \<le> length params \<and> n \<le> 20 then Inr (take i real @ drop i (take n params) @ drop n real) else Inl OutOfBounds)"
  using assms
proof (induction "n - i" arbitrary: i real)
  case 0
  then show ?case by (subst copy_params.simps) simp
next
  case (Suc d)
  then have less: "i < n" by simp
  show ?case
  proof (cases "length params \<le> i \<or> 20 \<le> i")
    case True
    then show ?thesis using less Suc.prems by (subst copy_params.simps) auto
  next
    case False
    let ?r = "real[i := params ! i]"
    have IH: "copy_params (Suc i) n params ?r = (if Suc i = n \<or> n \<le> length params \<and> n \<le> 20
        then Inr (take (Suc i) ?r @ drop (Suc i) (take n params) @ drop n ?r) else Inl OutOfBounds)"
      by (rule Suc.hyps(1)) (use Suc less in auto)
    have "take (Suc i) ?r = take i real @ [params ! i]"
      using False Suc.prems by (simp add: take_Suc_conv_app_nth)
    moreover have "drop i (take n params) = params ! i # drop (Suc i) (take n params)"
      using False less by (simp add: Cons_nth_drop_Suc [symmetric])
    moreover have "drop n ?r = drop n real" using less by simp
    moreover have "copy_params i n params real = copy_params (Suc i) n params ?r"
      using less False Suc.prems by (subst copy_params.simps) simp
    ultimately show ?thesis using IH less False by auto
  qed
qed

lemma copy_params_all:
  "copy_params 0 n params (replicate C_PHP_MAX_PARAMS_NUM ZUndef) =
    (if n \<le> length params \<and> n \<le> 20 then Inr (take n params @ replicate (20 - n) ZUndef) else Inl OutOfBounds)"
  using copy_params_from [of 0 n "replicate 20 ZUndef" params] by (auto simp: C_PHP_MAX_PARAMS_NUM_def)

lemma map_hash_laws: "zend_hash_laws map_hash"
  by (simp add: zend_hash_laws_def map_hash_def)

section \<open>Properties\<close>

text \<open>On hash tables that behave as the Zend API documents, and with keys given the PHP 5 way, the
  final NUL counted, the wrappers are a map: what was updated is found, every other key is found as
  before, and after a deletion the key is not found and the out parameter keeps its old value.\<close>

lemma zend_hash_roundtrip:
  assumes "zend_hash_laws H" and "length k < 2147483647" and "length k' < 2147483647"
  shows "\<exists>h1 h2. c_zend_hash_update H h (k @ [CHR 0x00]) (int (length k) + 1) v = Inr (SUCCESS, h1)
    \<and> c_zend_hash_find H h1 (k' @ [CHR 0x00]) (int (length k') + 1) d =
        (if k' = k then Inr (SUCCESS, Some v) else c_zend_hash_find H h (k' @ [CHR 0x00]) (int (length k') + 1) d)
    \<and> c_zend_hash_del H h1 (k @ [CHR 0x00]) (int (length k) + 1) = Inr (SUCCESS, h2)
    \<and> c_zend_hash_find H h2 (k @ [CHR 0x00]) (int (length k) + 1) d = Inr (FAILURE, d)"
proof -
  note keys = hash_key_sizeof [OF assms(2)] hash_key_sizeof [OF assms(3)]
  let ?h1 = "snd (str_update H k v h)"
  have up: "fst (str_update H k v h)" "\<And>k'. str_find H k' ?h1 = (if k' = k then Some v else str_find H k' h)"
    and del: "fst (str_del H k ?h1) = (if str_find H k ?h1 = None then FAILURE else SUCCESS)"
      "str_find H k (snd (str_del H k ?h1)) = None"
    using assms(1) by (simp_all add: zend_hash_laws_def)
  show ?thesis
    by (rule exI [of _ ?h1], rule exI [of _ "snd (str_del H k ?h1)"])
      (use up del in \<open>simp add: c_zend_hash_update_def c_zend_hash_find_def c_zend_hash_del_def keys status_of_def prod_eq_iff\<close>)
qed

text \<open>C30: where the two versions of \<open>c_zend_hash_find\<close> look at the same table they give the same status,
  but on a failure the one for PHP 7 leaves in the out parameter what was there; and the status of
  \<open>c_zend_hash_exists\<close>, which is a truth value in PHP 5, is true exactly when the key is not there. A
  length of zero, which counts no NUL, makes the version for PHP 7 read outside the key.\<close>

theorem zend_hash_find_versions:
  assumes "length k < 2147483647" and "find5 (k @ [CHR 0x00]) (int (length k) + 1) h = str_find H k h"
  shows "c_zend_hash_find H h (k @ [CHR 0x00]) (int (length k) + 1) d =
      (case c_zend_hash_find_php5 find5 h (k @ [CHR 0x00]) (int (length k) + 1) of
         (status, v) \<Rightarrow> Inr (status, if status = FAILURE then d else v))
    \<and> (\<exists>e. c_zend_hash_exists H h (k @ [CHR 0x00]) (int (length k) + 1) = Inr e \<and> (e \<noteq> 0 \<longleftrightarrow> str_find H k h = None))
    \<and> c_zend_hash_find H h (k @ [CHR 0x00]) 0 d = Inl OutOfBounds"
  using assms hash_key_sizeof [OF assms(1)] hash_key_zero [of "k @ [CHR 0x00]"]
  by (simp add: c_zend_hash_find_def c_zend_hash_find_php5_def c_zend_hash_exists_def split: option.splits)

theorem zend_hash_find_versions_witness:
  "c_zend_hash_find map_hash Map.empty (''a'' @ [CHR 0x00]) 2 (Some ZNull) = Inr (FAILURE, Some ZNull)
   \<and> c_zend_hash_exists map_hash Map.empty (''a'' @ [CHR 0x00]) 2 = Inr FAILURE"
  using zend_hash_find_versions [of "''a''" "\<lambda>k len h. None" "Map.empty" map_hash "Some ZNull"] hash_key_sizeof [of "''a''"]
  by (simp add: map_hash_def c_zend_hash_find_php5_def c_zend_hash_exists_def)

text \<open>\<open>c_call_user_function_ex\<close> and \<open>c_call_user_function_fast\<close> pass exactly the given parameters when
  there are at most 20 of them and write past their array otherwise; the pointer they hand out for the
  return value is that of a variable of their own, gone when they return. The second one never passes
  an object.\<close>

lemma call_wrapper_params:
  "c_call_user_function_ex call ob f n params ns stk z =
    (if unat n \<le> length params \<and> unat n \<le> 20
     then (case call ob f (unat n) (take (unat n) params @ replicate (20 - unat n) ZUndef) ns z of
        (ret, v, z1) \<Rightarrow> Inr (ret, Some (fresh stk), stk\<lparr>cells := (cells stk)(fresh stk := None), fresh := Suc (fresh stk)\<rparr>, z1))
     else Inl OutOfBounds)
   \<and> c_call_user_function_fast fcall f cache n params stk z =
    (if unat n \<le> length params \<and> unat n \<le> 20
     then (case fcall \<lparr>fci_function_name = f, fci_object = None, fci_param_count = unat n,
          fci_params = take (unat n) params @ replicate (20 - unat n) ZUndef, fci_no_separation = 0\<rparr> cache z of
        (ret, v, z1) \<Rightarrow> Inr (ret, Some (fresh stk), stk\<lparr>cells := (cells stk)(fresh stk := None), fresh := Suc (fresh stk)\<rparr>, z1))
     else Inl OutOfBounds)
   \<and> load (Some (fresh stk)) (stk\<lparr>cells := (cells stk)(fresh stk := None), fresh := Suc (fresh stk)\<rparr>) = Inl UseAfterFree"
  by (simp add: c_call_user_function_ex_def c_call_user_function_fast_def copy_params_all emalloc_def Let_def split: prod.splits)

end
