(* ===== verification/Events.thy ===== *)
theory Events
  imports Link Timer Zend
begin

text \<open>
  The event registry of \<open>coroutine_event.c\<close> (\<open>react_global RG\<close>): one \<open>aio_event\<close> per file
  descriptor, linked to the interest list of the kernel's epoll instance. The interface
  \<open>event_registry\<close> says which coroutine a descriptor will wake; it is interpreted here on
  \<open>aio_event_store\<close> and \<open>aio_event_free\<close>.
\<close>

section \<open>The kernel side\<close>

text \<open>
  \<open>epoll_inst\<close>: the epoll instance, once created; \<open>can_poll fd\<close>: \<open>fd\<close> is open and of a kind
  epoll accepts; \<open>interest\<close>: the interest list; \<open>fl_flags\<close>: the status flags of open
  descriptors.
\<close>

record kernel =
  epoll_inst :: "int option"
  can_poll :: "int \<Rightarrow> bool"
  interest :: "int \<Rightarrow> u32 option"
  fl_flags :: "int \<Rightarrow> int option"

definition epoll_ctl_add :: "int \<Rightarrow> int \<Rightarrow> u32 \<Rightarrow> kernel \<Rightarrow> int \<times> kernel" where
  "epoll_ctl_add epfd fd events k =
     (if epoll_inst k \<noteq> Some epfd \<or> \<not> can_poll k fd \<or> interest k fd \<noteq> None then (-1, k)
      else (0, k\<lparr>interest := (interest k)(fd := Some events)\<rparr>))"

definition epoll_ctl_del :: "int \<Rightarrow> int \<Rightarrow> kernel \<Rightarrow> int \<times> kernel" where
  "epoll_ctl_del epfd fd k =
     (if epoll_inst k \<noteq> Some epfd \<or> interest k fd = None then (-1, k)
      else (0, k\<lparr>interest := (interest k)(fd := None)\<rparr>))"

text \<open>Closing a descriptor also takes it off the interest list.\<close>

definition close_fd :: "int \<Rightarrow> kernel \<Rightarrow> kernel" where
  "close_fd fd k = k\<lparr>can_poll := (can_poll k)(fd := False), interest := (interest k)(fd := None),
     fl_flags := (fl_flags k)(fd := None)\<rparr>"

section \<open>Data\<close>

abbreviation (input) FD_TYPE_ACCEPT :: int where "FD_TYPE_ACCEPT \<equiv> 1"
abbreviation (input) FD_TYPE_TIMMER :: int where "FD_TYPE_TIMMER \<equiv> 2"
abbreviation (input) FD_TYPE_NORMAL :: int where "FD_TYPE_NORMAL \<equiv> 3"

abbreviation (input) EPOLLIN :: u32 where "EPOLLIN \<equiv> 1"
abbreviation (input) EPOLLOUT :: u32 where "EPOLLOUT \<equiv> 4"
abbreviation (input) EPOLLRDHUP :: u32 where "EPOLLRDHUP \<equiv> 0x2000"

record epoll_event =
  ep_events :: u32
  ep_data_fd :: int

record aio_event =
  ev_fd :: int
  php_context :: ptr
  ep_event :: ptr
  fd_type :: int
  timer :: ptr
  object :: "zval option"
  object_name :: "string option"
  arguments :: ptr
  args_count :: int
  function_name :: "string option"
  callback :: ptr

record aio_timeout_element =
  te_fd :: int
  te_timeout :: int
  te_last_time :: int
  te_persistent :: bool

text \<open>
  \<open>react_global\<close>, with the heaps its pointers point into: the events, their epoll structures,
  timer specifications, argument arrays and timeout elements. The array of 102400 slots is a
  function whose accesses check the bound. \<open>timeout_fd_link\<close> is the queue of \<open>Link\<close>, whose
  elements are addresses of timeout elements.
\<close>

record react =
  rg_init :: int
  epollfd :: int
  aio_event_fds :: "int \<Rightarrow> ptr"
  nfds :: int
  timeout_fd_link :: "nat queue"
  evs :: "aio_event heap"
  eps :: "epoll_event heap"
  timers :: "itimerspec heap"
  argvs :: "zval list heap"
  elems :: "aio_timeout_element heap"
  kern :: kernel

definition fd_in_range :: "int \<Rightarrow> bool" where
  "fd_in_range fd \<longleftrightarrow> 0 \<le> fd \<and> fd < 102400"

section \<open>Operations\<close>

text \<open>\<open>RG.aio_event_fds[fd]\<close>: the code never checks the index.\<close>

definition event_slot :: "int \<Rightarrow> react \<Rightarrow> ptr res" where
  "event_slot fd rg = (if fd_in_range fd then Inr (aio_event_fds rg fd) else Inl OutOfBounds)"

definition zero_event :: aio_event where
  "zero_event = \<lparr>ev_fd = 0, php_context = None, ep_event = None, fd_type = 0, timer = None,
     object = None, object_name = None, arguments = None, args_count = 0, function_name = None,
     callback = None\<rparr>"

text \<open>
  The first part of \<open>_aio_event_store\<close>: the event of the slot and its epoll structure, both
  created when the slot is empty. The results of \<open>malloc\<close> are not checked: \<open>memset\<close> faults.
\<close>

definition slot_event :: "int \<Rightarrow> react \<Rightarrow> (ptr \<times> ptr \<times> react) res" where
  "slot_event fd rg =
     bind_res (event_slot fd rg) (\<lambda>ev.
     case ev of
       None \<Rightarrow>
         (let (e, h) = malloc zero_event (evs rg);
              (st, g) = malloc \<lparr>ep_events = 0, ep_data_fd = 0\<rparr> (eps rg) in
          bind_res (modify e (\<lambda>v. v\<lparr>ep_event := st, ev_fd := fd\<rparr>) h) (\<lambda>h1.
          bind_res (modify st (\<lambda>v. v\<lparr>ep_data_fd := fd\<rparr>) g) (\<lambda>g1.
            Inr (e, st, rg\<lparr>evs := h1, eps := g1, aio_event_fds := (aio_event_fds rg)(fd := e)\<rparr>))))
     | Some a \<Rightarrow> bind_res (load ev (evs rg)) (\<lambda>v. Inr (ev, ep_event v, rg)))"

text \<open>
  \<open>_aio_event_store\<close>. The descriptor is added to the epoll instance unless its event mask says
  it is there already; the waiting context and the rest are recorded only when no context waits.
\<close>

definition aio_event_store :: "int \<Rightarrow> int \<Rightarrow> ptr \<Rightarrow> ptr \<Rightarrow> u32 \<Rightarrow> ptr \<Rightarrow> zval option \<Rightarrow> string option
    \<Rightarrow> string option \<Rightarrow> ptr \<Rightarrow> int \<Rightarrow> react \<Rightarrow> (int \<times> react) res" where
  "aio_event_store fd fdtype context cb events tm ob obname fname argv argc rg =
     bind_res (slot_event fd rg) (\<lambda>(ev, st, rg1).
     bind_res (load st (eps rg1)) (\<lambda>e.
     bind_res
       (if ep_events e = 0 then
          bind_res (modify st (\<lambda>e. e\<lparr>ep_events := events\<rparr>) (eps rg1)) (\<lambda>g.
          (let (r, k) = epoll_ctl_add (epollfd rg1) fd events (kern rg1);
               rg2 = rg1\<lparr>eps := g, kern := k\<rparr> in
           if r = -1 then
             bind_res (free_cell ev (evs rg2)) (\<lambda>h.
             bind_res (free_cell st (eps rg2)) (\<lambda>g1.
               Inr (False, rg2\<lparr>evs := h, eps := g1, aio_event_fds := (aio_event_fds rg2)(fd := None)\<rparr>)))
           else Inr (True, rg2)))
        else Inr (True, rg1))
     (\<lambda>(ok, rg3).
       if \<not> ok then Inr (C_ERR, rg3)
       else
         bind_res (load ev (evs rg3)) (\<lambda>v.
         if php_context v = None then
           bind_res (modify ev (\<lambda>v. v\<lparr>php_context := context, callback := cb, object := ob,
               object_name := obname, function_name := fname, arguments := argv,
               args_count := argc, timer := tm, fd_type := fdtype\<rparr>) (evs rg3))
             (\<lambda>h. Inr (C_OK, rg3\<lparr>evs := h\<rparr>))
         else Inr (C_OK, rg3)))))"

definition delete_event :: "ptr \<Rightarrow> react \<Rightarrow> (int \<times> react) res" where
  "delete_event ev rg =
     bind_res (load ev (evs rg)) (\<lambda>v.
       let (r, k) = epoll_ctl_del (epollfd rg) (ev_fd v) (kern rg)
       in if r = -1 then Inr (C_ERR, rg\<lparr>kern := k\<rparr>) else Inr (C_OK, rg\<lparr>kern := k\<rparr>))"

text \<open>Taking the descriptor off the epoll instance and clearing its event mask.\<close>

definition disarm :: "ptr \<Rightarrow> react \<Rightarrow> react res" where
  "disarm ev rg =
     bind_res (load ev (evs rg)) (\<lambda>v.
     let (r, k) = epoll_ctl_del (epollfd rg) (ev_fd v) (kern rg) in
     bind_res (modify (ep_event v) (\<lambda>e. e\<lparr>ep_events := 0\<rparr>) (eps rg)) (\<lambda>g.
       Inr (rg\<lparr>kern := k, eps := g\<rparr>)))"

text \<open>In the timer branch the descriptor is closed between the two steps of \<open>disarm\<close>.\<close>

definition disarm_timer :: "ptr \<Rightarrow> react \<Rightarrow> react res" where
  "disarm_timer ev rg =
     bind_res (load ev (evs rg)) (\<lambda>v.
     let (r, k) = epoll_ctl_del (epollfd rg) (ev_fd v) (kern rg);
         k1 = close_fd (ev_fd v) k in
     bind_res (modify (ep_event v) (\<lambda>e. e\<lparr>ep_events := 0\<rparr>) (eps rg)) (\<lambda>g.
     bind_res (free_cell (timer v) (timers rg)) (\<lambda>t.
     bind_res (modify ev (\<lambda>v. v\<lparr>timer := None\<rparr>) (evs rg)) (\<lambda>h.
       Inr (rg\<lparr>kern := k1, eps := g, timers := t, evs := h\<rparr>)))))"

definition aio_event_free :: "ptr \<Rightarrow> react \<Rightarrow> (int \<times> react) res" where
  "aio_event_free ev rg =
     (if ev = None then Inr (C_OK, rg)
      else
        bind_res (modify ev (\<lambda>v. v\<lparr>php_context := None, callback := None, args_count := 0\<rparr>) (evs rg)) (\<lambda>h.
        bind_res (load ev h) (\<lambda>v.
        bind_res (free_cell (arguments v) (argvs rg)) (\<lambda>ar.
        bind_res (modify ev (\<lambda>v. v\<lparr>arguments := None\<rparr>) h) (\<lambda>h1.
        let rg1 = rg\<lparr>evs := h1, argvs := ar\<rparr> in
        bind_res
          (if fd_type v = FD_TYPE_ACCEPT then disarm ev rg1
           else if fd_type v = FD_TYPE_TIMMER then disarm_timer ev rg1
           else if fd_type v = FD_TYPE_NORMAL then disarm ev rg1
           else Inr rg1) (\<lambda>rg2.
        bind_res (modify ev (\<lambda>v. v\<lparr>fd_type := 0\<rparr>) (evs rg2)) (\<lambda>h2.
          Inr (C_OK, rg2\<lparr>evs := h2\<rparr>))))))))"

text \<open>\<open>fcntl\<close> with \<open>F_GETFL\<close> fails on a descriptor that is not open; \<open>setfl\<close> says whether the call with
  \<open>F_SETFL\<close> succeeds.\<close>

definition socket_setnonblock :: "bool \<Rightarrow> int \<Rightarrow> kernel \<Rightarrow> int \<times> kernel" where
  "socket_setnonblock setfl fd k =
     (case fl_flags k fd of
        None \<Rightarrow> (C_ERR, k)
      | Some flags \<Rightarrow>
          let flags = flags OR 2048 in
          if \<not> setfl then (C_ERR, k) else (C_OK, k\<lparr>fl_flags := (fl_flags k)(fd := Some flags)\<rparr>))"

section \<open>Abstraction and invariant\<close>

text \<open>
  The event of a descriptor with its epoll structure, and the context it will wake. A slot is
  idle when its event has no context, is not on the interest list and has mask 0, and armed when
  a context waits, with a mask and a type.
\<close>

definition event_of :: "react \<Rightarrow> int \<Rightarrow> (aio_event \<times> epoll_event) option" where
  "event_of rg fd =
     (case aio_event_fds rg fd of None \<Rightarrow> None
      | Some a \<Rightarrow> (case cells (evs rg) a of None \<Rightarrow> None
         | Some v \<Rightarrow> (case ep_event v of None \<Rightarrow> None
            | Some s \<Rightarrow> map_option (\<lambda>e. (v, e)) (cells (eps rg) s))))"

definition waiting :: "react \<Rightarrow> int \<Rightarrow> ptr" where
  "waiting rg fd = (case event_of rg fd of None \<Rightarrow> None | Some (v, e) \<Rightarrow> php_context v)"

definition idle_event :: "aio_event \<Rightarrow> epoll_event \<Rightarrow> bool" where
  "idle_event v e \<longleftrightarrow> php_context v = None \<and> arguments v = None \<and> timer v = None
     \<and> fd_type v = 0 \<and> ep_events e = 0"

definition armed_event :: "aio_event \<Rightarrow> epoll_event \<Rightarrow> bool" where
  "armed_event v e \<longleftrightarrow> php_context v \<noteq> None \<and> ep_events e \<noteq> 0
     \<and> (fd_type v = FD_TYPE_ACCEPT \<or> fd_type v = FD_TYPE_TIMMER \<or> fd_type v = FD_TYPE_NORMAL)
     \<and> (timer v \<noteq> None \<longrightarrow> fd_type v = FD_TYPE_TIMMER)"

text \<open>One slot of the array: empty and not polled, or an event of this descriptor, idle and not
  polled, or armed and polled for its own mask (or closed under it by someone else).\<close>

definition slot_ok :: "react \<Rightarrow> int \<Rightarrow> bool" where
  "slot_ok rg fd \<longleftrightarrow>
     (case aio_event_fds rg fd of
        None \<Rightarrow> interest (kern rg) fd = None
      | Some a \<Rightarrow> (case event_of rg fd of None \<Rightarrow> False
         | Some (v, e) \<Rightarrow> ev_fd v = fd \<and> ep_data_fd e = fd
             \<and> (idle_event v e \<and> interest (kern rg) fd = None
                \<or> armed_event v e
                  \<and> (interest (kern rg) fd = None \<or> interest (kern rg) fd = Some (ep_events e)))))"

text \<open>The argument array and the timer specification of an event are its own.\<close>

definition owns :: "react \<Rightarrow> int \<Rightarrow> bool" where
  "owns rg fd \<longleftrightarrow> (case event_of rg fd of None \<Rightarrow> True
     | Some (v, e) \<Rightarrow>
        (case arguments v of None \<Rightarrow> True | Some p \<Rightarrow> cells (argvs rg) p \<noteq> None)
      \<and> (case timer v of None \<Rightarrow> True | Some p \<Rightarrow> cells (timers rg) p \<noteq> None))"

definition shares :: "react \<Rightarrow> int \<Rightarrow> int \<Rightarrow> bool" where
  "shares rg fd fd' \<longleftrightarrow> (case (event_of rg fd, event_of rg fd') of
     (Some (v, e), Some (w, f)) \<Rightarrow>
        arguments v \<noteq> None \<and> arguments v = arguments w \<or> timer v \<noteq> None \<and> timer v = timer w
   | _ \<Rightarrow> False)"

definition reg_inv :: "react \<Rightarrow> bool" where
  "reg_inv rg \<longleftrightarrow> wf_heap (evs rg) \<and> wf_heap (eps rg) \<and> epoll_inst (kern rg) = Some (epollfd rg)
     \<and> (\<forall>fd. fd_in_range fd \<longrightarrow> slot_ok rg fd \<and> owns rg fd)
     \<and> (\<forall>fd fd'. fd_in_range fd \<longrightarrow> fd_in_range fd' \<longrightarrow> fd \<noteq> fd' \<longrightarrow> \<not> shares rg fd fd')"

text \<open>Memory for a new event, and an argument array and timer no event holds yet.\<close>

definition reg_room :: "react \<Rightarrow> bool" where
  "reg_room rg \<longleftrightarrow> \<not> oom (evs rg) (fresh (evs rg)) \<and> \<not> oom (eps rg) (fresh (eps rg))"

definition slot_room :: "react \<Rightarrow> int \<Rightarrow> bool" where
  "slot_room rg fd \<longleftrightarrow> (aio_event_fds rg fd = None \<longrightarrow> reg_room rg)"

definition unowned :: "react \<Rightarrow> ptr \<Rightarrow> ptr \<Rightarrow> bool" where
  "unowned rg argv tm \<longleftrightarrow>
     (case argv of None \<Rightarrow> True | Some p \<Rightarrow> cells (argvs rg) p \<noteq> None)
   \<and> (case tm of None \<Rightarrow> True | Some p \<Rightarrow> cells (timers rg) p \<noteq> None)
   \<and> (\<forall>fd. fd_in_range fd \<longrightarrow> (case event_of rg fd of None \<Rightarrow> True
        | Some (v, e) \<Rightarrow> (argv \<noteq> None \<longrightarrow> arguments v \<noteq> argv) \<and> (tm \<noteq> None \<longrightarrow> timer v \<noteq> tm)))"

section \<open>Lemmas\<close>

lemma event_of_Some [simp]:
  "aio_event_fds rg fd = Some a \<Longrightarrow> cells (evs rg) a = Some v \<Longrightarrow> ep_event v = Some s \<Longrightarrow>
   cells (eps rg) s = Some e \<Longrightarrow> event_of rg fd = Some (v, e)"
  by (simp add: event_of_def)

lemma event_of_None [simp]: "aio_event_fds rg fd = None \<Longrightarrow> event_of rg fd = None"
  by (simp add: event_of_def)

lemma event_of_SomeE:
  assumes "event_of rg fd = Some (v, e)"
  obtains a s where "aio_event_fds rg fd = Some a" and "cells (evs rg) a = Some v"
    and "ep_event v = Some s" and "cells (eps rg) s = Some e"
  using assms by (auto simp: event_of_def split: option.splits)

lemma slot_ok_cases:
  assumes "slot_ok rg fd"
  obtains (vacant) "aio_event_fds rg fd = None" and "interest (kern rg) fd = None"
  | (event) a s v e where "aio_event_fds rg fd = Some a" and "cells (evs rg) a = Some v"
      and "ep_event v = Some s" and "cells (eps rg) s = Some e" and "ev_fd v = fd" and "ep_data_fd e = fd"
      and "idle_event v e \<and> interest (kern rg) fd = None
        \<or> armed_event v e \<and> (interest (kern rg) fd = None \<or> interest (kern rg) fd = Some (ep_events e))"
proof (cases "aio_event_fds rg fd")
  case None
  with assms vacant show thesis by (simp add: slot_ok_def)
next
  case (Some a)
  with assms obtain v e where ve: "event_of rg fd = Some (v, e)"
    by (auto simp: slot_ok_def split: option.splits)
  then obtain b s where "aio_event_fds rg fd = Some b" "cells (evs rg) b = Some v"
    "ep_event v = Some s" "cells (eps rg) s = Some e" by (rule event_of_SomeE)
  with event assms ve show thesis by (simp add: slot_ok_def)
qed

lemma slot_okI:
  assumes "aio_event_fds rg fd = Some a" and "cells (evs rg) a = Some v" and "ep_event v = Some s"
    and "cells (eps rg) s = Some e" and "ev_fd v = fd" and "ep_data_fd e = fd"
    and "idle_event v e \<and> interest (kern rg) fd = None
      \<or> armed_event v e \<and> (interest (kern rg) fd = None \<or> interest (kern rg) fd = Some (ep_events e))"
  shows "slot_ok rg fd"
  using assms by (simp add: slot_ok_def)

text \<open>
  \<open>touch rg rg' fd\<close>: between \<open>rg\<close> and \<open>rg'\<close> only the slot of \<open>fd\<close>, its cells and its entry
  of the interest list may differ.
\<close>

definition touch :: "react \<Rightarrow> react \<Rightarrow> int \<Rightarrow> bool" where
  "touch rg rg' fd \<longleftrightarrow>
     (\<forall>g. g \<noteq> fd \<longrightarrow> aio_event_fds rg' g = aio_event_fds rg g \<and> interest (kern rg') g = interest (kern rg) g)
   \<and> (\<forall>x v. cells (evs rg) x = Some v \<longrightarrow> ev_fd v \<noteq> fd \<longrightarrow> cells (evs rg') x = Some v)
   \<and> (\<forall>x e. cells (eps rg) x = Some e \<longrightarrow> ep_data_fd e \<noteq> fd \<longrightarrow> cells (eps rg') x = Some e)
   \<and> epollfd rg' = epollfd rg \<and> epoll_inst (kern rg') = epoll_inst (kern rg)
   \<and> wf_heap (evs rg') \<and> wf_heap (eps rg')"

lemma touch_event_of:
  assumes "touch rg rg' fd" and "slot_ok rg g" and "g \<noteq> fd"
  shows "event_of rg' g = event_of rg g" and "slot_ok rg' g"
proof -
  show "event_of rg' g = event_of rg g"
    using assms(2)
  proof (cases rule: slot_ok_cases)
    case vacant
    with assms(1,3) show ?thesis by (simp add: touch_def)
  next
    case (event a s v e)
    with assms(1,3) have "aio_event_fds rg' g = Some a" "cells (evs rg') a = Some v"
      "cells (eps rg') s = Some e" by (auto simp: touch_def)
    with event show ?thesis by simp
  qed
  with assms show "slot_ok rg' g" by (simp add: slot_ok_def touch_def split: option.splits prod.splits)
qed

lemma touch_waiting:
  assumes "touch rg rg' fd" and "reg_inv rg" and "fd_in_range g" and "g \<noteq> fd"
  shows "waiting rg' g = waiting rg g"
  using touch_event_of(1) [OF assms(1) _ assms(4)] assms(2,3) by (simp add: waiting_def reg_inv_def)

text \<open>What a change at one descriptor has to show for the invariant to survive.\<close>

lemma reg_inv_touch:
  assumes inv: "reg_inv rg" and t: "touch rg rg' fd" and ok: "slot_ok rg' fd" "owns rg' fd"
    and argv: "\<And>g v e p. fd_in_range g \<Longrightarrow> g \<noteq> fd \<Longrightarrow> event_of rg g = Some (v, e) \<Longrightarrow>
        arguments v = Some p \<Longrightarrow> cells (argvs rg') p \<noteq> None"
    and tms: "\<And>g v e p. fd_in_range g \<Longrightarrow> g \<noteq> fd \<Longrightarrow> event_of rg g = Some (v, e) \<Longrightarrow>
        timer v = Some p \<Longrightarrow> cells (timers rg') p \<noteq> None"
    and sh: "\<And>g v e w f. fd_in_range g \<Longrightarrow> g \<noteq> fd \<Longrightarrow> event_of rg g = Some (v, e) \<Longrightarrow>
        event_of rg' fd = Some (w, f) \<Longrightarrow>
        (arguments w \<noteq> None \<longrightarrow> arguments v \<noteq> arguments w) \<and> (timer w \<noteq> None \<longrightarrow> timer v \<noteq> timer w)"
  shows "reg_inv rg'"
proof -
  have slots: "slot_ok rg g" if "fd_in_range g" for g using inv that by (simp add: reg_inv_def)
  note same = touch_event_of [OF t slots]
  have "slot_ok rg' g \<and> owns rg' g" if g: "fd_in_range g" for g
  proof (cases "g = fd")
    case True
    with ok show ?thesis by simp
  next
    case False
    with same [OF g] argv [OF g False] tms [OF g False] show ?thesis
      by (auto simp: owns_def split: option.splits)
  qed
  moreover have "\<not> shares rg' g g'" if g: "fd_in_range g" "fd_in_range g'" "g \<noteq> g'" for g g'
  proof -
    consider "g \<noteq> fd" "g' \<noteq> fd" | "g = fd" "g' \<noteq> fd" | "g \<noteq> fd" "g' = fd" using g(3) by blast
    then show ?thesis
    proof cases
      case 1
      then have "shares rg' g g' = shares rg g g'" using same [OF g(1)] same [OF g(2)]
        by (simp add: shares_def)
      with inv g show ?thesis by (simp add: reg_inv_def)
    next
      case 2
      then show ?thesis using same(1) [OF g(2)] sh [OF g(2)]
        by (fastforce simp: shares_def split: option.splits)
    next
      case 3
      then show ?thesis using same(1) [OF g(1)] sh [OF g(1)]
        by (fastforce simp: shares_def split: option.splits)
    qed
  qed
  ultimately show ?thesis using t inv by (simp add: reg_inv_def touch_def)
qed

subsection \<open>Storing\<close>

text \<open>
  \<open>ready rg fd a s v e\<close>: the slot of \<open>fd\<close> holds event \<open>v\<close> at \<open>a\<close> with epoll structure \<open>e\<close>
  at \<open>s\<close>.
\<close>

definition ready :: "react \<Rightarrow> int \<Rightarrow> addr \<Rightarrow> addr \<Rightarrow> aio_event \<Rightarrow> epoll_event \<Rightarrow> bool" where
  "ready rg fd a s v e \<longleftrightarrow> aio_event_fds rg fd = Some a \<and> cells (evs rg) a = Some v
     \<and> ep_event v = Some s \<and> cells (eps rg) s = Some e \<and> ev_fd v = fd \<and> ep_data_fd e = fd"

lemma ready_event_of [simp]: "ready rg fd a s v e \<Longrightarrow> event_of rg fd = Some (v, e)"
  by (simp add: ready_def)

lemma reg_invD: "reg_inv rg \<Longrightarrow> fd_in_range fd \<Longrightarrow> slot_ok rg fd \<and> owns rg fd"
  by (simp add: reg_inv_def)

lemma slot_event_ok:
  assumes inv: "reg_inv rg" and fd: "fd_in_range fd" and room: "slot_room rg fd"
  obtains a s v e rg1 where "slot_event fd rg = Inr (Some a, Some s, rg1)" and "ready rg1 fd a s v e"
    and "reg_inv rg1" and "touch rg rg1 fd" and "kern rg1 = kern rg" and "argvs rg1 = argvs rg"
    and "timers rg1 = timers rg" and "waiting rg1 fd = waiting rg fd"
    and "timeout_fd_link rg1 = timeout_fd_link rg" and "elems rg1 = elems rg"
    and "aio_event_fds rg fd \<noteq> None \<Longrightarrow> rg1 = rg"
    and "\<forall>x. x \<noteq> a \<longrightarrow> cells (evs rg1) x = cells (evs rg) x" and "\<forall>x. x \<noteq> s \<longrightarrow> cells (eps rg1) x = cells (eps rg) x"
    and "aio_event_fds rg fd = None \<Longrightarrow> idle_event v e"
proof -
  have wf: "wf_heap (evs rg)" "wf_heap (eps rg)" using inv by (simp_all add: reg_inv_def)
  from reg_invD [OF inv fd] have ok: "slot_ok rg fd" by simp
  then show thesis
  proof (cases rule: slot_ok_cases)
    case (event a s v e)
    then have "ready rg fd a s v e" by (simp add: ready_def)
    moreover have "touch rg rg fd" using inv by (simp add: touch_def reg_inv_def)
    moreover have "slot_event fd rg = Inr (Some a, Some s, rg)"
      using event fd by (simp add: slot_event_def event_slot_def)
    ultimately show thesis using that inv event by simp
  next
    case vacant
    let ?a = "fresh (evs rg)" and ?s = "fresh (eps rg)"
    let ?v = "zero_event\<lparr>ep_event := Some ?s, ev_fd := fd\<rparr>" and ?e = "\<lparr>ep_events = 0, ep_data_fd = fd\<rparr>"
    let ?rg = "rg\<lparr>evs := (evs rg)\<lparr>cells := (cells (evs rg))(?a := Some ?v), fresh := Suc ?a\<rparr>,
      eps := (eps rg)\<lparr>cells := (cells (eps rg))(?s := Some ?e), fresh := Suc ?s\<rparr>,
      aio_event_fds := (aio_event_fds rg)(fd := Some ?a)\<rparr>"
    have se: "slot_event fd rg = Inr (Some ?a, Some ?s, ?rg)"
      using vacant fd room by (simp add: slot_event_def event_slot_def malloc_def slot_room_def reg_room_def)
    have rd: "ready ?rg fd ?a ?s ?v ?e" by (simp add: ready_def)
    have idle: "idle_event ?v ?e" by (simp add: idle_event_def zero_event_def)
    have t: "touch rg ?rg fd"
      using wf by (auto simp: touch_def wf_heap_def less_Suc_eq)
    have "reg_inv ?rg"
    proof (rule reg_inv_touch [OF inv t])
      show "slot_ok ?rg fd"
        by (rule slot_okI [where a = ?a and s = ?s and v = ?v and e = ?e]) (use vacant idle in simp_all)
      show "owns ?rg fd" using rd by (simp add: owns_def zero_event_def)
    next
      fix g v e p assume "fd_in_range g" "event_of rg g = Some (v, e)" "arguments v = Some p"
      then show "cells (argvs ?rg) p \<noteq> None" using reg_invD [OF inv, of g] by (simp add: owns_def)
    next
      fix g v e p assume "fd_in_range g" "event_of rg g = Some (v, e)" "timer v = Some p"
      then show "cells (timers ?rg) p \<noteq> None" using reg_invD [OF inv, of g] by (simp add: owns_def)
    qed (use rd in \<open>auto simp: zero_event_def\<close>)
    moreover have "waiting ?rg fd = waiting rg fd"
      using rd vacant by (simp add: waiting_def zero_event_def)
    ultimately show thesis using that [OF se rd] t vacant idle by simp
  qed
qed

text \<open>The event after a store that succeeded, and the registry after it.\<close>

abbreviation (input) stored_event :: "aio_event \<Rightarrow> int \<Rightarrow> ptr \<Rightarrow> ptr \<Rightarrow> ptr \<Rightarrow> zval option \<Rightarrow> string option
    \<Rightarrow> string option \<Rightarrow> ptr \<Rightarrow> int \<Rightarrow> aio_event" where
  "stored_event v fdtype context cb tm ob obname fname argv argc \<equiv>
     v\<lparr>php_context := context, callback := cb, object := ob, object_name := obname,
       function_name := fname, arguments := argv, args_count := argc, timer := tm, fd_type := fdtype\<rparr>"

definition put_event :: "react \<Rightarrow> int \<Rightarrow> addr \<Rightarrow> addr \<Rightarrow> aio_event \<Rightarrow> epoll_event \<Rightarrow> react" where
  "put_event rg fd a s v e = rg\<lparr>evs := (evs rg)\<lparr>cells := (cells (evs rg))(a := Some v)\<rparr>,
     eps := (eps rg)\<lparr>cells := (cells (eps rg))(s := Some e)\<rparr>,
     kern := (kern rg)\<lparr>interest := (interest (kern rg))(fd := Some (ep_events e))\<rparr>\<rparr>"

definition drop_event :: "react \<Rightarrow> int \<Rightarrow> addr \<Rightarrow> addr \<Rightarrow> react" where
  "drop_event rg fd a s = rg\<lparr>evs := (evs rg)\<lparr>cells := (cells (evs rg))(a := None)\<rparr>,
     eps := (eps rg)\<lparr>cells := (cells (eps rg))(s := None)\<rparr>,
     aio_event_fds := (aio_event_fds rg)(fd := None)\<rparr>"

lemma store_idle:
  assumes "slot_event fd rg = Inr (Some a, Some s, rg1)" and "ready rg1 fd a s v e" and "idle_event v e"
    and "interest (kern rg1) fd = None" and "epoll_inst (kern rg1) = Some (epollfd rg1)"
  shows "aio_event_store fd fdtype context cb events tm ob obname fname argv argc rg =
    (if can_poll (kern rg1) fd
     then Inr (C_OK, put_event rg1 fd a s (stored_event v fdtype context cb tm ob obname fname argv argc)
       (e\<lparr>ep_events := events\<rparr>))
     else Inr (C_ERR, drop_event rg1 fd a s))"
  using assms
  by (simp add: aio_event_store_def ready_def idle_event_def epoll_ctl_add_def put_event_def drop_event_def
      Let_def)

lemma store_armed:
  assumes "ready rg fd a s v e" and "armed_event v e" and "fd_in_range fd"
  shows "aio_event_store fd fdtype context cb events tm ob obname fname argv argc rg = Inr (C_OK, rg)"
  using assms by (auto simp: aio_event_store_def slot_event_def event_slot_def ready_def armed_event_def)

lemma put_event_touch:
  assumes "reg_inv rg" and "ready rg fd a s v e" and "ev_fd v' = fd" and "ep_data_fd e' = fd"
  shows "touch rg (put_event rg fd a s v' e') fd"
  using assms by (auto simp: touch_def put_event_def ready_def reg_inv_def wf_heap_def)

lemma drop_event_touch:
  assumes "reg_inv rg" and "ready rg fd a s v e"
  shows "touch rg (drop_event rg fd a s) fd"
  using assms by (auto simp: touch_def drop_event_def ready_def reg_inv_def wf_heap_def)

lemma put_event_inv:
  assumes inv: "reg_inv rg" and rd: "ready rg fd a s v e" and un: "unowned rg argv tm"
    and armed: "armed_event v' e'" and v': "ev_fd v' = fd" "ep_event v' = Some s" "arguments v' = argv"
      "timer v' = tm" and e': "ep_data_fd e' = fd"
  shows "reg_inv (put_event rg fd a s v' e')" and "event_of (put_event rg fd a s v' e') fd = Some (v', e')"
proof -
  let ?rg = "put_event rg fd a s v' e'"
  have t: "touch rg ?rg fd" using put_event_touch [OF inv rd v'(1) e'] .
  show ev: "event_of ?rg fd = Some (v', e')"
    using rd v' by (simp add: put_event_def ready_def event_of_def)
  show "reg_inv ?rg"
  proof (rule reg_inv_touch [OF inv t])
    show "slot_ok ?rg fd"
      by (rule slot_okI [where a = a and s = s and v = v' and e = e'])
        (use rd v' e' armed in \<open>simp_all add: put_event_def ready_def\<close>)
    show "owns ?rg fd" using un v' ev
      by (auto simp: owns_def unowned_def put_event_def split: option.splits)
  next
    fix g u f p assume "fd_in_range g" "event_of rg g = Some (u, f)" "arguments u = Some p"
    then show "cells (argvs ?rg) p \<noteq> None"
      using reg_invD [OF inv, of g] by (simp add: owns_def put_event_def)
  next
    fix g u f p assume "fd_in_range g" "event_of rg g = Some (u, f)" "timer u = Some p"
    then show "cells (timers ?rg) p \<noteq> None"
      using reg_invD [OF inv, of g] by (simp add: owns_def put_event_def)
  next
    fix g u f w x assume "fd_in_range g" "event_of rg g = Some (u, f)" "event_of ?rg fd = Some (w, x)"
    with un ev v' show "(arguments w \<noteq> None \<longrightarrow> arguments u \<noteq> arguments w) \<and> (timer w \<noteq> None \<longrightarrow> timer u \<noteq> timer w)"
      by (auto simp: unowned_def)
  qed
qed

lemma drop_event_inv:
  assumes inv: "reg_inv rg" and rd: "ready rg fd a s v e" and none: "interest (kern rg) fd = None"
  shows "reg_inv (drop_event rg fd a s)" and "waiting (drop_event rg fd a s) fd = None"
proof -
  let ?rg = "drop_event rg fd a s"
  have ev: "aio_event_fds ?rg fd = None" by (simp add: drop_event_def)
  then show "waiting ?rg fd = None" by (simp add: waiting_def)
  show "reg_inv ?rg"
  proof (rule reg_inv_touch [OF inv drop_event_touch [OF inv rd]])
    show "slot_ok ?rg fd" "owns ?rg fd"
      using ev none by (simp_all add: slot_ok_def owns_def drop_event_def)
  next
    fix g u f p assume "fd_in_range g" "event_of rg g = Some (u, f)" "arguments u = Some p"
    then show "cells (argvs ?rg) p \<noteq> None"
      using reg_invD [OF inv, of g] by (simp add: owns_def drop_event_def)
  next
    fix g u f p assume "fd_in_range g" "event_of rg g = Some (u, f)" "timer u = Some p"
    then show "cells (timers ?rg) p \<noteq> None"
      using reg_invD [OF inv, of g] by (simp add: owns_def drop_event_def)
  qed (use ev in simp)
qed

lemma waiting_Some_armed:
  assumes inv: "reg_inv rg" and fd: "fd_in_range fd" and w: "waiting rg fd \<noteq> None"
  obtains a s v e where "ready rg fd a s v e" and "armed_event v e"
proof -
  have "slot_ok rg fd" using reg_invD [OF inv fd] by simp
  then show thesis
  proof (cases rule: slot_ok_cases)
    case vacant
    with w show thesis by (simp add: waiting_def)
  next
    case (event a s v e)
    then have "armed_event v e" using w by (auto simp: waiting_def idle_event_def)
    with event that show thesis by (simp add: ready_def)
  qed
qed

text \<open>The slot just before a first registration: an idle event, no entry on the interest list.\<close>

lemma slot_event_idle:
  assumes inv: "reg_inv rg" and fd: "fd_in_range fd" and room: "slot_room rg fd"
    and w: "waiting rg fd = None" and un: "unowned rg argv tm"
  obtains a s v e rg1 where "slot_event fd rg = Inr (Some a, Some s, rg1)" and "ready rg1 fd a s v e"
    and "idle_event v e" and "reg_inv rg1" and "touch rg rg1 fd" and "kern rg1 = kern rg"
    and "interest (kern rg1) fd = None" and "epoll_inst (kern rg1) = Some (epollfd rg1)"
    and "unowned rg1 argv tm" and "argvs rg1 = argvs rg" and "timers rg1 = timers rg"
    and "timeout_fd_link rg1 = timeout_fd_link rg" and "elems rg1 = elems rg"
    and "\<forall>x. x \<noteq> a \<longrightarrow> cells (evs rg1) x = cells (evs rg) x" and "\<forall>x. x \<noteq> s \<longrightarrow> cells (eps rg1) x = cells (eps rg) x"
proof -
  from inv fd room obtain a s v e rg1 where
    se: "slot_event fd rg = Inr (Some a, Some s, rg1)" and rd: "ready rg1 fd a s v e"
    and inv1: "reg_inv rg1" and t: "touch rg rg1 fd" and k: "kern rg1 = kern rg"
    and mem: "argvs rg1 = argvs rg" "timers rg1 = timers rg" and w1: "waiting rg1 fd = waiting rg fd"
    and q: "timeout_fd_link rg1 = timeout_fd_link rg" "elems rg1 = elems rg"
    and c: "\<forall>x. x \<noteq> a \<longrightarrow> cells (evs rg1) x = cells (evs rg) x" "\<forall>x. x \<noteq> s \<longrightarrow> cells (eps rg1) x = cells (eps rg) x"
    by (rule slot_event_ok)
  have "slot_ok rg1 fd" using reg_invD [OF inv1 fd] by simp
  with rd w w1 have idle: "idle_event v e" and int: "interest (kern rg1) fd = None"
    by (auto simp: slot_ok_def ready_def waiting_def armed_event_def)
  have "unowned rg1 argv tm"
    unfolding unowned_def
  proof (intro conjI allI impI)
    fix g assume g: "fd_in_range g"
    show "case event_of rg1 g of None \<Rightarrow> True
        | Some (v, e) \<Rightarrow> (argv \<noteq> None \<longrightarrow> arguments v \<noteq> argv) \<and> (tm \<noteq> None \<longrightarrow> timer v \<noteq> tm)"
    proof (cases "g = fd")
      case True
      with rd idle show ?thesis by (auto simp: idle_event_def)
    next
      case False
      with touch_event_of(1) [OF t _ False] reg_invD [OF inv g] un g show ?thesis
        by (simp add: unowned_def)
    qed
  qed (use un mem in \<open>simp_all add: unowned_def split: option.splits\<close>)
  moreover have "epoll_inst (kern rg1) = Some (epollfd rg1)" using inv1 by (simp add: reg_inv_def)
  ultimately show thesis using that se rd idle inv1 t k int mem q c by blast
qed

lemma aio_event_store_armed:
  assumes "reg_inv rg" and "fd_in_range fd" and "waiting rg fd \<noteq> None"
  shows "aio_event_store fd fdtype context cb events tm ob obname fname argv argc rg = Inr (C_OK, rg)"
  using assms by (rule waiting_Some_armed) (rule store_armed [OF _ _ assms(2)])

lemma aio_event_store_fresh:
  assumes inv: "reg_inv rg" and fd: "fd_in_range fd" and room: "slot_room rg fd"
    and w: "waiting rg fd = None" and un: "unowned rg argv tm" and poll: "can_poll (kern rg) fd"
    and ty: "fdtype \<in> {FD_TYPE_ACCEPT, FD_TYPE_TIMMER, FD_TYPE_NORMAL}" "tm \<noteq> None \<longrightarrow> fdtype = FD_TYPE_TIMMER"
    and ev: "events \<noteq> 0" "context \<noteq> None"
  obtains rg' v where "aio_event_store fd fdtype context cb events tm ob obname fname argv argc rg = Inr (C_OK, rg')"
    and "reg_inv rg'" and "touch rg rg' fd" and "waiting rg' fd = context"
    and "interest (kern rg') fd = Some events"
    and "event_of rg' fd = Some (stored_event v fdtype context cb tm ob obname fname argv argc,
           \<lparr>ep_events = events, ep_data_fd = fd\<rparr>)"
    and "argvs rg' = argvs rg" and "timers rg' = timers rg" and "can_poll (kern rg') = can_poll (kern rg)"
    and "timeout_fd_link rg' = timeout_fd_link rg" and "elems rg' = elems rg"
proof -
  from inv fd room w un obtain a s v e rg1 where
    se: "slot_event fd rg = Inr (Some a, Some s, rg1)" and rd: "ready rg1 fd a s v e"
    and idle: "idle_event v e" and inv1: "reg_inv rg1" and t: "touch rg rg1 fd"
    and k: "kern rg1 = kern rg" and int: "interest (kern rg1) fd = None"
    and ep: "epoll_inst (kern rg1) = Some (epollfd rg1)" and un1: "unowned rg1 argv tm"
    and mem: "argvs rg1 = argvs rg" "timers rg1 = timers rg" "timeout_fd_link rg1 = timeout_fd_link rg" "elems rg1 = elems rg"
    by (rule slot_event_idle)
  let ?v = "stored_event v fdtype context cb tm ob obname fname argv argc"
  let ?e = "\<lparr>ep_events = events, ep_data_fd = fd\<rparr>"
  let ?rg = "put_event rg1 fd a s ?v ?e"
  have e: "e\<lparr>ep_events := events\<rparr> = ?e" using rd by (cases e) (simp add: ready_def)
  have st: "aio_event_store fd fdtype context cb events tm ob obname fname argv argc rg = Inr (C_OK, ?rg)"
    using store_idle [OF se rd idle int ep] poll k e by simp
  have armed: "armed_event ?v ?e" using ty ev by (auto simp: armed_event_def)
  have v: "ev_fd ?v = fd" "ep_event ?v = Some s" using rd by (simp_all add: ready_def)
  note res = put_event_inv [OF inv1 rd un1 armed v]
  have "touch rg ?rg fd"
    using t put_event_touch [OF inv1 rd v(1), of ?e] by (auto simp: touch_def)
  moreover have "waiting ?rg fd = context" using res(2) by (simp add: waiting_def)
  moreover have "interest (kern ?rg) fd = Some events" "argvs ?rg = argvs rg" "timers ?rg = timers rg"
      "can_poll (kern ?rg) = can_poll (kern rg)" "timeout_fd_link ?rg = timeout_fd_link rg" "elems ?rg = elems rg"
    using mem k by (simp_all add: put_event_def)
  ultimately show thesis using that [OF st] res by simp
qed

lemma aio_event_store_refused:
  assumes inv: "reg_inv rg" and fd: "fd_in_range fd" and room: "slot_room rg fd"
    and w: "waiting rg fd = None" and poll: "\<not> can_poll (kern rg) fd"
  obtains rg' where "aio_event_store fd fdtype context cb events tm ob obname fname argv argc rg = Inr (C_ERR, rg')"
    and "reg_inv rg'" and "touch rg rg' fd" and "aio_event_fds rg' fd = None"
    and "kern rg' = kern rg" and "argvs rg' = argvs rg" and "timers rg' = timers rg"
    and "timeout_fd_link rg' = timeout_fd_link rg" and "elems rg' = elems rg"
    and "\<forall>x. cells (evs rg') x \<noteq> None \<longrightarrow> cells (evs rg) x \<noteq> None"
    and "\<forall>x. cells (eps rg') x \<noteq> None \<longrightarrow> cells (eps rg) x \<noteq> None"
proof -
  have "unowned rg None None" by (simp add: unowned_def split: option.splits)
  with inv fd room w obtain a s v e rg1 where
    se: "slot_event fd rg = Inr (Some a, Some s, rg1)" and rd: "ready rg1 fd a s v e"
    and idle: "idle_event v e" and inv1: "reg_inv rg1" and t: "touch rg rg1 fd"
    and k: "kern rg1 = kern rg" and int: "interest (kern rg1) fd = None"
    and ep: "epoll_inst (kern rg1) = Some (epollfd rg1)"
    and mem: "argvs rg1 = argvs rg" "timers rg1 = timers rg" "timeout_fd_link rg1 = timeout_fd_link rg" "elems rg1 = elems rg"
    and c: "\<forall>x. x \<noteq> a \<longrightarrow> cells (evs rg1) x = cells (evs rg) x" "\<forall>x. x \<noteq> s \<longrightarrow> cells (eps rg1) x = cells (eps rg) x"
    by (rule slot_event_idle)
  let ?rg = "drop_event rg1 fd a s"
  have st: "aio_event_store fd fdtype context cb events tm ob obname fname argv argc rg = Inr (C_ERR, ?rg)"
    using store_idle [OF se rd idle int ep] poll k by simp
  have "touch rg ?rg fd"
    using t drop_event_touch [OF inv1 rd] by (auto simp: touch_def)
  moreover have "aio_event_fds ?rg fd = None" "kern ?rg = kern rg" "argvs ?rg = argvs rg" "timers ?rg = timers rg"
      "timeout_fd_link ?rg = timeout_fd_link rg" "elems ?rg = elems rg"
    using k mem by (simp_all add: drop_event_def)
  moreover have "\<forall>x. cells (evs ?rg) x \<noteq> None \<longrightarrow> cells (evs rg) x \<noteq> None"
      "\<forall>x. cells (eps ?rg) x \<noteq> None \<longrightarrow> cells (eps rg) x \<noteq> None"
    using c by (auto simp: drop_event_def)
  ultimately show thesis using that [OF st drop_event_inv(1) [OF inv1 rd int]] by simp
qed

subsection \<open>Freeing\<close>

abbreviation (input) freed_event :: "aio_event \<Rightarrow> aio_event" where
  "freed_event v \<equiv> v\<lparr>php_context := None, callback := None, args_count := 0, arguments := None,
     timer := None, fd_type := 0\<rparr>"

lemma epoll_ctl_del_clears:
  "epoll_inst k = Some epfd \<Longrightarrow> snd (epoll_ctl_del epfd fd k) = k\<lparr>interest := (interest k)(fd := None)\<rparr>"
  by (auto simp: epoll_ctl_del_def fun_upd_idem)

text \<open>The registry after the event of \<open>fd\<close>, armed with \<open>v\<close>, was freed.\<close>

definition free_armed :: "react \<Rightarrow> int \<Rightarrow> addr \<Rightarrow> addr \<Rightarrow> aio_event \<Rightarrow> epoll_event \<Rightarrow> react" where
  "free_armed rg fd a s v e = rg\<lparr>evs := (evs rg)\<lparr>cells := (cells (evs rg))(a := Some (freed_event v))\<rparr>,
     argvs := (case arguments v of None \<Rightarrow> argvs rg
       | Some p \<Rightarrow> (argvs rg)\<lparr>cells := (cells (argvs rg))(p := None)\<rparr>),
     eps := (eps rg)\<lparr>cells := (cells (eps rg))(s := Some (e\<lparr>ep_events := 0\<rparr>))\<rparr>,
     timers := (case timer v of None \<Rightarrow> timers rg
       | Some p \<Rightarrow> (timers rg)\<lparr>cells := (cells (timers rg))(p := None)\<rparr>),
     kern := (if fd_type v = FD_TYPE_TIMMER then close_fd fd (kern rg)
       else (kern rg)\<lparr>interest := (interest (kern rg))(fd := None)\<rparr>)\<rparr>"

lemma owns_free_cells:
  assumes "owns rg fd" and "event_of rg fd = Some (v, e)"
  shows "free_cell (arguments v) (argvs rg) = Inr (case arguments v of None \<Rightarrow> argvs rg
       | Some p \<Rightarrow> (argvs rg)\<lparr>cells := (cells (argvs rg))(p := None)\<rparr>)"
    and "free_cell (timer v) (timers rg) = Inr (case timer v of None \<Rightarrow> timers rg
       | Some p \<Rightarrow> (timers rg)\<lparr>cells := (cells (timers rg))(p := None)\<rparr>)"
  using assms by (auto simp: owns_def free_cell_def split: option.splits)

lemma del_interest_eq:
  "epoll_inst (kern rg) = Some (epollfd rg) \<Longrightarrow> epoll_ctl_del (epollfd rg) fd (kern rg) = (r, k) \<Longrightarrow>
     k = (kern rg)\<lparr>interest := (interest (kern rg))(fd := None)\<rparr>"
  using epoll_ctl_del_clears [of "kern rg" "epollfd rg" fd] by simp

lemma free_armed_eq:
  assumes inv: "reg_inv rg" and fd: "fd_in_range fd" and rd: "ready rg fd a s v e" and ar: "armed_event v e"
  shows "aio_event_free (Some a) rg = Inr (C_OK, free_armed rg fd a s v e)"
proof -
  have own: "owns rg fd" using reg_invD [OF inv fd] by simp
  note fr = owns_free_cells [OF own ready_event_of [OF rd]]
  obtain r k where del: "epoll_ctl_del (epollfd rg) fd (kern rg) = (r, k)"
    by (cases "epoll_ctl_del (epollfd rg) fd (kern rg)")
  have "epoll_inst (kern rg) = Some (epollfd rg)" using inv by (simp add: reg_inv_def)
  note k = del_interest_eq [OF this del]
  show ?thesis
  proof (cases "fd_type v = FD_TYPE_TIMMER")
    case True
    then show ?thesis using rd fr del k
      by (auto simp: aio_event_free_def ready_def disarm_timer_def free_armed_def close_fd_def Let_def
          intro!: react.equality)
  next
    case False
    with ar have "fd_type v = FD_TYPE_ACCEPT \<or> fd_type v = FD_TYPE_NORMAL" "timer v = None"
      by (auto simp: armed_event_def)
    moreover from this(2) have v: "v\<lparr>php_context := None, callback := None, args_count := 0,
        arguments := None, fd_type := 0\<rparr> = freed_event v" by (cases v) simp
    ultimately show ?thesis using rd fr del k
      by (auto simp: aio_event_free_def ready_def disarm_def free_armed_def Let_def v
          intro!: react.equality)
  qed
qed

lemma free_armed_touch:
  assumes "reg_inv rg" and "ready rg fd a s v e"
  shows "touch rg (free_armed rg fd a s v e) fd"
  using assms by (auto simp: touch_def free_armed_def ready_def reg_inv_def wf_heap_def close_fd_def)

lemma free_armed_inv:
  assumes inv: "reg_inv rg" and fd: "fd_in_range fd" and rd: "ready rg fd a s v e"
  shows "reg_inv (free_armed rg fd a s v e)"
    and "event_of (free_armed rg fd a s v e) fd = Some (freed_event v, e\<lparr>ep_events := 0\<rparr>)"
proof -
  let ?rg = "free_armed rg fd a s v e"
  show ev: "event_of ?rg fd = Some (freed_event v, e\<lparr>ep_events := 0\<rparr>)"
    using rd by (simp add: free_armed_def ready_def event_of_def)
  have noshare: "\<not> shares rg g fd" if "fd_in_range g" "g \<noteq> fd" for g
    using inv fd that by (simp add: reg_inv_def)
  show "reg_inv ?rg"
  proof (rule reg_inv_touch [OF inv free_armed_touch [OF inv rd]])
    show "slot_ok ?rg fd"
      by (rule slot_okI [where a = a and s = s and v = "freed_event v" and e = "e\<lparr>ep_events := 0\<rparr>"])
        (use rd in \<open>simp_all add: free_armed_def ready_def idle_event_def close_fd_def\<close>)
    show "owns ?rg fd" using ev by (simp add: owns_def)
  next
    fix g u f p assume g: "fd_in_range g" "g \<noteq> fd" "event_of rg g = Some (u, f)" "arguments u = Some p"
    then have "arguments v \<noteq> Some p" using noshare [OF g(1,2)] rd by (auto simp: shares_def)
    then show "cells (argvs ?rg) p \<noteq> None"
      using reg_invD [OF inv g(1)] g by (auto simp: owns_def free_armed_def split: option.splits)
  next
    fix g u f p assume g: "fd_in_range g" "g \<noteq> fd" "event_of rg g = Some (u, f)" "timer u = Some p"
    then have "timer v \<noteq> Some p" using noshare [OF g(1,2)] rd by (auto simp: shares_def)
    then show "cells (timers ?rg) p \<noteq> None"
      using reg_invD [OF inv g(1)] g by (auto simp: owns_def free_armed_def split: option.splits)
  next
    fix g u f w x assume "event_of ?rg fd = Some (w, x)"
    with ev show "(arguments w \<noteq> None \<longrightarrow> arguments u \<noteq> arguments w) \<and> (timer w \<noteq> None \<longrightarrow> timer u \<noteq> timer w)"
      by auto
  qed
qed

text \<open>Freeing an idle event only clears what is already unused.\<close>

definition free_unused :: "react \<Rightarrow> addr \<Rightarrow> aio_event \<Rightarrow> react" where
  "free_unused rg a v = rg\<lparr>evs := (evs rg)\<lparr>cells := (cells (evs rg))(a := Some (v\<lparr>callback := None, args_count := 0\<rparr>))\<rparr>\<rparr>"

lemma free_idle_eq:
  assumes rd: "ready rg fd a s v e" and idle: "idle_event v e"
  shows "aio_event_free (Some a) rg = Inr (C_OK, free_unused rg a v)"
proof -
  have v: "v\<lparr>php_context := None, callback := None, args_count := 0, arguments := None, fd_type := 0\<rparr>
      = v\<lparr>callback := None, args_count := 0\<rparr>"
    using idle by (cases v) (simp add: idle_event_def)
  show ?thesis
    using rd idle by (simp add: aio_event_free_def ready_def idle_event_def Let_def free_unused_def v)
qed

lemma free_idle_inv:
  assumes inv: "reg_inv rg" and fd: "fd_in_range fd" and rd: "ready rg fd a s v e" and idle: "idle_event v e"
  shows "reg_inv (free_unused rg a v)" and "touch rg (free_unused rg a v) fd"
    and "event_of (free_unused rg a v) fd = Some (v\<lparr>callback := None, args_count := 0\<rparr>, e)"
proof -
  let ?rg = "free_unused rg a v"
  show t: "touch rg ?rg fd"
    using inv rd by (auto simp: touch_def ready_def reg_inv_def wf_heap_def free_unused_def)
  show ev: "event_of ?rg fd = Some (v\<lparr>callback := None, args_count := 0\<rparr>, e)"
    using rd by (simp add: ready_def event_of_def free_unused_def)
  have int: "interest (kern rg) fd = None"
    using reg_invD [OF inv fd] rd idle by (auto simp: slot_ok_def idle_event_def armed_event_def ready_def)
  show "reg_inv ?rg"
  proof (rule reg_inv_touch [OF inv t])
    show "slot_ok ?rg fd"
      by (rule slot_okI [where a = a and s = s and v = "v\<lparr>callback := None, args_count := 0\<rparr>" and e = e])
        (use rd idle int in \<open>simp_all add: ready_def idle_event_def free_unused_def\<close>)
    show "owns ?rg fd" using ev idle by (simp add: owns_def idle_event_def)
  next
    fix g u f p assume "fd_in_range g" "event_of rg g = Some (u, f)" "arguments u = Some p"
    then show "cells (argvs ?rg) p \<noteq> None"
      using reg_invD [OF inv, of g] by (simp add: owns_def free_unused_def)
  next
    fix g u f p assume "fd_in_range g" "event_of rg g = Some (u, f)" "timer u = Some p"
    then show "cells (timers ?rg) p \<noteq> None"
      using reg_invD [OF inv, of g] by (simp add: owns_def free_unused_def)
  qed (use ev idle in \<open>auto simp: idle_event_def\<close>)
qed

text \<open>The argument array and the timer specification the event of a descriptor holds.\<close>

definition holds_argv :: "react \<Rightarrow> int \<Rightarrow> addr \<Rightarrow> bool" where
  "holds_argv rg fd p \<longleftrightarrow> (case event_of rg fd of None \<Rightarrow> False | Some (v, e) \<Rightarrow> arguments v = Some p)"

definition holds_timer :: "react \<Rightarrow> int \<Rightarrow> addr \<Rightarrow> bool" where
  "holds_timer rg fd p \<longleftrightarrow> (case event_of rg fd of None \<Rightarrow> False | Some (v, e) \<Rightarrow> timer v = Some p)"

text \<open>
  Freeing through the slot of a descriptor, whatever the slot holds: the descriptor waits for
  nobody, is not polled, its argument array and timer specification are gone, and no other
  descriptor is disturbed.
\<close>

lemma aio_event_free_slot:
  assumes inv: "reg_inv rg" and fd: "fd_in_range fd"
  obtains rg' where "aio_event_free (aio_event_fds rg fd) rg = Inr (C_OK, rg')" and "reg_inv rg'"
    and "touch rg rg' fd" and "waiting rg' fd = None" and "interest (kern rg') fd = None"
    and "aio_event_fds rg' = aio_event_fds rg"
    and "\<forall>v e p. event_of rg fd = Some (v, e) \<longrightarrow> arguments v = Some p \<longrightarrow> cells (argvs rg') p = None"
    and "\<forall>v e. event_of rg fd = Some (v, e) \<longrightarrow> fd_type v = FD_TYPE_TIMMER \<longrightarrow>
       fl_flags (kern rg') fd = None \<and> (\<forall>p. timer v = Some p \<longrightarrow> cells (timers rg') p = None)"
    and "timeout_fd_link rg' = timeout_fd_link rg" and "elems rg' = elems rg"
    and "\<forall>v e. event_of rg' fd = Some (v, e) \<longrightarrow> arguments v = None \<and> timer v = None"
    and "wf_heap (argvs rg) \<longrightarrow> wf_heap (argvs rg')" and "wf_heap (timers rg) \<longrightarrow> wf_heap (timers rg')"
    and "cells (argvs rg') = (\<lambda>p. if holds_argv rg fd p then None else cells (argvs rg) p)"
    and "cells (timers rg') = (\<lambda>p. if holds_timer rg fd p then None else cells (timers rg) p)"
proof -
  have "slot_ok rg fd" using reg_invD [OF inv fd] by simp
  then show thesis
  proof (cases rule: slot_ok_cases)
    case vacant
    have "touch rg rg fd" using inv by (simp add: touch_def reg_inv_def)
    with vacant show thesis
      by (intro that [of rg]) (simp_all add: aio_event_free_def inv waiting_def holds_argv_def holds_timer_def)
  next
    case (event a s v e)
    then have rd: "ready rg fd a s v e" by (simp add: ready_def)
    have own: "event_of rg fd = Some (v, e)" using event by (simp add: event_of_def)
    have held: "holds_argv rg fd p \<longleftrightarrow> arguments v = Some p" "holds_timer rg fd p \<longleftrightarrow> timer v = Some p" for p
      by (simp_all add: holds_argv_def holds_timer_def own)
    consider "idle_event v e" "interest (kern rg) fd = None" | "armed_event v e" using event(7) by metis
    then show thesis
    proof cases
      case 1
      note fi = free_idle_inv [OF inv fd rd 1(1)]
      show thesis
        by (rule that [of "free_unused rg a v"])
          (use fi 1 rd free_idle_eq [OF rd 1(1)] event(1) in
            \<open>simp_all add: waiting_def idle_event_def free_unused_def held\<close>)
    next
      case 2
      note fa = free_armed_inv [OF inv fd rd]
      show thesis
        by (rule that [of "free_armed rg fd a s v e"])
          (use fa rd event(1) free_armed_eq [OF inv fd rd 2] free_armed_touch [OF inv rd] in
            \<open>auto simp: waiting_def free_armed_def close_fd_def wf_heap_def held armed_event_def fun_eq_iff split: option.splits\<close>)
    qed
  qed
qed

section \<open>The interface of the registry\<close>

text \<open>
  What the scheduler relies on: a descriptor wakes at most one context, the first one stored; a
  store reports success or failure; freeing the slot makes the descriptor available again; no
  operation on one descriptor disturbs another.
\<close>

locale event_registry =
  fixes store :: "int \<Rightarrow> 'q \<Rightarrow> nat \<Rightarrow> 'r \<Rightarrow> (int \<times> 'r) res"
    and release :: "int \<Rightarrow> 'r \<Rightarrow> (int \<times> 'r) res"
    and waits :: "'r \<Rightarrow> int \<Rightarrow> ptr"
    and inv :: "'r \<Rightarrow> bool"
    and room :: "'r \<Rightarrow> int \<Rightarrow> bool"
    and valid :: "int \<Rightarrow> bool"
    and pollable :: "'r \<Rightarrow> int \<Rightarrow> bool"
    and acceptable :: "'r \<Rightarrow> 'q \<Rightarrow> bool"
  assumes store_fresh: "\<And>r fd q c. inv r \<Longrightarrow> valid fd \<Longrightarrow> room r fd \<Longrightarrow> waits r fd = None \<Longrightarrow>
        pollable r fd \<Longrightarrow> acceptable r q \<Longrightarrow>
        \<exists>r'. store fd q c r = Inr (0, r') \<and> inv r' \<and> waits r' fd = Some c
          \<and> (\<forall>g. valid g \<longrightarrow> g \<noteq> fd \<longrightarrow> waits r' g = waits r g)"
    and store_busy: "\<And>r fd q c. inv r \<Longrightarrow> valid fd \<Longrightarrow> waits r fd \<noteq> None \<Longrightarrow>
        store fd q c r = Inr (0, r)"
    and store_refused: "\<And>r fd q c. inv r \<Longrightarrow> valid fd \<Longrightarrow> room r fd \<Longrightarrow> waits r fd = None \<Longrightarrow>
        \<not> pollable r fd \<Longrightarrow>
        \<exists>r'. store fd q c r = Inr (-1, r') \<and> inv r' \<and> (\<forall>g. valid g \<longrightarrow> waits r' g = waits r g)"
    and release_ok: "\<And>r fd. inv r \<Longrightarrow> valid fd \<Longrightarrow>
        \<exists>r'. release fd r = Inr (0, r') \<and> inv r' \<and> waits r' fd = None
          \<and> (\<forall>g. valid g \<longrightarrow> g \<noteq> fd \<longrightarrow> waits r' g = waits r g)"
begin

lemma first_waiter_wins:
  assumes "inv r" and "valid fd" and "room r fd" and "waits r fd = None" and "pollable r fd"
    and "acceptable r q"
  obtains r' where "store fd q c r = Inr (0, r')" and "store fd q' c' r' = Inr (0, r')"
    and "waits r' fd = Some c" and "inv r'"
  using store_fresh [OF assms] store_busy [OF _ assms(2)] by fastforce

lemma store_reports:
  assumes "inv r" and "valid fd" and "room r fd" and "acceptable r q"
  obtains r' k where "store fd q c r = Inr (k, r')" and "inv r'"
    and "k = 0 \<longleftrightarrow> waits r' fd \<noteq> None" and "k = 0 \<or> k = -1"
proof (cases "waits r fd")
  case None
  then show thesis
    using store_fresh [OF assms(1-3) None _ assms(4)] store_refused [OF assms(1-3) None] that assms(2)
    by (cases "pollable r fd") fastforce+
next
  case (Some x)
  then have "store fd q c r = Inr (0, r)" using store_busy assms by simp
  with Some that assms show thesis by simp
qed

lemma release_cycle:
  assumes "inv r" and "valid fd" and "room r fd" and "waits r fd = None" and "pollable r fd"
    and "acceptable r q"
  obtains r1 r2 where "store fd q c r = Inr (0, r1)" and "release fd r1 = Inr (0, r2)" and "inv r2"
    and "\<forall>g. valid g \<longrightarrow> waits r2 g = waits r g"
proof -
  obtain r1 where r1: "store fd q c r = Inr (0, r1)" "inv r1"
    "\<forall>g. valid g \<longrightarrow> g \<noteq> fd \<longrightarrow> waits r1 g = waits r g"
    using store_fresh [OF assms] by blast
  obtain r2 where r2: "release fd r1 = Inr (0, r2)" "inv r2" "waits r2 fd = None"
    "\<forall>g. valid g \<longrightarrow> g \<noteq> fd \<longrightarrow> waits r2 g = waits r1 g"
    using release_ok [OF r1(2) assms(2)] by blast
  have "\<forall>g. valid g \<longrightarrow> waits r2 g = waits r g" using r1 r2 assms(4) by metis
  with r1 r2 that show thesis by blast
qed

end

text \<open>A registration request: everything \<open>_aio_event_store\<close> takes but the descriptor and the context.\<close>

record request =
  rq_type :: int
  rq_callback :: ptr
  rq_events :: u32
  rq_timer :: ptr
  rq_object :: "zval option"
  rq_object_name :: "string option"
  rq_function_name :: "string option"
  rq_arguments :: ptr
  rq_count :: int

definition store_request :: "int \<Rightarrow> request \<Rightarrow> nat \<Rightarrow> react \<Rightarrow> (int \<times> react) res" where
  "store_request fd q c rg = aio_event_store fd (rq_type q) (Some c) (rq_callback q) (rq_events q)
     (rq_timer q) (rq_object q) (rq_object_name q) (rq_function_name q) (rq_arguments q) (rq_count q) rg"

definition request_ok :: "react \<Rightarrow> request \<Rightarrow> bool" where
  "request_ok rg q \<longleftrightarrow> rq_type q \<in> {FD_TYPE_ACCEPT, FD_TYPE_TIMMER, FD_TYPE_NORMAL}
     \<and> (rq_timer q \<noteq> None \<longrightarrow> rq_type q = FD_TYPE_TIMMER) \<and> rq_events q \<noteq> 0
     \<and> unowned rg (rq_arguments q) (rq_timer q)"

lemma store_request_fresh:
  assumes "reg_inv rg" and "fd_in_range fd" and "slot_room rg fd" and "waiting rg fd = None"
    and "can_poll (kern rg) fd" and "request_ok rg q"
  shows "\<exists>rg'. store_request fd q c rg = Inr (0, rg') \<and> reg_inv rg' \<and> waiting rg' fd = Some c
    \<and> (\<forall>g. fd_in_range g \<longrightarrow> g \<noteq> fd \<longrightarrow> waiting rg' g = waiting rg g)"
proof -
  have q: "unowned rg (rq_arguments q) (rq_timer q)"
    "rq_type q \<in> {FD_TYPE_ACCEPT, FD_TYPE_TIMMER, FD_TYPE_NORMAL}"
    "rq_timer q \<noteq> None \<longrightarrow> rq_type q = FD_TYPE_TIMMER" "rq_events q \<noteq> 0"
    using assms(6) by (simp_all add: request_ok_def)
  show ?thesis
    unfolding store_request_def
    by (rule aio_event_store_fresh [OF assms(1-4) q(1) assms(5) q(2-4), of "Some c" "rq_callback q"
          "rq_object q" "rq_object_name q" "rq_function_name q" "rq_count q"])
      (use touch_waiting assms(1) in auto)
qed

lemma store_request_refused:
  assumes "reg_inv rg" and "fd_in_range fd" and "slot_room rg fd" and "waiting rg fd = None"
    and "\<not> can_poll (kern rg) fd"
  shows "\<exists>rg'. store_request fd q c rg = Inr (-1, rg') \<and> reg_inv rg'
    \<and> (\<forall>g. fd_in_range g \<longrightarrow> waiting rg' g = waiting rg g)"
proof -
  obtain rg' where st: "store_request fd q c rg = Inr (-1, rg')" and inv: "reg_inv rg'"
    and t: "touch rg rg' fd" and none: "aio_event_fds rg' fd = None"
    unfolding store_request_def
    by (rule aio_event_store_refused [OF assms, of "rq_type q" "Some c" "rq_callback q" "rq_events q"
          "rq_timer q" "rq_object q" "rq_object_name q" "rq_function_name q" "rq_arguments q" "rq_count q"])
  have "waiting rg' g = waiting rg g" if "fd_in_range g" for g
    using touch_waiting [OF t assms(1) that] none assms(4) by (cases "g = fd") (simp_all add: waiting_def)
  with st inv show ?thesis by blast
qed

lemma free_slot_released:
  assumes "reg_inv rg" and "fd_in_range fd"
  shows "\<exists>rg'. aio_event_free (aio_event_fds rg fd) rg = Inr (0, rg') \<and> reg_inv rg' \<and> waiting rg' fd = None
    \<and> (\<forall>g. fd_in_range g \<longrightarrow> g \<noteq> fd \<longrightarrow> waiting rg' g = waiting rg g)"
  by (rule aio_event_free_slot [OF assms]) (use touch_waiting assms(1) in blast)

interpretation reg: event_registry store_request "\<lambda>fd rg. aio_event_free (aio_event_fds rg fd) rg"
  waiting reg_inv slot_room fd_in_range "\<lambda>rg. can_poll (kern rg)" request_ok
proof
  fix r fd q c
  assume "reg_inv r" "fd_in_range fd" "waiting r fd \<noteq> None"
  then show "store_request fd q c r = Inr (0, r)"
    by (simp add: store_request_def aio_event_store_armed)
qed (rule store_request_fresh store_request_refused free_slot_released; assumption)+

section \<open>Properties\<close>

text \<open>A registry at rest, whose kernel accepts descriptor 7 only, and a request for it.\<close>

definition reg_none :: react where
  "reg_none = \<lparr>rg_init = 1, epollfd = 3, aio_event_fds = (\<lambda>_. None), nfds = 0,
     timeout_fd_link = (\<lparr>front = None, rear = None, lsize = 0\<rparr>, empty_heap), evs = empty_heap, eps = empty_heap,
     timers = empty_heap, argvs = empty_heap, elems = empty_heap,
     kern = \<lparr>epoll_inst = Some 3, can_poll = (\<lambda>fd. fd = 7), interest = (\<lambda>_. None),
       fl_flags = (\<lambda>fd. if fd = 7 then Some 2 else None)\<rparr>\<rparr>"

definition read_request :: request where
  "read_request = \<lparr>rq_type = FD_TYPE_NORMAL, rq_callback = None, rq_events = EPOLLIN, rq_timer = None,
     rq_object = None, rq_object_name = None, rq_function_name = None, rq_arguments = None, rq_count = 0\<rparr>"

lemma reg_none_ok: "reg_inv reg_none" "slot_room reg_none fd" "waiting reg_none fd = None"
  "request_ok reg_none read_request" "fd_in_range 7" "can_poll (kern reg_none) 7" "\<not> can_poll (kern reg_none) 8"
  "fd_in_range 8" "fl_flags (kern reg_none) 7 = Some 2"
  by (simp_all add: reg_inv_def reg_none_def slot_ok_def owns_def shares_def event_of_def slot_room_def reg_room_def
      empty_heap_def wf_heap_def waiting_def request_ok_def read_request_def unowned_def fd_in_range_def)

text \<open>C16: \<open>_aio_event_store\<close> on a descriptor nobody waits for, and that epoll accepts, returns
  \<open>C_OK\<close>: the descriptor is then polled for exactly the requested events, its event records the
  context and every other argument, and no other descriptor is disturbed.\<close>

theorem aio_event_store_arms:
  assumes "reg_inv rg" and "fd_in_range fd" and "slot_room rg fd" and "waiting rg fd = None"
    and "can_poll (kern rg) fd" and "unowned rg argv tm"
    and "fdtype \<in> {FD_TYPE_ACCEPT, FD_TYPE_TIMMER, FD_TYPE_NORMAL}" and "tm \<noteq> None \<longrightarrow> fdtype = FD_TYPE_TIMMER"
    and "events \<noteq> 0"
  shows "\<exists>rg' v. aio_event_store fd fdtype (Some c) cb events tm ob obname fname argv argc rg = Inr (C_OK, rg')
    \<and> reg_inv rg' \<and> interest (kern rg') fd = Some events
    \<and> event_of rg' fd = Some (v, \<lparr>ep_events = events, ep_data_fd = fd\<rparr>)
    \<and> ev_fd v = fd \<and> php_context v = Some c \<and> callback v = cb \<and> fd_type v = fdtype \<and> timer v = tm
    \<and> object v = ob \<and> object_name v = obname \<and> function_name v = fname \<and> arguments v = argv
    \<and> args_count v = argc
    \<and> (\<forall>g. fd_in_range g \<longrightarrow> g \<noteq> fd \<longrightarrow> event_of rg' g = event_of rg g \<and> interest (kern rg') g = interest (kern rg) g)"
proof -
  obtain rg' v where st: "aio_event_store fd fdtype (Some c) cb events tm ob obname fname argv argc rg = Inr (C_OK, rg')"
    and inv: "reg_inv rg'" and t: "touch rg rg' fd" and int: "interest (kern rg') fd = Some events"
    and ev: "event_of rg' fd = Some (stored_event v fdtype (Some c) cb tm ob obname fname argv argc,
           \<lparr>ep_events = events, ep_data_fd = fd\<rparr>)"
    by (rule aio_event_store_fresh [OF assms(1-4,6,5,7-9), of "Some c" cb ob obname fname argc]) auto
  have "ev_fd v = fd" using reg_invD [OF inv assms(2)] ev by (auto simp: slot_ok_def split: option.splits)
  moreover have "event_of rg' g = event_of rg g \<and> interest (kern rg') g = interest (kern rg) g"
    if "fd_in_range g" "g \<noteq> fd" for g
    using touch_event_of(1) [OF t _ that(2)] reg_invD [OF assms(1) that(1)] t that(2)
    by (simp add: touch_def)
  ultimately show ?thesis using st inv int ev by auto
qed

theorem aio_event_store_arms_witness:
  "\<exists>rg' v. aio_event_store 7 FD_TYPE_NORMAL (Some 4) None EPOLLIN None None None None None 0 reg_none = Inr (C_OK, rg')
    \<and> reg_inv rg' \<and> interest (kern rg') 7 = Some EPOLLIN
    \<and> event_of rg' 7 = Some (v, \<lparr>ep_events = EPOLLIN, ep_data_fd = 7\<rparr>) \<and> php_context v = Some 4"
proof -
  have "unowned reg_none None None" using reg_none_ok(4) by (simp add: request_ok_def read_request_def)
  then show ?thesis
    using aio_event_store_arms [OF reg_none_ok(1,5,2,3,6), where tm = None and argv = None
        and fdtype = FD_TYPE_NORMAL and events = EPOLLIN and c = 4 and cb = None and ob = None
        and obname = None and fname = None and argc = 0] by auto
qed

text \<open>While a context waits for a descriptor, a second \<open>_aio_event_store\<close> for it returns
  \<open>C_OK\<close> and changes nothing: the second context is not recorded anywhere and will never be woken
  through this descriptor.\<close>

lemma aio_event_store_first_waiter:
  assumes "reg_inv rg" and "fd_in_range fd" and "slot_room rg fd" and "waiting rg fd = None"
    and "can_poll (kern rg) fd" and "request_ok rg q"
  shows "\<exists>rg'. store_request fd q c rg = Inr (C_OK, rg') \<and> store_request fd q' c' rg' = Inr (C_OK, rg')
    \<and> waiting rg' fd = Some c"
  by (rule reg.first_waiter_wins [OF assms, of c q' c']) blast

text \<open>C28: when epoll refuses a descriptor, \<open>_aio_event_store\<close> returns \<open>C_ERR\<close>, empties the slot,
  leaves the kernel as it was, and frees what it allocated: every event and epoll structure
  that is live afterwards was live before.\<close>

theorem aio_event_store_refused_clean:
  assumes "reg_inv rg" and "fd_in_range fd" and "slot_room rg fd" and "waiting rg fd = None"
    and "\<not> can_poll (kern rg) fd"
  shows "\<exists>rg'. aio_event_store fd fdtype context cb events tm ob obname fname argv argc rg = Inr (C_ERR, rg')
    \<and> reg_inv rg' \<and> aio_event_fds rg' fd = None \<and> kern rg' = kern rg
    \<and> (\<forall>x. cells (evs rg') x \<noteq> None \<longrightarrow> cells (evs rg) x \<noteq> None)
    \<and> (\<forall>x. cells (eps rg') x \<noteq> None \<longrightarrow> cells (eps rg) x \<noteq> None)
    \<and> (\<forall>g. fd_in_range g \<longrightarrow> g \<noteq> fd \<longrightarrow> event_of rg' g = event_of rg g)"
proof -
  obtain rg' where st: "aio_event_store fd fdtype context cb events tm ob obname fname argv argc rg = Inr (C_ERR, rg')"
    and r: "reg_inv rg'" "touch rg rg' fd" "aio_event_fds rg' fd = None" "kern rg' = kern rg"
      "\<forall>x. cells (evs rg') x \<noteq> None \<longrightarrow> cells (evs rg) x \<noteq> None"
      "\<forall>x. cells (eps rg') x \<noteq> None \<longrightarrow> cells (eps rg) x \<noteq> None"
    by (rule aio_event_store_refused [OF assms, of fdtype "context" cb events tm ob obname fname argv argc])
  with touch_event_of(1) [OF r(2)] reg_invD [OF assms(1)] show ?thesis by auto
qed

theorem aio_event_store_refused_clean_witness:
  "\<exists>rg'. aio_event_store 8 FD_TYPE_NORMAL (Some 4) None EPOLLIN None None None None None 0 reg_none = Inr (C_ERR, rg')
    \<and> aio_event_fds rg' 8 = None"
  using aio_event_store_refused_clean [OF reg_none_ok(1,8,2,3,7), of FD_TYPE_NORMAL "Some 4" None EPOLLIN
      None None None None None 0] by blast

text \<open>C17: \<open>aio_event_free\<close> on the event of a descriptor returns \<open>C_OK\<close> and leaves the descriptor
  waiting for nobody and off the interest list; its argument array is freed exactly once, a timer
  descriptor is closed and its timer specification freed, and every other descriptor keeps its
  event.\<close>

theorem aio_event_free_disarms:
  assumes "reg_inv rg" and "fd_in_range fd" and "event_of rg fd = Some (v, e)"
  shows "\<exists>rg'. aio_event_free (aio_event_fds rg fd) rg = Inr (C_OK, rg') \<and> reg_inv rg'
    \<and> waiting rg' fd = None \<and> interest (kern rg') fd = None
    \<and> (\<forall>p. arguments v = Some p \<longrightarrow> cells (argvs rg') p = None)
    \<and> (fd_type v = FD_TYPE_TIMMER \<longrightarrow> fl_flags (kern rg') fd = None
        \<and> (\<forall>p. timer v = Some p \<longrightarrow> cells (timers rg') p = None))
    \<and> (\<forall>g. fd_in_range g \<longrightarrow> g \<noteq> fd \<longrightarrow> event_of rg' g = event_of rg g \<and> interest (kern rg') g = interest (kern rg) g)"
proof -
  obtain rg' where fr: "aio_event_free (aio_event_fds rg fd) rg = Inr (C_OK, rg')" "reg_inv rg'"
    "waiting rg' fd = None" "interest (kern rg') fd = None" and t: "touch rg rg' fd"
    and argv: "\<forall>v e p. event_of rg fd = Some (v, e) \<longrightarrow> arguments v = Some p \<longrightarrow> cells (argvs rg') p = None"
    and tm: "\<forall>v e. event_of rg fd = Some (v, e) \<longrightarrow> fd_type v = FD_TYPE_TIMMER \<longrightarrow>
       fl_flags (kern rg') fd = None \<and> (\<forall>p. timer v = Some p \<longrightarrow> cells (timers rg') p = None)"
    by (rule aio_event_free_slot [OF assms(1,2)])
  have "event_of rg' g = event_of rg g \<and> interest (kern rg') g = interest (kern rg) g"
    if "fd_in_range g" "g \<noteq> fd" for g
    using touch_event_of(1) [OF t _ that(2)] reg_invD [OF assms(1) that(1)] t that(2)
    by (simp add: touch_def)
  with fr argv tm assms(3) show ?thesis by blast
qed

text \<open>Descriptor 7 armed as a timer, its specification at address 0.\<close>

definition reg_timer :: react where
  "reg_timer = reg_none\<lparr>aio_event_fds := (\<lambda>_. None)(7 := Some 0),
     evs := \<lparr>cells = (\<lambda>_. None)(0 := Some (zero_event\<lparr>ev_fd := 7, php_context := Some 4, ep_event := Some 0,
        fd_type := FD_TYPE_TIMMER, timer := Some 0\<rparr>)), fresh = 1, oom = \<lambda>_. False\<rparr>,
     eps := \<lparr>cells = (\<lambda>_. None)(0 := Some \<lparr>ep_events = EPOLLIN, ep_data_fd = 7\<rparr>), fresh = 1, oom = \<lambda>_. False\<rparr>,
     timers := \<lparr>cells = (\<lambda>_. None)(0 := Some \<lparr>value_sec = 5, value_nsec = 0, interval_sec = 0, interval_nsec = 0\<rparr>), fresh = 1, oom = \<lambda>_. False\<rparr>,
     kern := (kern reg_none)\<lparr>interest := (\<lambda>_. None)(7 := Some EPOLLIN)\<rparr>\<rparr>"

lemma reg_timer_ok: "reg_inv reg_timer"
  "event_of reg_timer 7 = Some (zero_event\<lparr>ev_fd := 7, php_context := Some 4, ep_event := Some 0,
        fd_type := FD_TYPE_TIMMER, timer := Some 0\<rparr>, \<lparr>ep_events = EPOLLIN, ep_data_fd = 7\<rparr>)"
  by (auto simp: reg_inv_def reg_timer_def reg_none_def slot_ok_def owns_def shares_def event_of_def
      wf_heap_def zero_event_def idle_event_def armed_event_def)

theorem aio_event_free_disarms_witness:
  "\<exists>rg'. aio_event_free (aio_event_fds reg_timer 7) reg_timer = Inr (C_OK, rg') \<and> waiting rg' 7 = None
    \<and> fl_flags (kern rg') 7 = None \<and> cells (timers rg') 0 = None"
proof -
  note aio_event_free_disarms [OF reg_timer_ok(1) reg_none_ok(5) reg_timer_ok(2)]
  then show ?thesis by (fastforce simp: zero_event_def)
qed

text \<open>\<open>socket_setnonblock\<close> on an open descriptor sets \<open>O_NONBLOCK\<close> (bit 11), keeps every other
  status flag and every other descriptor, and a second call changes nothing; on a closed descriptor, or
  when the flags cannot be set, it returns \<open>C_ERR\<close> and changes nothing.\<close>

lemma socket_setnonblock_flag:
  assumes "socket_setnonblock setfl fd k = (r, k')"
  shows "(case fl_flags k fd of
      None \<Rightarrow> r = C_ERR \<and> k' = k
    | Some f \<Rightarrow> if setfl then r = C_OK \<and> socket_setnonblock True fd k' = (C_OK, k')
        \<and> (\<exists>f'. fl_flags k' fd = Some f' \<and> (\<forall>n. bit f' n \<longleftrightarrow> n = 11 \<or> bit f n)) else r = C_ERR \<and> k' = k)
    \<and> (\<forall>g. g \<noteq> fd \<longrightarrow> fl_flags k' g = fl_flags k g)"
proof (cases "fl_flags k fd")
  case None
  then show ?thesis using assms by (simp add: socket_setnonblock_def)
next
  case (Some f)
  have n: "(2048 :: int) = push_bit 11 1" by (simp add: push_bit_eq_mult)
  have "bit (2048 :: int) m \<longleftrightarrow> m = 11" for m unfolding n bit_push_bit_iff_int bit_1_iff by auto
  then have "bit (f OR 2048) m \<longleftrightarrow> m = 11 \<or> bit f m" for m by (auto simp: bit_or_iff)
  moreover have "(f OR 2048) OR 2048 = f OR 2048" by (simp add: or.assoc)
  ultimately show ?thesis using assms Some by (auto simp: socket_setnonblock_def Let_def)
qed

end
