(* ===== verification/World.thy ===== *)
theory World
  imports Cidmap Events
begin

text \<open>
  The global state the extension works on, with the part of the Zend engine's state it saves and
  restores (\<open>executor_globals\<close>), the C control effects it uses (return, \<open>setjmp\<close> and
  \<open>longjmp\<close>, faults), and the parameter that stands for the Zend engine.
\<close>

section \<open>State\<close>

text \<open>
  A pointer into a VM stack page: the page and a byte offset. \<open>None\<close> is \<open>NULL\<close>.
\<close>

type_synonym vmpos = "(addr \<times> int) option"

record executor_globals =
  vm_stack :: ptr
  vm_stack_top :: vmpos
  vm_stack_end :: vmpos
  current_execute_data :: ptr
  exception :: bool

record coro_task =
  cid :: int
  task_function :: ptr
  start_time :: int
  post_callback :: ptr
  post_callback_params :: ptr

text \<open>
  A page of the VM stack. \<open>pg_task\<close> gives the task records written into the page, by offset; what
  the engine keeps in the page is part of the engine's own state.
\<close>

record vm_page =
  pg_size :: int
  pg_top :: vmpos
  pg_end :: vmpos
  pg_prev :: ptr
  pg_task :: "int \<Rightarrow> coro_task option"

record php_context =
  ctx_return_value :: ptr
  ctx_execute_data :: ptr
  ctx_vm_stack :: ptr
  ctx_vm_stack_top :: vmpos
  ctx_vm_stack_end :: vmpos
  ctx_task :: vmpos
  ctx_allocated_return :: ptr

record coro_global =
  coro_num :: u32
  max_coro_num :: u32
  stack_size :: u32
  origin_vm_stack :: ptr
  origin_vm_stack_top :: vmpos
  origin_vm_stack_end :: vmpos
  allocated_return_value_ptr :: ptr
  origin_ex :: ptr
  current_coro :: vmpos
  require :: bool

text \<open>
  \<open>jmps\<close> holds the jump buffers: each names the \<open>setjmp\<close> call that filled it last, by the
  number \<open>setjmps\<close> had then, or \<open>None\<close> when it was never filled. A context that was allocated but
  not saved yet is \<open>None\<close> in \<open>ctxs\<close>. \<open>zend\<close> is the rest of the engine's state.
\<close>

record 'z world =
  eg :: executor_globals
  corog :: coro_global
  checkPoint :: ptr
  jmps :: "nat option heap"
  setjmps :: nat
  vm_pages :: "vm_page heap"
  ctxs :: "php_context option heap"
  zvs :: "zval heap"
  fcaches :: "nat heap"
  cids :: cidmap
  cid_context_map :: "int \<Rightarrow> ptr"
  rg :: react
  zend :: 'z

section \<open>Control\<close>

text \<open>
  How a call ends: it returns, or a \<open>longjmp\<close> is on its way to the \<open>setjmp\<close> call of the given
  number, or the program has gone wrong, or the fuel of the interpreter of PHP code is used up.
\<close>

datatype ('z, 'a) outcome =
    Ret 'a "'z world" | Jump nat "'z world" | Fault fault | OutOfFuel

type_synonym ('z, 'a) code = "'z world \<Rightarrow> ('z, 'a) outcome"

primrec bind_o :: "('z, 'a) outcome \<Rightarrow> ('a \<Rightarrow> ('z, 'b) code) \<Rightarrow> ('z, 'b) outcome" where
  "bind_o (Ret x w) f = f x w"
| "bind_o (Jump t w) f = Jump t w"
| "bind_o (Fault e) f = Fault e"
| "bind_o OutOfFuel f = OutOfFuel"

definition bind_c :: "('z, 'a) code \<Rightarrow> ('a \<Rightarrow> ('z, 'b) code) \<Rightarrow> ('z, 'b) code" where
  "bind_c m f w = bind_o (m w) f"

definition seq_c :: "('z, unit) code \<Rightarrow> ('z, 'b) code \<Rightarrow> ('z, 'b) code" where
  "seq_c m k w = bind_o (m w) (\<lambda>_. k)"

definition ret_c :: "'a \<Rightarrow> ('z, 'a) code" where
  "ret_c x w = Ret x w"

definition get_c :: "('z world \<Rightarrow> 'a) \<Rightarrow> ('z, 'a) code" where
  "get_c f w = Ret (f w) w"

definition upd_c :: "('z world \<Rightarrow> 'z world) \<Rightarrow> ('z, unit) code" where
  "upd_c f w = Ret () (f w)"

definition try_c :: "('z world \<Rightarrow> 'a res) \<Rightarrow> ('z, 'a) code" where
  "try_c f w = (case f w of Inl e \<Rightarrow> Fault e | Inr x \<Rightarrow> Ret x w)"

definition try_upd :: "('z world \<Rightarrow> 'z world res) \<Rightarrow> ('z, unit) code" where
  "try_upd f w = (case f w of Inl e \<Rightarrow> Fault e | Inr w' \<Rightarrow> Ret () w')"

text \<open>A step on the registry that returns a status.\<close>

definition rg_c :: "(react \<Rightarrow> ('a \<times> react) res) \<Rightarrow> ('z, 'a) code" where
  "rg_c f w = (case f (rg w) of Inl e \<Rightarrow> Fault e | Inr (x, r) \<Rightarrow> Ret x (w\<lparr>rg := r\<rparr>))"

text \<open>
  \<open>if (!setjmp(*checkPoint)) body else jumped\<close>. The buffer the global \<open>checkPoint\<close> points to
  when \<open>setjmp\<close> is called is filled with the number of this call; a jump to another call passes
  through.
\<close>

definition setjmp_c :: "('z, 'a) code \<Rightarrow> ('z, 'a) code \<Rightarrow> ('z, 'a) code" where
  "setjmp_c body jumped w =
     (let tok = setjmps w in
      case modify (checkPoint w) (\<lambda>_. Some tok) (jmps w) of
        Inl e \<Rightarrow> Fault e
      | Inr h \<Rightarrow> (case body (w\<lparr>jmps := h, setjmps := Suc tok\<rparr>) of
           Jump t w' \<Rightarrow> (if t = tok then jumped w' else Jump t w')
         | other \<Rightarrow> other))"

definition longjmp_c :: "('z, 'a) code" where
  "longjmp_c w =
     (case load (checkPoint w) (jmps w) of
        Inl e \<Rightarrow> Fault e
      | Inr None \<Rightarrow> Fault Uninitialised
      | Inr (Some t) \<Rightarrow> Jump t w)"

text \<open>A call from code that no \<open>setjmp\<close> encloses: a jump then has nowhere to go.\<close>

definition top_level :: "('z, 'a) code \<Rightarrow> ('z, 'a) code" where
  "top_level m w = (case m w of Jump t w' \<Rightarrow> Fault BadJump | other \<Rightarrow> other)"

section \<open>The Zend engine\<close>

text \<open>
  What the extension calls of the engine, as functions on the executor globals and the engine's own
  state: pushing a call frame for a function and giving it its arguments, preparing it for
  execution with the address of its return value, releasing the frame of a finished internal call
  (\<open>This\<close>, arguments and frame), the previous frame of a frame, whether the current opline uses its
  result, stepping the opline, copying a value into a return slot, destroying a value and taking a
  reference to it, checking that a value is callable, reading a \<open>long\<close> or \<open>bool\<close> parameter
  (\<open>None\<close> when the conversion fails) and the array of parameters, calling an internal function or
  method, which may change the descriptors of the process. \<open>zend_execute_ex\<close> is not here: it calls
  back into the extension and is a separate argument.
\<close>

record 'z engine =
  push_call_frame :: "nat \<Rightarrow> int \<Rightarrow> executor_globals \<Rightarrow> 'z \<Rightarrow> addr \<times> executor_globals \<times> 'z"
  set_args :: "addr \<Rightarrow> zval list \<Rightarrow> 'z \<Rightarrow> 'z"
  init_execute_data :: "addr \<Rightarrow> addr \<Rightarrow> executor_globals \<Rightarrow> 'z \<Rightarrow> executor_globals \<times> 'z"
  release_frame :: "addr \<Rightarrow> executor_globals \<Rightarrow> 'z \<Rightarrow> executor_globals \<times> 'z"
  prev_execute_data :: "addr \<Rightarrow> 'z \<Rightarrow> ptr"
  result_used :: "addr \<Rightarrow> 'z \<Rightarrow> bool"
  opline_inc :: "addr \<Rightarrow> 'z \<Rightarrow> 'z"
  zval_copy :: "addr \<Rightarrow> zval \<Rightarrow> 'z \<Rightarrow> 'z"
  zval_ptr_dtor :: "zval \<Rightarrow> 'z \<Rightarrow> 'z"
  zval_add_ref :: "zval \<Rightarrow> 'z \<Rightarrow> 'z"
  callable :: "zval \<Rightarrow> 'z \<Rightarrow> nat option"
  parse_long :: "zval \<Rightarrow> int option"
  parse_bool :: "zval \<Rightarrow> bool option"
  parameters_ok :: "zval list \<Rightarrow> 'z \<Rightarrow> bool"
  php :: "'z \<Rightarrow> php_env"
  call_user_function :: "zval option \<Rightarrow> string \<Rightarrow> zval list \<Rightarrow> kernel \<Rightarrow> 'z \<Rightarrow> zval \<times> kernel \<times> 'z"

text \<open>
  The operating system: the answers of \<open>time\<close>, \<open>epoll_create\<close>, \<open>timerfd_create\<close>,
  \<open>clock_gettime\<close> (\<open>None\<close> when it fails) and \<open>gettimeofday\<close>, and what \<open>epoll_wait\<close> reports:
  masks and descriptors. The answers may depend on anything outside the extension and change it.
\<close>

record 'z system =
  sys_time :: "'z \<Rightarrow> int"
  sys_epoll_create :: "'z \<Rightarrow> int \<times> 'z"
  sys_timerfd_create :: "'z \<Rightarrow> int \<times> 'z"
  sys_clock_gettime :: "'z \<Rightarrow> (int \<times> int) option \<times> 'z"
  sys_gettimeofday :: "'z \<Rightarrow> (int \<times> int) \<times> 'z"
  sys_epoll_wait :: "react \<Rightarrow> 'z \<Rightarrow> epoll_event list \<times> 'z"

section \<open>Lemmas\<close>

named_theorems run_c \<open>running the statements of the model\<close>

lemma bind_c_run [run_c]: "bind_c m f w = bind_o (m w) f" by (simp add: bind_c_def)
lemma seq_c_run [run_c]: "seq_c m k w = bind_o (m w) (\<lambda>_. k)" by (simp add: seq_c_def)
lemma ret_c_run [run_c]: "ret_c x w = Ret x w" by (simp add: ret_c_def)
lemma get_c_run [run_c]: "get_c f w = Ret (f w) w" by (simp add: get_c_def)
lemma upd_c_run [run_c]: "upd_c f w = Ret () (f w)" by (simp add: upd_c_def)
lemma try_c_run [run_c]: "f w = Inr x \<Longrightarrow> try_c f w = Ret x w" by (simp add: try_c_def)
lemma try_c_fault [run_c]: "f w = Inl e \<Longrightarrow> try_c f w = Fault e" by (simp add: try_c_def)
lemma try_upd_run [run_c]: "f w = Inr w' \<Longrightarrow> try_upd f w = Ret () w'" by (simp add: try_upd_def)
lemma try_upd_fault [run_c]: "f w = Inl e \<Longrightarrow> try_upd f w = Fault e" by (simp add: try_upd_def)
lemma rg_c_run [run_c]: "f (rg w) = Inr (x, r) \<Longrightarrow> rg_c f w = Ret x (w\<lparr>rg := r\<rparr>)" by (simp add: rg_c_def)
lemma rg_c_fault [run_c]: "f (rg w) = Inl e \<Longrightarrow> rg_c f w = Fault e" by (simp add: rg_c_def)

lemma bind_o_Ret_iff: "bind_o m f = Ret y w' \<longleftrightarrow> (\<exists>x w1. m = Ret x w1 \<and> f x w1 = Ret y w')"
  by (cases m) simp_all

lemma bind_o_assoc: "bind_o (bind_o m f) g = bind_o m (\<lambda>x w. bind_o (f x w) g)"
  by (cases m) simp_all

text \<open>Code that never makes a jump.\<close>

definition calm :: "('z, 'a) code \<Rightarrow> bool" where
  "calm m \<longleftrightarrow> (\<forall>w t w'. m w \<noteq> Jump t w')"

named_theorems calm_intros \<open>code without jumps\<close>

lemma calm_bind [calm_intros]: "calm m \<Longrightarrow> (\<And>x. calm (f x)) \<Longrightarrow> calm (bind_c m f)"
  unfolding calm_def bind_c_def by (metis bind_o.simps outcome.exhaust)

lemma calm_seq [calm_intros]: "calm m \<Longrightarrow> calm k \<Longrightarrow> calm (seq_c m k)"
  unfolding calm_def seq_c_def by (metis bind_o.simps outcome.exhaust)

lemma calm_basic [calm_intros]: "calm (ret_c x)" "calm (get_c g)" "calm (upd_c f)" "calm (try_c h)" "calm (try_upd u)"
    "calm (rg_c r)"
  by (simp_all add: calm_def ret_c_def get_c_def upd_c_def try_c_def try_upd_def rg_c_def split: sum.splits prod.splits)

text \<open>
  \<open>tok_at w b\<close>: the \<open>setjmp\<close> call recorded in buffer \<open>b\<close>.
\<close>

definition tok_at :: "'z world \<Rightarrow> ptr \<Rightarrow> nat option" where
  "tok_at w b = (case b of None \<Rightarrow> None | Some a \<Rightarrow> (case cells (jmps w) a of None \<Rightarrow> None | Some t \<Rightarrow> t))"

lemma tok_at_jmps: "jmps w' = jmps w \<Longrightarrow> tok_at w' b = tok_at w b"
  unfolding tok_at_def by (cases b) simp_all

lemma longjmp_c_tok:
  "longjmp_c w = Jump t w' \<longleftrightarrow> w' = w \<and> tok_at w (checkPoint w) = Some t"
  by (auto simp: longjmp_c_def tok_at_def load_def split: option.splits sum.splits)

lemma setjmp_c_live:
  assumes "checkPoint w = Some b" and "cells (jmps w) b \<noteq> None"
  shows "setjmp_c body jumped w =
    (case body (w\<lparr>jmps := (jmps w)\<lparr>cells := (cells (jmps w))(b := Some (Some (setjmps w)))\<rparr>,
        setjmps := Suc (setjmps w)\<rparr>) of
       Jump t w' \<Rightarrow> (if t = setjmps w then jumped w' else Jump t w') | other \<Rightarrow> other)"
  using assms by (auto simp: setjmp_c_def Let_def)

end
