(* ===== verification/Coroutine.thy ===== *)
theory Coroutine
  imports World
begin

text \<open>
  The coroutine life cycle of \<open>coroutine_util.c\<close>: initialisation, creation, saving, resuming,
  yielding and closing. \<open>ex\<close> is \<open>zend_execute_ex\<close>: it runs PHP code, which may call the
  extension again. The branches for PHP 7.2 and later are the ones modelled.
\<close>

section \<open>Operations\<close>

abbreviation (input) CORO_END :: int where "CORO_END \<equiv> 0"
abbreviation (input) CORO_YIELD :: int where "CORO_YIELD \<equiv> 1"
abbreviation (input) CORO_LIMIT :: int where "CORO_LIMIT \<equiv> 2"

definition DEFAULT_MAX_CORO_NUM :: u32 where "DEFAULT_MAX_CORO_NUM = 3000"
definition DEFAULT_STACK_SIZE :: u32 where "DEFAULT_STACK_SIZE = 8192"

text \<open>
  Sizes of the 64-bit ABI: a \<open>zval\<close> is 16 bytes, the header of a stack page 24 bytes and so two
  slots, a \<open>coro_task\<close> 40 bytes and so three slots.
\<close>

definition zval_size :: int where "zval_size = 16"
definition stack_elements :: int where "stack_elements = 2 * zval_size"
definition sizeof_task :: int where "sizeof_task = 40"
definition TASK_SLOT :: int where "TASK_SLOT = (sizeof_task + zval_size - 1) div zval_size"

text \<open>The answer of \<open>epoll_create\<close> is not checked.\<close>

definition coro_init :: "'z system \<Rightarrow> ('z, unit) code" where
  "coro_init sys =
     seq_c (upd_c (\<lambda>w. w\<lparr>corog := (corog w)\<lparr>
        origin_vm_stack := vm_stack (eg w), origin_vm_stack_top := vm_stack_top (eg w),
        origin_vm_stack_end := vm_stack_end (eg w), origin_ex := current_execute_data (eg w),
        coro_num := 0,
        max_coro_num := (if max_coro_num (corog w) = 0 then DEFAULT_MAX_CORO_NUM else max_coro_num (corog w)),
        stack_size := (if stack_size (corog w) = 0 then DEFAULT_STACK_SIZE else stack_size (corog w)),
        require := False\<rparr>\<rparr>))
     (seq_c (upd_c (\<lambda>w. let (epfd, z) = sys_epoll_create sys (zend w) in
        w\<lparr>zend := z, rg := (rg w)\<lparr>rg_init := 1, epollfd := epfd, nfds := 0, aio_event_fds := (\<lambda>_. None),
        kern := (kern (rg w))\<lparr>epoll_inst := (if epfd = -1 then epoll_inst (kern (rg w)) else Some epfd),
          interest := (if epfd = -1 then interest (kern (rg w)) else (\<lambda>_. None))\<rparr>\<rparr>\<rparr>))
     (upd_c (\<lambda>w. let (b, h) = emalloc None (jmps w) in w\<lparr>jmps := h, checkPoint := Some b\<rparr>)))"

definition c_vm_stack_init :: "('z, unit) code" where
  "c_vm_stack_init = upd_c (\<lambda>w.
     let size = uint (stack_size (corog w));
         a = fresh (vm_pages w);
         (p, h) = emalloc \<lparr>pg_size = size, pg_top = Some (a, stack_elements + zval_size), pg_end = Some (a, size),
            pg_prev = None, pg_task = (\<lambda>_. None)\<rparr> (vm_pages w)
     in w\<lparr>vm_pages := h, eg := (eg w)\<lparr>vm_stack := Some p, vm_stack_top := Some (a, stack_elements + zval_size),
          vm_stack_end := Some (a, size)\<rparr>\<rparr>)"

text \<open>Access to the task \<open>COROG.current_coro\<close> points to.\<close>

definition task_cell :: "vmpos \<Rightarrow> 'z world \<Rightarrow> (addr \<times> int \<times> vm_page) res" where
  "task_cell q w = (case q of None \<Rightarrow> Inl NullDeref
     | Some (a, off) \<Rightarrow> bind_res (load (Some a) (vm_pages w)) (\<lambda>pg.
         if off < 0 \<or> pg_size pg < off + sizeof_task then Inl OutOfBounds else Inr (a, off, pg)))"

definition load_task :: "vmpos \<Rightarrow> 'z world \<Rightarrow> coro_task res" where
  "load_task q w = bind_res (task_cell q w) (\<lambda>(a, off, pg).
     case pg_task pg off of None \<Rightarrow> Inl Uninitialised | Some t \<Rightarrow> Inr t)"

definition store_task :: "vmpos \<Rightarrow> coro_task \<Rightarrow> 'z world \<Rightarrow> 'z world res" where
  "store_task q t w = bind_res (task_cell q w) (\<lambda>(a, off, pg).
     Inr (w\<lparr>vm_pages := (vm_pages w)\<lparr>cells := (cells (vm_pages w))(a := Some (pg\<lparr>pg_task := (pg_task pg)(off := Some t)\<rparr>))\<rparr>\<rparr>))"

definition efree_zval :: "'z engine \<Rightarrow> bool \<Rightarrow> ptr \<Rightarrow> 'z world \<Rightarrow> 'z world res" where
  "efree_zval eng dtor p w =
     bind_res (if dtor then bind_res (load p (zvs w)) (\<lambda>z. Inr (zval_ptr_dtor eng z (zend w))) else Inr (zend w)) (\<lambda>zs.
     bind_res (free_cell p (zvs w)) (\<lambda>h. Inr (w\<lparr>zvs := h, zend := zs\<rparr>)))"

text \<open>\<open>c_zval_free\<close>: destroy the value, then free its cell.\<close>

definition c_zval_free :: "'z engine \<Rightarrow> ptr \<Rightarrow> 'z world \<Rightarrow> 'z world res" where
  "c_zval_free eng p = efree_zval eng True p"

definition c_zval_dup :: "zval \<Rightarrow> ('z, ptr) code" where
  "c_zval_dup z w = (let (p, h) = emalloc z (zvs w) in Ret (Some p) (w\<lparr>zvs := h\<rparr>))"

text \<open>
  Closing the current coroutine: its callback is dropped, then \<open>coro_release\<close> gives back the id \<open>c\<close>,
  the stack page and the return value.
\<close>

definition coro_release :: "'z engine \<Rightarrow> int \<Rightarrow> ('z, unit) code" where
  "coro_release eng c =
     seq_c (try_upd (\<lambda>w. bind_res (free_cidmap c (cids w)) (\<lambda>m. Inr (w\<lparr>cids := m\<rparr>))))
     (seq_c (try_upd (\<lambda>w. bind_res (free_cell (vm_stack (eg w)) (vm_pages w)) (\<lambda>h. Inr (w\<lparr>vm_pages := h\<rparr>))))
     (seq_c (try_upd (\<lambda>w. efree_zval eng False (allocated_return_value_ptr (corog w)) w))
     (upd_c (\<lambda>w. w\<lparr>eg := (eg w)\<lparr>vm_stack := origin_vm_stack (corog w), vm_stack_top := origin_vm_stack_top (corog w),
           vm_stack_end := origin_vm_stack_end (corog w)\<rparr>,
         corog := (corog w)\<lparr>coro_num := coro_num (corog w) - 1, current_coro := None\<rparr>\<rparr>))))"

definition coro_drop :: "'z engine \<Rightarrow> coro_task \<Rightarrow> ('z, unit) code" where
  "coro_drop eng t =
     (if task_function t \<noteq> None
      then try_upd (\<lambda>w. bind_res (c_zval_free eng (task_function t) w)
             (store_task (current_coro (corog w)) (t\<lparr>task_function := None\<rparr>)))
      else ret_c ())"

definition coro_close :: "'z engine \<Rightarrow> ('z, unit) code" where
  "coro_close eng =
     bind_c (try_c (\<lambda>w. load_task (current_coro (corog w)) w)) (\<lambda>t.
     seq_c (coro_drop eng t) (coro_release eng (cid t)))"

text \<open>
  The part of \<open>c_coro_create\<close> from the new stack to the \<open>setjmp\<close>; it returns the call frame.
\<close>

definition coro_enter :: "'z engine \<Rightarrow> 'z system \<Rightarrow> nat \<Rightarrow> zval list \<Rightarrow> ptr \<Rightarrow> ptr \<Rightarrow> int \<Rightarrow> ('z, addr) code" where
  "coro_enter eng sys fci argv post params c =
     seq_c c_vm_stack_init
     (seq_c (upd_c (\<lambda>w. w\<lparr>corog := (corog w)\<lparr>current_coro := vm_stack_top (eg w)\<rparr>,
        eg := (eg w)\<lparr>vm_stack_top := map_option (\<lambda>(a, off). (a, off + TASK_SLOT * zval_size)) (vm_stack_top (eg w))\<rparr>\<rparr>))
     (bind_c (\<lambda>w. let (call, e, z) = push_call_frame eng fci (int (length argv)) (eg w) (zend w) in Ret call (w\<lparr>eg := e, zend := z\<rparr>)) (\<lambda>call.
     seq_c (upd_c (\<lambda>w. w\<lparr>zend := set_args eng call argv (zend w)\<rparr>))
     (seq_c (upd_c (\<lambda>w. let (r, h) = emalloc ZUndef (zvs w) in
        w\<lparr>zvs := h, corog := (corog w)\<lparr>allocated_return_value_ptr := Some r\<rparr>,
          eg := (eg w)\<lparr>current_execute_data := None\<rparr>\<rparr>))
     (seq_c (upd_c (\<lambda>w. let (e, z) = init_execute_data eng call (the (allocated_return_value_ptr (corog w))) (eg w) (zend w) in
        w\<lparr>eg := e, zend := z\<rparr>))
     (seq_c (upd_c (\<lambda>w. w\<lparr>corog := (corog w)\<lparr>coro_num := coro_num (corog w) + 1\<rparr>\<rparr>))
     (seq_c (try_upd (\<lambda>w. store_task (current_coro (corog w)) \<lparr>cid = c, task_function = None,
        start_time = sys_time sys (zend w), post_callback = post, post_callback_params = params\<rparr> w))
     (seq_c (upd_c (\<lambda>w. w\<lparr>corog := (corog w)\<lparr>require := True\<rparr>\<rparr>))
     (ret_c call)))))))))"

text \<open>\<open>if (!setjmp(*checkPoint)) { zend_execute_ex(frame); coro_close(); END } else YIELD\<close>, then
  \<open>COROG.require = 0\<close>: the end of both \<open>c_coro_create\<close> and \<open>c_coro_resume\<close>.\<close>

definition coro_run :: "'z engine \<Rightarrow> (addr \<Rightarrow> ('z, unit) code) \<Rightarrow> addr \<Rightarrow> ('z, int) code" where
  "coro_run eng ex frame =
     bind_c (setjmp_c (seq_c (ex frame) (seq_c (coro_close eng) (ret_c CORO_END))) (ret_c CORO_YIELD)) (\<lambda>status.
     seq_c (upd_c (\<lambda>w. w\<lparr>corog := (corog w)\<lparr>require := False\<rparr>\<rparr>)) (ret_c status))"

definition c_coro_create :: "'z engine \<Rightarrow> 'z system \<Rightarrow> (addr \<Rightarrow> ('z, unit) code) \<Rightarrow> nat \<Rightarrow> zval list \<Rightarrow> ptr \<Rightarrow> ptr \<Rightarrow> ('z, int) code" where
  "c_coro_create eng sys ex fci argv post params =
     bind_c (\<lambda>w. case alloc_cidmap (cids w) of Inl e \<Rightarrow> Fault e | Inr (c, m) \<Rightarrow> Ret c (w\<lparr>cids := m\<rparr>)) (\<lambda>c.
     bind_c (get_c (\<lambda>w. max_coro_num (corog w) \<le> coro_num (corog w))) (\<lambda>full.
     if full \<and> c \<noteq> -1 then ret_c CORO_LIMIT
     else bind_c (coro_enter eng sys fci argv post params c) (coro_run eng ex)))"

text \<open>\<open>c_coro_save(return_value, context)\<close>.\<close>

definition c_coro_save :: "ptr \<Rightarrow> ptr \<Rightarrow> ('z, unit) code" where
  "c_coro_save return_value ctx = try_upd (\<lambda>w.
     bind_res (modify ctx (\<lambda>_. Some \<lparr>ctx_return_value = return_value,
        ctx_execute_data = current_execute_data (eg w), ctx_vm_stack = vm_stack (eg w),
        ctx_vm_stack_top = vm_stack_top (eg w), ctx_vm_stack_end = vm_stack_end (eg w),
        ctx_task = current_coro (corog w),
        ctx_allocated_return = allocated_return_value_ptr (corog w)\<rparr>) (ctxs w)) (\<lambda>h. Inr (w\<lparr>ctxs := h\<rparr>)))"

definition load_ctx :: "ptr \<Rightarrow> ('z, php_context) code" where
  "load_ctx ctx = try_c (\<lambda>w. bind_res (load ctx (ctxs w)) (\<lambda>c. case c of None \<Rightarrow> Inl Uninitialised | Some x \<Rightarrow> Inr x))"

text \<open>The first part of \<open>c_coro_resume\<close>: switching to the saved coroutine and finishing the call it
  was suspended in, up to the \<open>setjmp\<close>. \<open>retval\<close> is the value to deliver, \<open>None\<close> for \<open>NULL\<close>.\<close>

definition coro_reenter :: "'z engine \<Rightarrow> ptr \<Rightarrow> zval option \<Rightarrow> ('z, addr) code" where
  "coro_reenter eng ctx retval =
     bind_c (load_ctx ctx) (\<lambda>x.
     seq_c (upd_c (\<lambda>w. w\<lparr>eg := (eg w)\<lparr>vm_stack := ctx_vm_stack x, vm_stack_top := ctx_vm_stack_top x,
        vm_stack_end := ctx_vm_stack_end x\<rparr>\<rparr>))
     (bind_c (try_c (\<lambda>w. case ctx_execute_data x of None \<Rightarrow> Inl NullDeref | Some cur \<Rightarrow> Inr cur)) (\<lambda>cur.
     seq_c (upd_c (\<lambda>w. let (e, z) = release_frame eng cur (eg w) (zend w) in w\<lparr>eg := e, zend := z\<rparr>))
     (seq_c (upd_c (\<lambda>w. w\<lparr>eg := (eg w)\<lparr>current_execute_data := prev_execute_data eng cur (zend w)\<rparr>,
        corog := (corog w)\<lparr>current_coro := ctx_task x, require := True,
          allocated_return_value_ptr := ctx_allocated_return x\<rparr>\<rparr>))
     (bind_c (try_c (\<lambda>w. case current_execute_data (eg w) of None \<Rightarrow> Inl NullDeref | Some f \<Rightarrow> Inr f)) (\<lambda>f.
     seq_c (\<lambda>w. if result_used eng f (zend w)
        then (case (ctx_return_value x, retval) of
            (Some d, Some z) \<Rightarrow> Ret () (w\<lparr>zend := zval_copy eng d z (zend w)\<rparr>)
          | _ \<Rightarrow> Fault NullDeref)
        else Ret () w)
     (seq_c (upd_c (\<lambda>w. w\<lparr>zend := opline_inc eng f (zend w)\<rparr>))
     (ret_c f))))))))"

definition c_coro_resume :: "'z engine \<Rightarrow> (addr \<Rightarrow> ('z, unit) code) \<Rightarrow> ptr \<Rightarrow> zval option \<Rightarrow> ('z, int) code" where
  "c_coro_resume eng ex ctx retval =
     bind_c (bind_c (coro_reenter eng ctx retval) (coro_run eng ex)) (\<lambda>status w.
       if status = CORO_END \<and> exception (eg w)
       then (case retval of None \<Rightarrow> Fault NullDeref | Some z \<Rightarrow> Fault ProcessExit)
       else Ret status w)"

definition c_coro_resume_parent :: "ptr \<Rightarrow> ('z, int) code" where
  "c_coro_resume_parent ctx =
     bind_c (load_ctx ctx) (\<lambda>x.
     seq_c (upd_c (\<lambda>w. w\<lparr>eg := (eg w)\<lparr>vm_stack := ctx_vm_stack x, vm_stack_top := ctx_vm_stack_top x,
          vm_stack_end := ctx_vm_stack_end x, current_execute_data := ctx_execute_data x\<rparr>,
        corog := (corog w)\<lparr>current_coro := ctx_task x, allocated_return_value_ptr := ctx_allocated_return x\<rparr>\<rparr>))
     (ret_c CORO_END))"

definition coro_yield :: "('z, 'a) code" where
  "coro_yield =
     seq_c (upd_c (\<lambda>w. w\<lparr>eg := (eg w)\<lparr>vm_stack := origin_vm_stack (corog w),
        vm_stack_top := origin_vm_stack_top (corog w), vm_stack_end := origin_vm_stack_end (corog w)\<rparr>\<rparr>))
     longjmp_c"

end
