(* ===== verification/Methods.thy ===== *)
theory Methods
  imports Coroutine
begin

text \<open>
  The PHP functions and methods of \<open>coroutine.c\<close> that coroutines call: creating, yielding and
  resuming coroutines, waiting for sockets, timers and PDO connections. Each takes the parsed or
  raw parameters and the address of the return slot, and returns the PHP value it leaves there.
\<close>

section \<open>Creating, yielding, resuming\<close>

definition efree_ctx :: "ptr \<Rightarrow> ('z, unit) code" where
  "efree_ctx ctx = try_upd (\<lambda>w. bind_res (free_cell ctx (ctxs w)) (\<lambda>h. Inr (w\<lparr>ctxs := h\<rparr>)))"

definition emalloc_ctx :: "('z, ptr) code" where
  "emalloc_ctx w = (let (p, h) = emalloc None (ctxs w) in Ret (Some p) (w\<lparr>ctxs := h\<rparr>))"

text \<open>\<open>prev_checkpoint = checkPoint; checkPoint = emalloc(sizeof(jmp_buf));\<close>\<close>

definition push_checkpoint :: "('z, ptr) code" where
  "push_checkpoint w = (let (p, h) = emalloc None (jmps w) in Ret (checkPoint w) (w\<lparr>jmps := h, checkPoint := Some p\<rparr>))"

definition efree_checkpoint :: "('z, unit) code" where
  "efree_checkpoint = try_upd (\<lambda>w. bind_res (free_cell (checkPoint w) (jmps w)) (\<lambda>h. Inr (w\<lparr>jmps := h\<rparr>)))"

text \<open>
  The callback is kept by the task when a current coroutine exists after the call, and freed
  otherwise.
\<close>

definition keep_callback :: "'z engine \<Rightarrow> ptr \<Rightarrow> ('z, unit) code" where
  "keep_callback eng cb w =
     (if current_coro (corog w) \<noteq> None
      then try_upd (\<lambda>w. bind_res (load_task (current_coro (corog w)) w) (\<lambda>t.
             store_task (current_coro (corog w)) (t\<lparr>task_function := cb\<rparr>) w)) w
      else try_upd (c_zval_free eng cb) w)"

text \<open>
  The part of \<open>coroutine_create\<close> after \<open>c_coro_create\<close> has returned \<open>ret\<close>. \<open>retval\<close> was passed
  to it by value, so it is still \<open>NULL\<close> when it is tested at the end.
\<close>

definition create_finish :: "'z engine \<Rightarrow> ptr \<Rightarrow> ptr \<Rightarrow> ptr \<Rightarrow> ptr \<Rightarrow> bool \<Rightarrow> int \<Rightarrow> ('z, zval) code" where
  "create_finish eng func_cache cb prev_checkpoint ctx required ret =
     seq_c (keep_callback eng cb)
     (seq_c (try_upd (\<lambda>w. bind_res (free_cell func_cache (fcaches w)) (\<lambda>h. Inr (w\<lparr>fcaches := h\<rparr>))))
     (seq_c efree_checkpoint
     (if ret < 0 then ret_c (ZBool False)
      else seq_c (upd_c (\<lambda>w. w\<lparr>checkPoint := prev_checkpoint\<rparr>))
       (bind_c (c_coro_resume_parent ctx) (\<lambda>_.
       seq_c (upd_c (\<lambda>w. w\<lparr>corog := (corog w)\<lparr>require := required\<rparr>\<rparr>))
       (seq_c (efree_ctx ctx)
       (seq_c (try_upd (\<lambda>w. if exception (eg w) then Inl ProcessExit else Inr w))
       (ret_c (ZBool True)))))))))"

definition coroutine_create :: "'z engine \<Rightarrow> 'z system \<Rightarrow> (addr \<Rightarrow> ('z, unit) code) \<Rightarrow> zval \<Rightarrow> ptr \<Rightarrow> ('z, zval) code" where
  "coroutine_create eng sys ex func return_value =
     bind_c (\<lambda>w. let (p, h) = emalloc 0 (fcaches w) in Ret (Some p) (w\<lparr>fcaches := h\<rparr>)) (\<lambda>func_cache.
     bind_c (try_c (\<lambda>w. case callable eng func (zend w) of None \<Rightarrow> Inl ProcessExit | Some f \<Rightarrow> Inr f)) (\<lambda>f.
     seq_c (try_upd (\<lambda>w. bind_res (modify func_cache (\<lambda>_. f) (fcaches w)) (\<lambda>h. Inr (w\<lparr>fcaches := h\<rparr>))))
     (seq_c (\<lambda>w. if checkPoint w = None then coro_init sys w else Ret () w)
     (bind_c (c_zval_dup func) (\<lambda>cb.
     seq_c (upd_c (\<lambda>w. w\<lparr>zend := zval_add_ref eng func (zend w)\<rparr>))
     (bind_c push_checkpoint (\<lambda>prev_checkpoint.
     bind_c emalloc_ctx (\<lambda>ctx.
     seq_c (c_coro_save return_value ctx)
     (bind_c (get_c (\<lambda>w. require (corog w))) (\<lambda>required.
     bind_c (c_coro_create eng sys ex f [] None None)
       (create_finish eng func_cache cb prev_checkpoint ctx required)))))))))))"

definition get_current_cid :: "('z, zval) code" where
  "get_current_cid = bind_c (try_c (\<lambda>w. load_task (current_coro (corog w)) w)) (\<lambda>t. ret_c (ZLong (cid t)))"

text \<open>\<open>cid_context_map\<close> has 32769 entries.\<close>

definition cid_in_range :: "int \<Rightarrow> bool" where
  "cid_in_range c \<longleftrightarrow> 0 \<le> c \<and> c < 32769"

definition yield :: "ptr \<Rightarrow> ('z, zval) code" where
  "yield return_value =
     bind_c emalloc_ctx (\<lambda>ctx.
     seq_c (c_coro_save return_value ctx)
     (bind_c (try_c (\<lambda>w. load_task (current_coro (corog w)) w)) (\<lambda>t.
     seq_c (try_upd (\<lambda>w. if cid_in_range (cid t) then Inr (w\<lparr>cid_context_map := (cid_context_map w)(cid t := ctx)\<rparr>)
              else Inl OutOfBounds))
     coro_yield)))"

text \<open>The part of \<open>resume\<close> after \<open>coro_resume\<close> of \<open>context\<close>.\<close>

definition resume_finish :: "ptr \<Rightarrow> ptr \<Rightarrow> ptr \<Rightarrow> bool \<Rightarrow> ('z, zval) code" where
  "resume_finish ctx1 prev_checkpoint ctx required =
     seq_c (efree_ctx ctx1)
     (seq_c efree_checkpoint
     (seq_c (upd_c (\<lambda>w. w\<lparr>checkPoint := prev_checkpoint\<rparr>))
     (bind_c (c_coro_resume_parent ctx) (\<lambda>_.
     seq_c (upd_c (\<lambda>w. w\<lparr>corog := (corog w)\<lparr>require := required\<rparr>\<rparr>))
     (seq_c (efree_ctx ctx)
     (ret_c (ZBool True)))))))"

text \<open>
  \<open>resume\<close>. The parameter is read as a 64-bit integer into an \<open>int\<close>: its low half is the id. The
  entry of the map is not cleared. \<open>result\<close> and \<open>retval\<close> are \<open>NULL\<close>.
\<close>

definition resume :: "'z engine \<Rightarrow> (addr \<Rightarrow> ('z, unit) code) \<Rightarrow> zval \<Rightarrow> ptr \<Rightarrow> ('z, zval) code" where
  "resume eng ex arg return_value =
     (case parse_long eng arg of
        None \<Rightarrow> ret_c ZNull
      | Some n \<Rightarrow>
        bind_c (try_c (\<lambda>w. if cid_in_range (to_cint n) then Inr (cid_context_map w (to_cint n)) else Inl OutOfBounds)) (\<lambda>ctx1.
        if ctx1 = None then ret_c (ZBool False)
        else
          bind_c push_checkpoint (\<lambda>prev_checkpoint.
          bind_c (get_c (\<lambda>w. require (corog w))) (\<lambda>required.
          bind_c emalloc_ctx (\<lambda>ctx.
          seq_c (c_coro_save return_value ctx)
          (bind_c (c_coro_resume eng ex ctx1 None) (\<lambda>ret.
          resume_finish ctx1 prev_checkpoint ctx required)))))))"

section \<open>Waiting for a descriptor\<close>

text \<open>
  \<open>arguments = safe_emalloc(...)\<close>, filled with the parameters. The argument array of the code is
  one cell of \<open>argvs\<close>.
\<close>

definition get_arguments :: "'z engine \<Rightarrow> zval list \<Rightarrow> ('z, ptr option) code" where
  "get_arguments eng args w =
     (let (p, h) = emalloc args (argvs (rg w)); w1 = w\<lparr>rg := (rg w)\<lparr>argvs := h\<rparr>\<rparr> in
      if parameters_ok eng args (zend w1) then Ret (Some (Some p)) w1
      else (case free_cell (Some p) h of Inl e \<Rightarrow> Fault e | Inr h1 \<Rightarrow> Ret None (w\<lparr>rg := (rg w)\<lparr>argvs := h1\<rparr>\<rparr>)))"

text \<open>\<open>c_convert_to_fd(arguments)\<close> reads the first element, which a call without parameters does
  not have.\<close>

definition first_fd :: "'z engine \<Rightarrow> zval list \<Rightarrow> ('z, int) code" where
  "first_fd eng args = try_c (\<lambda>w. case args of [] \<Rightarrow> Inl OutOfBounds | a # _ \<Rightarrow> c_convert_to_fd (php eng (zend w)) a)"

text \<open>
  The end of every waiting method: allocate a context, register it for the descriptor, save into it
  and yield. The callback \<open>aio_invoke\<close> is the same everywhere (address \<open>0\<close>).
\<close>

definition wait_fd :: "int \<Rightarrow> int \<Rightarrow> u32 \<Rightarrow> ptr \<Rightarrow> zval option \<Rightarrow> string option \<Rightarrow> string option \<Rightarrow> ptr \<Rightarrow> int
    \<Rightarrow> ptr \<Rightarrow> ('z, zval) code" where
  "wait_fd fd fdtype events tm ob obname fname argv argc return_value =
     bind_c emalloc_ctx (\<lambda>ctx.
     bind_c (rg_c (aio_event_store fd fdtype ctx (Some 0) events tm ob obname fname argv argc)) (\<lambda>ret.
     if ret < 0 then seq_c (efree_ctx ctx) (ret_c (ZBool False))
     else seq_c (c_coro_save return_value ctx) coro_yield))"

definition socket_accept :: "'z engine \<Rightarrow> zval list \<Rightarrow> ptr \<Rightarrow> ('z, zval) code" where
  "socket_accept eng args return_value =
     bind_c (get_arguments eng args) (\<lambda>argv. case argv of None \<Rightarrow> ret_c (ZBool False)
     | Some a \<Rightarrow> bind_c (first_fd eng args) (\<lambda>fd.
         wait_fd fd FD_TYPE_ACCEPT (EPOLLIN OR EPOLLRDHUP) None None None (Some ''socket_accept'') a (int (length args)) return_value))"

definition socket_read :: "'z engine \<Rightarrow> zval list \<Rightarrow> ptr \<Rightarrow> ('z, zval) code" where
  "socket_read eng args return_value =
     bind_c (get_arguments eng args) (\<lambda>argv. case argv of None \<Rightarrow> ret_c (ZBool False)
     | Some a \<Rightarrow> bind_c (first_fd eng args) (\<lambda>fd.
         if fd < 0 then ret_c (ZBool False)
         else wait_fd fd FD_TYPE_NORMAL EPOLLIN None None None (Some ''socket_read'') a (int (length args)) return_value))"

definition socket_write :: "'z engine \<Rightarrow> zval list \<Rightarrow> ptr \<Rightarrow> ('z, zval) code" where
  "socket_write eng args return_value =
     bind_c (get_arguments eng args) (\<lambda>argv. case argv of None \<Rightarrow> ret_c (ZBool False)
     | Some a \<Rightarrow> bind_c (first_fd eng args) (\<lambda>fd.
         if fd < 0 then ret_c (ZBool False)
         else wait_fd fd FD_TYPE_NORMAL EPOLLOUT None None None (Some ''socket_write'') a (int (length args)) return_value))"

text \<open>
  \<open>create_timerfd\<close> with its system calls: a successful \<open>timerfd_create\<close> opens a descriptor that
  epoll accepts. The timer specification was just allocated by \<open>malloc\<close>, unchecked.
\<close>

definition open_timer :: "'z system \<Rightarrow> ptr \<Rightarrow> int \<Rightarrow> ('z, int) code" where
  "open_timer sys tm interval w =
     (let (tfd, z) = sys_timerfd_create sys (zend w);
          (clock, z1) = (if tfd < 0 then (None, z) else sys_clock_gettime sys z);
          k = (if tfd < 0 then kern (rg w) else (kern (rg w))\<lparr>can_poll := (can_poll (kern (rg w)))(tfd := True),
             interest := (interest (kern (rg w)))(tfd := None), fl_flags := (fl_flags (kern (rg w)))(tfd := Some 2)\<rparr>)
      in if tfd < 0 \<or> clock = None then Ret C_ERR (w\<lparr>zend := z1, rg := (rg w)\<lparr>kern := k\<rparr>\<rparr>)
         else (case bind_res (load tm (timers (rg w))) (\<lambda>its. create_timerfd tfd clock its interval) of
            Inl e \<Rightarrow> Fault e
          | Inr (fd, its') \<Rightarrow> Ret fd (w\<lparr>zend := z1, rg := (rg w)\<lparr>kern := k,
              timers := (timers (rg w))\<lparr>cells := (cells (timers (rg w)))(the tm := Some its')\<rparr>\<rparr>\<rparr>)))"

definition sleep :: "'z engine \<Rightarrow> 'z system \<Rightarrow> zval \<Rightarrow> ptr \<Rightarrow> ('z, zval) code" where
  "sleep eng sys arg return_value =
     (case parse_long eng arg of
        None \<Rightarrow> ret_c (ZBool False)
      | Some timeout \<Rightarrow>
        if timeout \<le> 0 then ret_c (ZBool True)
        else
          bind_c (\<lambda>w. let (p, h) = malloc \<lparr>value_sec = 0, value_nsec = 0, interval_sec = 0, interval_nsec = 0\<rparr> (timers (rg w))
                  in Ret p (w\<lparr>rg := (rg w)\<lparr>timers := h\<rparr>\<rparr>)) (\<lambda>tm.
          bind_c (open_timer sys tm timeout) (\<lambda>fd.
          wait_fd fd FD_TYPE_TIMMER EPOLLIN tm None None None None 0 return_value)))"

text \<open>\<open>zend_parse_parameters("zl|b")\<close>: \<open>persistent\<close> is \<open>0\<close> when absent.\<close>

definition socket_set_timeout :: "'z engine \<Rightarrow> 'z system \<Rightarrow> zval \<Rightarrow> zval \<Rightarrow> zval option \<Rightarrow> ('z, zval) code" where
  "socket_set_timeout eng sys ob timeout persistent =
     (case (parse_long eng timeout, case persistent of None \<Rightarrow> Some False | Some b \<Rightarrow> parse_bool eng b) of
        (Some n, Some pers) \<Rightarrow>
          bind_c (\<lambda>w. let (p, h) = malloc \<lparr>te_fd = 0, te_timeout = 0, te_last_time = 0, te_persistent = False\<rparr> (elems (rg w))
                  in Ret p (w\<lparr>rg := (rg w)\<lparr>elems := h\<rparr>\<rparr>)) (\<lambda>ele.
          bind_c (try_c (\<lambda>w. c_convert_to_fd (php eng (zend w)) ob)) (\<lambda>fd.
          seq_c (try_upd (\<lambda>w. let (tv, z) = sys_gettimeofday sys (zend w) in
             bind_res (modify ele (\<lambda>_. \<lparr>te_fd = fd, te_timeout = to_cint n, te_last_time = get_current_time tv,
                te_persistent = pers\<rparr>) (elems (rg w))) (\<lambda>h. Inr (w\<lparr>zend := z, rg := (rg w)\<lparr>elems := h\<rparr>\<rparr>))))
          (seq_c (try_upd (\<lambda>w. bind_res (pushqueue (the ele) (timeout_fd_link (rg w))) (\<lambda>q.
             Inr (w\<lparr>rg := (rg w)\<lparr>timeout_fd_link := q\<rparr>\<rparr>))))
          (ret_c (ZBool True)))))
      | _ \<Rightarrow> ret_c (ZBool False))"

definition socket_close :: "'z engine \<Rightarrow> zval list \<Rightarrow> ('z, zval) code" where
  "socket_close eng args =
     bind_c (get_arguments eng args) (\<lambda>argv. case argv of None \<Rightarrow> ret_c (ZBool False)
     | Some a \<Rightarrow> bind_c (first_fd eng args) (\<lambda>fd.
         bind_c (\<lambda>w. let (v, k, z) = call_user_function eng None ''socket_close'' args (kern (rg w)) (zend w)
                 in Ret v (w\<lparr>zend := z, rg := (rg w)\<lparr>kern := k\<rparr>\<rparr>)) (\<lambda>v.
         bind_c (try_c (\<lambda>w. event_slot fd (rg w))) (\<lambda>ev.
         bind_c (rg_c (aio_event_free ev)) (\<lambda>_.
         seq_c (try_upd (\<lambda>w. bind_res (free_cell a (argvs (rg w))) (\<lambda>h. Inr (w\<lparr>rg := (rg w)\<lparr>argvs := h\<rparr>\<rparr>))))
         (ret_c v))))))"

text \<open>The waiting methods of \<open>Co\\PDO\<close> and \<open>Co\\PDOStatement\<close>; \<open>origin\<close> is the property of that
  name, the wrapped object.\<close>

definition co_pdo_prepare :: "'z engine \<Rightarrow> zval \<Rightarrow> zval list \<Rightarrow> ptr \<Rightarrow> ('z, zval) code" where
  "co_pdo_prepare eng origin args return_value =
     bind_c (get_arguments eng args) (\<lambda>argv. case argv of None \<Rightarrow> ret_c (ZBool False)
     | Some a \<Rightarrow> bind_c (try_c (\<lambda>w. c_convert_to_fd (php eng (zend w)) origin)) (\<lambda>fd.
         if fd < 0 then ret_c (ZBool False)
         else wait_fd fd FD_TYPE_NORMAL EPOLLOUT None (Some origin) (Some ''PDO'') (Some ''prepare'') a (int (length args)) return_value))"

definition co_pdo_statement_fetchAll :: "'z engine \<Rightarrow> zval \<Rightarrow> zval list \<Rightarrow> ptr \<Rightarrow> ('z, zval) code" where
  "co_pdo_statement_fetchAll eng origin args return_value =
     bind_c (get_arguments eng args) (\<lambda>argv. case argv of None \<Rightarrow> ret_c (ZBool False)
     | Some a \<Rightarrow> bind_c (try_c (\<lambda>w. c_convert_to_fd (php eng (zend w)) origin)) (\<lambda>fd.
         if fd < 0 then ret_c (ZBool False)
         else wait_fd fd FD_TYPE_NORMAL EPOLLOUT None (Some origin) (Some ''PDOStatement'') (Some ''fetchAll'') a (int (length args)) return_value))"

text \<open>
  Construction and destruction of the wrappers. \<open>new_pdo\<close> creates an object of class \<open>PDO\<close> and
  \<open>set_origin\<close> stores it in the property \<open>origin\<close> of the wrapper: both are engine functions.
\<close>

definition co_pdo_construct :: "'z engine \<Rightarrow> ('z \<Rightarrow> zval \<times> 'z) \<Rightarrow> (zval \<Rightarrow> 'z \<Rightarrow> 'z) \<Rightarrow> zval list \<Rightarrow> ('z, zval) code" where
  "co_pdo_construct eng new_pdo set_origin args =
     bind_c (get_arguments eng args) (\<lambda>argv. case argv of None \<Rightarrow> ret_c (ZBool False)
     | Some a \<Rightarrow> bind_c (\<lambda>w. let (pdo, z) = new_pdo (zend w) in Ret pdo (w\<lparr>zend := z\<rparr>)) (\<lambda>pdo.
         bind_c (\<lambda>w. let (v, k, z) = call_user_function eng (Some pdo) ''__construct'' args (kern (rg w)) (zend w)
                 in Ret v (w\<lparr>zend := z, rg := (rg w)\<lparr>kern := k\<rparr>\<rparr>)) (\<lambda>v.
         seq_c (try_upd (\<lambda>w. bind_res (free_cell a (argvs (rg w))) (\<lambda>h. Inr (w\<lparr>rg := (rg w)\<lparr>argvs := h\<rparr>\<rparr>))))
         (seq_c (upd_c (\<lambda>w. w\<lparr>zend := zval_ptr_dtor eng v (zend w)\<rparr>))
         (seq_c (upd_c (\<lambda>w. w\<lparr>zend := set_origin pdo (zend w)\<rparr>))
         (ret_c ZNull))))))"

definition co_pdo_destruct :: "'z engine \<Rightarrow> zval \<Rightarrow> ('z, zval) code" where
  "co_pdo_destruct eng origin =
     seq_c (upd_c (\<lambda>w. w\<lparr>zend := zval_ptr_dtor eng origin (zend w)\<rparr>)) (ret_c ZNull)"

definition co_pdo_statement_destruct :: "'z engine \<Rightarrow> zval \<Rightarrow> ('z, zval) code" where
  "co_pdo_statement_destruct eng origin =
     seq_c (upd_c (\<lambda>w. w\<lparr>zend := zval_ptr_dtor eng origin (zend w)\<rparr>)) (ret_c ZNull)"

end
