(* ===== verification/Discipline.thy ===== *)
theory Discipline
  imports Methods
begin

text \<open>
  The checkpoint discipline: code that a coroutine runs leaves the jump buffers and the saved
  contexts of everybody else alone, and a \<open>longjmp\<close> it makes always goes to the innermost
  \<open>setjmp\<close>. \<open>fr\<close> is what such code may change, \<open>disciplined\<close> the property of a piece of code;
  every function the coroutine calls is shown to have it, whatever PHP code runs inside.
\<close>

section \<open>Frames\<close>

text \<open>The contexts a call of \<open>resume\<close> can reach.\<close>

definition parked :: "'z world \<Rightarrow> nat set" where
  "parked w = {a. \<exists>c. cid_context_map w c = Some a}"

text \<open>
  \<open>fr ob w w'\<close>: from \<open>w\<close> to \<open>w'\<close> the current checkpoint is the same, no jump buffer that existed
  has changed, except perhaps \<open>ob\<close>, and no context that existed and was not parked has changed or
  has been parked.
\<close>

definition fr :: "ptr \<Rightarrow> 'z world \<Rightarrow> 'z world \<Rightarrow> bool" where
  "fr ob w w' \<longleftrightarrow> checkPoint w' = checkPoint w
     \<and> fresh (jmps w) \<le> fresh (jmps w') \<and> fresh (ctxs w) \<le> fresh (ctxs w') \<and> setjmps w \<le> setjmps w'
     \<and> (\<forall>b. b < fresh (jmps w) \<longrightarrow> Some b \<noteq> ob \<longrightarrow> cells (jmps w') b = cells (jmps w) b)
     \<and> (\<forall>a. a < fresh (ctxs w) \<longrightarrow> a \<notin> parked w \<longrightarrow> cells (ctxs w') a = cells (ctxs w) a \<and> a \<notin> parked w')
     \<and> (parked w \<subseteq> {..< fresh (ctxs w)} \<longrightarrow> parked w' \<subseteq> {..< fresh (ctxs w')})"

definition ok :: "'z world \<Rightarrow> bool" where
  "ok w \<longleftrightarrow> (\<exists>b. checkPoint w = Some b \<and> b < fresh (jmps w)) \<and> parked w \<subseteq> {..< fresh (ctxs w)}"

definition within :: "'z world \<Rightarrow> ('z, 'a) outcome \<Rightarrow> bool" where
  "within w out \<longleftrightarrow> (case out of
      Ret x w' \<Rightarrow> fr None w w'
    | Jump t w' \<Rightarrow> fr None w w' \<and> tok_at w (checkPoint w) = Some t
    | _ \<Rightarrow> True)"

definition disciplined :: "('z, 'a) code \<Rightarrow> bool" where
  "disciplined m \<longleftrightarrow> (\<forall>w. ok w \<longrightarrow> within w (m w))"

named_theorems disc \<open>disciplined code\<close>

lemma fr_refl [simp]: "fr ob w w"
  by (simp add: fr_def)

lemma fr_trans: "fr ob w w1 \<Longrightarrow> fr ob w1 w2 \<Longrightarrow> fr ob w w2"
  unfolding fr_def by auto

lemma fr_weaken: "fr None w w1 \<Longrightarrow> fr ob w w1"
  by (simp add: fr_def)

lemma fr_ok: "fr ob w w1 \<Longrightarrow> ok w \<Longrightarrow> ok w1"
  by (auto simp: fr_def ok_def)

lemma fr_tok:
  assumes "fr None w w1" and "ok w"
  shows "tok_at w1 (checkPoint w1) = tok_at w (checkPoint w)"
  using assms by (auto simp: fr_def ok_def tok_at_def)

text \<open>Steps that leave buffers, contexts, map and checkpoint alone.\<close>

lemma fr_other:
  "checkPoint w' = checkPoint w \<Longrightarrow> jmps w' = jmps w \<Longrightarrow> ctxs w' = ctxs w \<Longrightarrow> setjmps w' = setjmps w \<Longrightarrow>
   cid_context_map w' = cid_context_map w \<Longrightarrow> fr ob w w'"
  by (simp add: fr_def parked_def)

lemma within_Ret [simp]: "within w (Ret x w') = fr None w w'"
  and within_Fault [simp]: "within w (Fault e)"
  and within_Out [simp]: "within w OutOfFuel"
  by (simp_all add: within_def)

lemma disciplinedI: "(\<And>w. ok w \<Longrightarrow> within w (m w)) \<Longrightarrow> disciplined m"
  by (simp add: disciplined_def)

lemma disciplinedD: "disciplined m \<Longrightarrow> ok w \<Longrightarrow> within w (m w)"
  by (simp add: disciplined_def)

lemma within_bind:
  assumes "ok w" and "within w out" and "\<And>x w'. ok w' \<Longrightarrow> within w' (f x w')"
  shows "within w (bind_o out f)"
proof (cases out)
  case (Ret x w1)
  with assms have fr1: "fr None w w1" by simp
  note ok1 = fr_ok [OF fr1 assms(1)]
  show ?thesis
  proof (cases "f x w1")
    case (Ret y w2)
    with assms(3) [OF ok1, of x] have "fr None w1 w2" by simp
    with fr_trans [OF fr1] show ?thesis using \<open>out = Ret x w1\<close> Ret by simp
  next
    case (Jump t w2)
    with assms(3) [OF ok1, of x] have "fr None w1 w2" "tok_at w1 (checkPoint w1) = Some t"
      by (simp_all add: within_def)
    with fr_trans [OF fr1] fr_tok [OF fr1 assms(1)] show ?thesis
      using \<open>out = Ret x w1\<close> Jump by (simp add: within_def)
  qed (use \<open>out = Ret x w1\<close> in simp_all)
qed (use assms(2) in \<open>simp_all add: within_def\<close>)

lemma disciplined_bind [disc]:
  "disciplined m \<Longrightarrow> (\<And>x. disciplined (f x)) \<Longrightarrow> disciplined (bind_c m f)"
  by (auto simp: disciplined_def bind_c_def intro: within_bind)

lemma disciplined_seq [disc]: "disciplined m \<Longrightarrow> disciplined k \<Longrightarrow> disciplined (seq_c m k)"
  by (auto simp: disciplined_def seq_c_def intro: within_bind)

lemma disciplined_ret [disc]: "disciplined (ret_c x)"
  by (simp add: disciplined_def ret_c_def)

lemma disciplined_get [disc]: "disciplined (get_c f)"
  by (simp add: disciplined_def get_c_def)

lemma disciplined_try [disc]: "disciplined (try_c f)"
  by (simp add: disciplined_def try_c_def split: sum.splits)

lemma disciplined_upd: "(\<And>w. ok w \<Longrightarrow> fr None w (f w)) \<Longrightarrow> disciplined (upd_c f)"
  by (simp add: disciplined_def upd_c_def)

lemma disciplined_try_upd: "(\<And>w w'. ok w \<Longrightarrow> f w = Inr w' \<Longrightarrow> fr None w w') \<Longrightarrow> disciplined (try_upd f)"
  by (simp add: disciplined_def try_upd_def split: sum.splits)

lemma disciplined_rg [disc]: "disciplined (rg_c f)"
  by (auto simp: disciplined_def rg_c_def intro: fr_other split: sum.splits prod.splits)

lemma disciplined_longjmp [disc]: "disciplined longjmp_c"
proof (rule disciplinedI)
  fix w :: "'a world"
  show "within w (longjmp_c w)"
    by (auto simp: within_def longjmp_c_def tok_at_def load_def split: sum.splits option.splits)
qed

lemma disciplined_if [disc]: "disciplined m \<Longrightarrow> disciplined k \<Longrightarrow> disciplined (if c then m else k)"
  by simp

lemma disciplined_upd_other [disc]:
  "(\<And>w. checkPoint (f w) = checkPoint w \<and> jmps (f w) = jmps w \<and> ctxs (f w) = ctxs w \<and> setjmps (f w) = setjmps w
      \<and> cid_context_map (f w) = cid_context_map w) \<Longrightarrow> disciplined (upd_c f)"
  by (rule disciplined_upd) (simp add: fr_other)

lemma disciplined_try_upd_other [disc]:
  "(\<And>w w'. f w = Inr w' \<Longrightarrow> checkPoint w' = checkPoint w \<and> jmps w' = jmps w \<and> ctxs w' = ctxs w
      \<and> setjmps w' = setjmps w \<and> cid_context_map w' = cid_context_map w) \<Longrightarrow> disciplined (try_upd f)"
  by (rule disciplined_try_upd) (simp add: fr_other)

section \<open>The coroutine operations\<close>

lemma efree_zval_other:
  "efree_zval eng d p w = Inr w' \<Longrightarrow> checkPoint w' = checkPoint w \<and> jmps w' = jmps w \<and> ctxs w' = ctxs w
      \<and> setjmps w' = setjmps w \<and> cid_context_map w' = cid_context_map w"
  by (auto simp: efree_zval_def)

lemma store_task_other:
  "store_task q t w = Inr w' \<Longrightarrow> checkPoint w' = checkPoint w \<and> jmps w' = jmps w \<and> ctxs w' = ctxs w
      \<and> setjmps w' = setjmps w \<and> cid_context_map w' = cid_context_map w"
  by (auto simp: store_task_def split: prod.splits)

lemma coro_close_disciplined [disc]: "disciplined (coro_close eng)"
  unfolding coro_close_def coro_drop_def coro_release_def
  by (intro disc) (auto simp: c_zval_free_def dest!: efree_zval_other store_task_other)

lemma coro_yield_disciplined [disc]: "disciplined coro_yield"
  unfolding coro_yield_def by (intro disc) simp

lemma coro_enter_disciplined [disc]: "disciplined (coro_enter eng sys fci argv post params c)"
  unfolding coro_enter_def c_vm_stack_init_def
  by (intro disc) (auto simp: Let_def emalloc_def disciplined_def split: prod.splits dest!: store_task_other intro: fr_other)

lemma coro_reenter_disciplined [disc]: "disciplined (coro_reenter eng ctx retval)"
  unfolding coro_reenter_def load_ctx_def
  by (intro disc) (auto simp: disciplined_def Let_def split: prod.splits option.splits intro: fr_other)

text \<open>
  \<open>contained b P w out\<close>: no jump leaves, buffer \<open>b\<close> is still allocated at the end, nothing else
  is disturbed, and the value returned satisfies \<open>P\<close>.
\<close>

definition contained :: "addr \<Rightarrow> (int \<Rightarrow> bool) \<Rightarrow> 'z world \<Rightarrow> ('z, int) outcome \<Rightarrow> bool" where
  "contained b P w out \<longleftrightarrow> (case out of
      Ret s w' \<Rightarrow> fr (Some b) w w' \<and> cells (jmps w') b \<noteq> None \<and> P s
    | Jump t w' \<Rightarrow> False
    | _ \<Rightarrow> True)"

definition has_buffer :: "addr \<Rightarrow> 'z world \<Rightarrow> bool" where
  "has_buffer b w \<longleftrightarrow> ok w \<and> checkPoint w = Some b \<and> cells (jmps w) b \<noteq> None"

lemma fr_has_buffer: "has_buffer b w \<Longrightarrow> fr None w w1 \<Longrightarrow> has_buffer b w1"
  unfolding has_buffer_def by (auto simp: fr_ok) (auto simp: fr_def ok_def)

lemma coro_run_contained:
  assumes ex: "disciplined (ex f)" and w: "has_buffer b w"
  shows "contained b (\<lambda>s. s = CORO_END \<or> s = CORO_YIELD) w (coro_run eng ex f w)"
proof -
  let ?w = "w\<lparr>jmps := (jmps w)\<lparr>cells := (cells (jmps w))(b := Some (Some (setjmps w)))\<rparr>, setjmps := Suc (setjmps w)\<rparr>"
  let ?body = "seq_c (ex f) (seq_c (coro_close eng) (ret_c CORO_END))"
  have ok: "ok w" and cp: "checkPoint w = Some b" and live: "cells (jmps w) b \<noteq> None"
    using w by (simp_all add: has_buffer_def)
  have b: "b < fresh (jmps w)" using ok cp by (auto simp: ok_def)
  have fr1: "fr (Some b) w ?w" by (simp add: fr_def parked_def)
  then have "ok ?w" using ok by (rule fr_ok)
  moreover have "disciplined ?body" by (intro disc ex)
  ultimately have wi: "within ?w (?body ?w)" by (rule disciplinedD [rotated])
  have keep: "fr (Some b) w w2 \<and> cells (jmps w2) b \<noteq> None" if "fr None ?w w2" for w2
    using fr_trans [OF fr1 fr_weaken [OF that]] that b by (auto simp: fr_def)
  have fin: "fr (Some b) w (w2\<lparr>corog := g\<rparr>)" if "fr (Some b) w w2" for w2 g
    by (rule fr_trans [OF that fr_other]) simp_all
  have tok: "tok_at ?w (checkPoint ?w) = Some (setjmps w)" using cp by (simp add: tok_at_def)
  show ?thesis
  proof (cases "?body ?w")
    case (Ret s w2)
    then have "s = CORO_END" by (auto simp: run_c bind_o_Ret_iff)
    with Ret wi keep [of w2] fin show ?thesis
      by (simp add: coro_run_def run_c setjmp_c_live [OF cp live] contained_def)
  next
    case (Jump t w2)
    with wi tok have "t = setjmps w" "fr None ?w w2" by (simp_all add: within_def)
    with Jump keep [of w2] fin show ?thesis
      by (simp add: coro_run_def run_c setjmp_c_live [OF cp live] contained_def)
  qed (simp_all add: coro_run_def run_c setjmp_c_live [OF cp live] contained_def)
qed

lemma contained_bind:
  assumes "has_buffer b w" and "disciplined m" and "calm m"
    and "\<And>x w'. has_buffer b w' \<Longrightarrow> contained b P w' (f x w')"
  shows "contained b P w (bind_c m f w)"
proof (cases "m w")
  case (Ret x w1)
  have "ok w" using assms(1) by (simp add: has_buffer_def)
  with Ret disciplinedD [OF assms(2)] have fr1: "fr None w w1" by fastforce
  from assms(4) [OF fr_has_buffer [OF assms(1) fr1], of x] Ret fr_trans [OF fr_weaken [OF fr1]]
  show ?thesis by (auto simp: contained_def bind_c_def split: outcome.splits)
qed (use assms(3) in \<open>simp_all add: contained_def calm_def bind_c_def\<close>)

lemma coro_enter_calm [calm_intros]: "calm (coro_enter eng sys fci argv post params c)"
  unfolding coro_enter_def c_vm_stack_init_def
  by (intro calm_intros) (simp add: calm_def split: prod.splits)

lemma coro_reenter_calm [calm_intros]: "calm (coro_reenter eng ctx retval)"
  unfolding coro_reenter_def load_ctx_def
  by (intro calm_intros) (simp add: calm_def split: option.splits)

text \<open>Neither \<open>c_coro_create\<close> nor \<open>c_coro_resume\<close> lets a jump out.\<close>

lemma c_coro_create_contained:
  assumes ex: "\<And>f. disciplined (ex f)" and w: "has_buffer b w"
  shows "contained b (\<lambda>s. s = CORO_END \<or> s = CORO_YIELD \<or> s = CORO_LIMIT) w
    (c_coro_create eng sys ex fci argv post params w)"
  unfolding c_coro_create_def
proof (rule contained_bind [OF w])
  show "disciplined (\<lambda>w. case alloc_cidmap (cids w) of Inl e \<Rightarrow> Fault e | Inr (c, m) \<Rightarrow> Ret c (w\<lparr>cids := m\<rparr>))"
    "calm (\<lambda>w. case alloc_cidmap (cids w) of Inl e \<Rightarrow> Fault e | Inr (c, m) \<Rightarrow> Ret c (w\<lparr>cids := m\<rparr>))"
    by (auto simp: disciplined_def calm_def intro: fr_other split: sum.splits prod.splits)
next
  fix c and w1 :: "'a world" assume w1: "has_buffer b w1"
  have "contained b (\<lambda>s. s = CORO_END \<or> s = CORO_YIELD \<or> s = CORO_LIMIT) w2
      (bind_c (coro_enter eng sys fci argv post params c) (coro_run eng ex) w2)" if w2: "has_buffer b w2" for w2
  proof (rule contained_bind [OF w2])
    fix f and w3 :: "'a world" assume w3: "has_buffer b w3"
    show "contained b (\<lambda>s. s = CORO_END \<or> s = CORO_YIELD \<or> s = CORO_LIMIT) w3 (coro_run eng ex f w3)"
      using coro_run_contained [where ex = ex and f = f and eng = eng, OF ex w3] by (auto simp: contained_def split: outcome.splits)
  qed (intro disc calm_intros)+
  moreover have "contained b (\<lambda>s. s = CORO_END \<or> s = CORO_YIELD \<or> s = CORO_LIMIT) w2 (ret_c CORO_LIMIT w2)"
    if "has_buffer b w2" for w2 :: "'a world" using that by (simp add: contained_def ret_c_def has_buffer_def)
  ultimately show "contained b (\<lambda>s. s = CORO_END \<or> s = CORO_YIELD \<or> s = CORO_LIMIT) w1
      (bind_c (get_c (\<lambda>w. max_coro_num (corog w) \<le> coro_num (corog w))) (\<lambda>full.
        if full \<and> c \<noteq> -1 then ret_c CORO_LIMIT
        else bind_c (coro_enter eng sys fci argv post params c) (coro_run eng ex)) w1)"
    using w1 by (simp add: bind_c_run get_c_run)
qed

lemma c_coro_resume_contained:
  assumes ex: "\<And>f. disciplined (ex f)" and w: "has_buffer b w"
  shows "contained b (\<lambda>s. s = CORO_END \<or> s = CORO_YIELD) w (c_coro_resume eng ex ctx retval w)"
proof -
  have "contained b (\<lambda>s. s = CORO_END \<or> s = CORO_YIELD) w
      (bind_c (coro_reenter eng ctx retval) (coro_run eng ex) w)"
    by (rule contained_bind [OF w]) (intro disc calm_intros coro_run_contained ex | assumption)+
  then show ?thesis
    unfolding c_coro_resume_def by (subst bind_c_run) (auto simp: contained_def split: outcome.splits option.splits)
qed

section \<open>The scope of a nested run\<close>

text \<open>
  \<open>coroutine_create\<close> and \<open>resume\<close> both open a scope (new checkpoint, caller saved), run a
  coroutine, and close the scope. \<open>scoped\<close> is the world after opening, \<open>left\<close> the one after
  closing.
\<close>

definition saved_ctx :: "ptr \<Rightarrow> 'z world \<Rightarrow> php_context" where
  "saved_ctx rv w = \<lparr>ctx_return_value = rv,
        ctx_execute_data = current_execute_data (eg w), ctx_vm_stack = vm_stack (eg w),
        ctx_vm_stack_top = vm_stack_top (eg w), ctx_vm_stack_end = vm_stack_end (eg w),
        ctx_task = current_coro (corog w),
        ctx_allocated_return = allocated_return_value_ptr (corog w)\<rparr>"

text \<open>The registers of the VM stack, in the executor globals and in a saved context.\<close>

abbreviation stack_regs :: "executor_globals \<Rightarrow> ptr \<times> vmpos \<times> vmpos" where
  "stack_regs e \<equiv> (vm_stack e, vm_stack_top e, vm_stack_end e)"

abbreviation ctx_regs :: "php_context \<Rightarrow> ptr \<times> vmpos \<times> vmpos" where
  "ctx_regs x \<equiv> (ctx_vm_stack x, ctx_vm_stack_top x, ctx_vm_stack_end x)"

definition scoped :: "ptr \<Rightarrow> 'z world \<Rightarrow> 'z world" where
  "scoped rv w = w\<lparr>jmps := (jmps w)\<lparr>cells := (cells (jmps w))(fresh (jmps w) := Some None), fresh := Suc (fresh (jmps w))\<rparr>,
     checkPoint := Some (fresh (jmps w)),
     ctxs := (ctxs w)\<lparr>fresh := Suc (fresh (ctxs w)), cells := (cells (ctxs w))(fresh (ctxs w) := Some (Some (saved_ctx rv w)))\<rparr>\<rparr>"

definition left :: "addr \<Rightarrow> ptr \<Rightarrow> addr \<Rightarrow> php_context \<Rightarrow> bool \<Rightarrow> 'z world \<Rightarrow> 'z world" where
  "left b prev ctx x required w = w\<lparr>jmps := (jmps w)\<lparr>cells := (cells (jmps w))(b := None)\<rparr>, checkPoint := prev,
     eg := (eg w)\<lparr>vm_stack := ctx_vm_stack x, vm_stack_top := ctx_vm_stack_top x,
          vm_stack_end := ctx_vm_stack_end x, current_execute_data := ctx_execute_data x\<rparr>,
     corog := (corog w)\<lparr>current_coro := ctx_task x, allocated_return_value_ptr := ctx_allocated_return x, require := required\<rparr>,
     ctxs := (ctxs w)\<lparr>cells := (cells (ctxs w))(ctx := None)\<rparr>\<rparr>"

lemma c_coro_save_live:
  "cells (ctxs w) a = Some y \<Longrightarrow> c_coro_save rv (Some a) w =
     Ret () (w\<lparr>ctxs := (ctxs w)\<lparr>cells := (cells (ctxs w))(a := Some (Some (saved_ctx rv w)))\<rparr>\<rparr>)"
  by (simp add: c_coro_save_def try_upd_def saved_ctx_def)

lemma scope_enter:
  "bind_c push_checkpoint (\<lambda>prev. bind_c emalloc_ctx (\<lambda>ctx. seq_c (c_coro_save rv ctx) (k prev ctx))) =
     (\<lambda>w. k (checkPoint w) (Some (fresh (ctxs w))) (scoped rv w))"
  by (rule ext) (simp add: run_c push_checkpoint_def emalloc_ctx_def emalloc_def c_coro_save_live scoped_def saved_ctx_def)

lemma scope_enter_require:
  "bind_c push_checkpoint (\<lambda>prev. bind_c (get_c (\<lambda>w. require (corog w))) (\<lambda>r.
       bind_c emalloc_ctx (\<lambda>ctx. seq_c (c_coro_save rv ctx) (k prev r ctx)))) =
     (\<lambda>w. k (checkPoint w) (require (corog w)) (Some (fresh (ctxs w))) (scoped rv w))"
  by (rule ext) (simp add: run_c push_checkpoint_def emalloc_ctx_def emalloc_def c_coro_save_live scoped_def saved_ctx_def)

lemma scoped_other [simp]: "eg (scoped rv w) = eg w" "corog (scoped rv w) = corog w" "cids (scoped rv w) = cids w"
    "vm_pages (scoped rv w) = vm_pages w" "zvs (scoped rv w) = zvs w" "fcaches (scoped rv w) = fcaches w"
    "cid_context_map (scoped rv w) = cid_context_map w" "rg (scoped rv w) = rg w" "zend (scoped rv w) = zend w"
    "setjmps (scoped rv w) = setjmps w" "checkPoint (scoped rv w) = Some (fresh (jmps w))"
  by (simp_all add: scoped_def)

lemma scope_leave:
  assumes "checkPoint w = Some b" and "cells (jmps w) b \<noteq> None" and "cells (ctxs w) ctx = Some (Some x)"
  shows "seq_c efree_checkpoint (seq_c (upd_c (\<lambda>w. w\<lparr>checkPoint := prev\<rparr>))
     (bind_c (c_coro_resume_parent (Some ctx)) (\<lambda>_.
       seq_c (upd_c (\<lambda>w. w\<lparr>corog := (corog w)\<lparr>require := required\<rparr>\<rparr>)) (seq_c (efree_ctx (Some ctx)) k)))) w
   = k (left b prev ctx x required w)"
  using assms
  by (auto simp: run_c efree_checkpoint_def efree_ctx_def c_coro_resume_parent_def load_ctx_def left_def
      try_upd_def try_c_def)

lemma scoped_buffer: "parked w \<subseteq> {..< fresh (ctxs w)} \<Longrightarrow> has_buffer (fresh (jmps w)) (scoped rv w)"
  by (auto simp: has_buffer_def ok_def scoped_def parked_def)

text \<open>What is found when the scope is closed, and what that leaves behind.\<close>

lemma scope_kept:
  assumes p: "parked w \<subseteq> {..< fresh (ctxs w)}" and fr: "fr (Some (fresh (jmps w))) (scoped rv w) w'"
  shows "cells (ctxs w') (fresh (ctxs w)) = Some (Some (saved_ctx rv w))" and "checkPoint w' = Some (fresh (jmps w))"
    and "fr None w (left (fresh (jmps w)) (checkPoint w) (fresh (ctxs w)) x required w')"
proof -
  have "fresh (ctxs w) \<notin> parked (scoped rv w)" using p by (auto simp: parked_def scoped_def)
  moreover have "fresh (ctxs w) < fresh (ctxs (scoped rv w))" by (simp add: scoped_def)
  ultimately have "cells (ctxs w') (fresh (ctxs w)) = cells (ctxs (scoped rv w)) (fresh (ctxs w))"
    using fr by (auto simp: fr_def)
  then show "cells (ctxs w') (fresh (ctxs w)) = Some (Some (saved_ctx rv w))" by (simp add: scoped_def)
  show "checkPoint w' = Some (fresh (jmps w))" using fr by (simp add: fr_def scoped_def)
  show "fr None w (left (fresh (jmps w)) (checkPoint w) (fresh (ctxs w)) x required w')"
    using fr by (fastforce simp: fr_def left_def scoped_def parked_def less_Suc_eq)
qed

text \<open>
  \<open>restores w w'\<close>: the caller finds its VM registers, its task and its return value again.
  \<open>transparent v w out\<close>: no jump leaves; if the call returns, it returns \<open>v\<close>, the caller's
  registers are restored and nobody else's buffers or contexts have changed.
\<close>

definition restores :: "'z world \<Rightarrow> 'z world \<Rightarrow> bool" where
  "restores w w' \<longleftrightarrow> vm_stack (eg w') = vm_stack (eg w) \<and> vm_stack_top (eg w') = vm_stack_top (eg w)
     \<and> vm_stack_end (eg w') = vm_stack_end (eg w) \<and> current_execute_data (eg w') = current_execute_data (eg w)
     \<and> current_coro (corog w') = current_coro (corog w)
     \<and> allocated_return_value_ptr (corog w') = allocated_return_value_ptr (corog w)
     \<and> require (corog w') = require (corog w)"

definition transparent :: "zval \<Rightarrow> 'z world \<Rightarrow> ('z, zval) outcome \<Rightarrow> bool" where
  "transparent v w out \<longleftrightarrow> (case out of
      Ret v' w' \<Rightarrow> v' = v \<and> fr None w w' \<and> restores w w'
    | Jump t w' \<Rightarrow> False
    | _ \<Rightarrow> True)"

lemma restores_left:
  "restores w (left b prev ctx (saved_ctx rv w) (require (corog w)) w')"
  by (simp add: restores_def left_def saved_ctx_def)

lemma keep_callback_disciplined [disc]: "disciplined (keep_callback eng cb)"
  unfolding keep_callback_def
  by (rule disciplinedI) (auto simp: try_upd_def c_zval_free_def dest!: efree_zval_other store_task_other
      intro!: fr_other split: sum.splits)

lemma keep_callback_calm [calm_intros]: "calm (keep_callback eng cb)"
  by (simp add: calm_def keep_callback_def try_upd_def split: sum.splits)

text \<open>
  \<open>closes rv w out\<close>: the scope opened in \<open>w\<close> is closed properly, or a fault ends everything.
  \<open>in_scope rv w w'\<close>: \<open>w'\<close> is reached from the start of the scope by code that keeps it.
\<close>

definition in_scope :: "ptr \<Rightarrow> 'z world \<Rightarrow> 'z world \<Rightarrow> bool" where
  "in_scope rv w w' \<longleftrightarrow> fr (Some (fresh (jmps w))) (scoped rv w) w' \<and> cells (jmps w') (fresh (jmps w)) \<noteq> None"

definition closes :: "ptr \<Rightarrow> 'z world \<Rightarrow> ('z, zval) outcome \<Rightarrow> bool" where
  "closes rv w out \<longleftrightarrow> (case out of
      Ret v w'' \<Rightarrow> v = ZBool True \<and> (\<exists>w1. in_scope rv w w1 \<and>
        w'' = left (fresh (jmps w)) (checkPoint w) (fresh (ctxs w)) (saved_ctx rv w) (require (corog w)) w1)
    | Jump t w'' \<Rightarrow> False
    | _ \<Rightarrow> True)"

definition parked_ok :: "'z world \<Rightarrow> bool" where
  "parked_ok w \<longleftrightarrow> parked w \<subseteq> {..< fresh (ctxs w)}"

lemma closes_transparent:
  assumes "parked_ok w" and "contained (fresh (jmps w)) P (scoped rv w) out"
    and "\<And>s w'. P s \<Longrightarrow> in_scope rv w w' \<Longrightarrow> closes rv w (k s w')"
  shows "transparent (ZBool True) w (bind_o out k)"
proof (cases out)
  case (Ret s w')
  with assms(2) have "P s" "in_scope rv w w'" by (simp_all add: contained_def in_scope_def)
  from assms(3) [OF this] Ret scope_kept(3) [of w rv] assms(1) restores_left [of w] show ?thesis
    by (auto simp: transparent_def closes_def in_scope_def parked_ok_def split: outcome.splits)
qed (use assms(2) in \<open>simp_all add: contained_def transparent_def\<close>)

text \<open>Harmless code between the run and the end of its scope, and the end itself.\<close>

lemma closes_step:
  assumes p: "parked_ok w" and sc: "in_scope rv w w'" and m: "disciplined m" "calm m"
    and k: "\<And>w'. in_scope rv w w' \<Longrightarrow> closes rv w (k w')"
  shows "closes rv w (seq_c m k w')"
proof (cases "m w'")
  case (Ret x w1)
  have buf: "has_buffer (fresh (jmps w)) (scoped rv w)" using scoped_buffer p by (simp add: parked_ok_def)
  then have "has_buffer (fresh (jmps w)) w'"
    using sc fr_ok [of _ "scoped rv w" w'] by (auto simp: in_scope_def has_buffer_def fr_def)
  moreover have fr1: "fr None w' w1"
    using disciplinedD [OF m(1), of w'] Ret calculation by (simp add: has_buffer_def)
  ultimately have "has_buffer (fresh (jmps w)) w1" by (rule fr_has_buffer)
  with sc fr_trans [OF _ fr_weaken [OF fr1]] have "in_scope rv w w1"
    by (auto simp: in_scope_def has_buffer_def)
  with k Ret show ?thesis by (simp add: seq_c_def)
qed (use m(2) in \<open>simp_all add: seq_c_def calm_def closes_def\<close>)

lemma closes_end:
  assumes p: "parked_ok w" and sc: "in_scope rv w w'"
    and k: "\<And>w1. k w1 = Ret (ZBool True) w1 \<or> (\<exists>e. k w1 = Fault e)"
  shows "closes rv w (seq_c efree_checkpoint (seq_c (upd_c (\<lambda>w'. w'\<lparr>checkPoint := checkPoint w\<rparr>))
     (bind_c (c_coro_resume_parent (Some (fresh (ctxs w)))) (\<lambda>_.
       seq_c (upd_c (\<lambda>w'. w'\<lparr>corog := (corog w')\<lparr>require := require (corog w)\<rparr>\<rparr>))
       (seq_c (efree_ctx (Some (fresh (ctxs w)))) k)))) w')"
proof -
  have kept: "cells (ctxs w') (fresh (ctxs w)) = Some (Some (saved_ctx rv w))" "checkPoint w' = Some (fresh (jmps w))"
    using scope_kept(1,2) [of w rv w'] p sc by (simp_all add: parked_ok_def in_scope_def)
  let ?w = "left (fresh (jmps w)) (checkPoint w) (fresh (ctxs w)) (saved_ctx rv w) (require (corog w)) w'"
  have "closes rv w (k ?w)" using k [of ?w] sc by (auto simp: closes_def)
  moreover have live: "cells (jmps w') (fresh (jmps w)) \<noteq> None" using sc by (simp add: in_scope_def)
  ultimately show ?thesis
    by (subst scope_leave [OF kept(2) live kept(1), of "checkPoint w" "require (corog w)" k]) assumption
qed

lemma create_finish_closes:
  assumes "parked_ok w" and "in_scope rv w w'" and "0 \<le> s"
  shows "closes rv w (create_finish eng fc cb (checkPoint w) (Some (fresh (ctxs w))) (require (corog w)) s w')"
proof -
  have "\<not> s < 0" using assms(3) by simp
  then show ?thesis
    unfolding create_finish_def if_not_P [OF \<open>\<not> s < 0\<close>]
    by (intro closes_step [OF assms(1,2)] closes_step [OF assms(1)] closes_end assms(1) disc calm_intros)
      (auto simp: run_c try_upd_def split: if_splits)
qed

lemma resume_finish_closes:
  assumes "parked_ok w" and "in_scope rv w w'" and "ctx1 \<in> Some ` parked w"
  shows "closes rv w (resume_finish ctx1 (checkPoint w) (Some (fresh (ctxs w))) (require (corog w)) w')"
proof (cases "efree_ctx ctx1 w'")
  case (Ret u w1)
  obtain a where a: "ctx1 = Some a" "a \<in> parked w" using assms(3) by auto
  with Ret have "w1 = w'\<lparr>ctxs := (ctxs w')\<lparr>cells := (cells (ctxs w'))(a := None)\<rparr>\<rparr>"
    by (auto simp: efree_ctx_def try_upd_def free_cell_def split: option.splits)
  moreover have "a \<in> parked (scoped rv w)" using a by (simp add: parked_def)
  ultimately have "in_scope rv w w1" using assms(2) by (auto simp: in_scope_def fr_def parked_def)
  from closes_end [OF assms(1) this, of "ret_c (ZBool True)"] Ret show ?thesis
    by (simp add: resume_finish_def seq_c_run ret_c_run)
qed (auto simp: resume_finish_def seq_c_run closes_def efree_ctx_def try_upd_def split: sum.splits)

lemma coroutine_create_unfold:
  assumes "callable eng func (zend w) = Some f" and "checkPoint w \<noteq> None"
  shows "coroutine_create eng sys ex func rv w =
    (let fc = fresh (fcaches w);
         wp = w\<lparr>fcaches := (fcaches w)\<lparr>fresh := Suc fc, cells := (cells (fcaches w))(fc := Some f)\<rparr>,
                zvs := snd (emalloc func (zvs w)), zend := zval_add_ref eng func (zend w)\<rparr>
     in bind_o (c_coro_create eng sys ex f [] None None (scoped rv wp))
          (create_finish eng (Some fc) (Some (fresh (zvs w))) (checkPoint w) (Some (fresh (ctxs w))) (require (corog w))))"
  using assms unfolding coroutine_create_def scope_enter
  by (auto simp: run_c emalloc_def c_zval_dup_def Let_def)

text \<open>\<open>coroutine_create\<close> and \<open>resume\<close> are transparent to their caller.\<close>

lemma create_scope_transparent:
  assumes ex: "\<And>f. disciplined (ex f)" and p: "parked_ok w"
  shows "transparent (ZBool True) w (bind_o (c_coro_create eng sys ex f [] None None (scoped rv w))
      (create_finish eng fc cb (checkPoint w) (Some (fresh (ctxs w))) (require (corog w))))"
proof -
  have "has_buffer (fresh (jmps w)) (scoped rv w)" using scoped_buffer p by (simp add: parked_ok_def)
  note run = c_coro_create_contained [OF ex this]
  show ?thesis by (rule closes_transparent [OF p run]) (rule create_finish_closes [OF p], auto)
qed

lemma coroutine_create_is_transparent:
  assumes ex: "\<And>f. disciplined (ex f)" and ok: "ok w"
  shows "transparent (ZBool True) w (coroutine_create eng sys ex func rv w)"
proof (cases "callable eng func (zend w)")
  case None
  then show ?thesis by (simp add: coroutine_create_def run_c transparent_def emalloc_def Let_def)
next
  case (Some f)
  define wp where "wp = w\<lparr>fcaches := (fcaches w)\<lparr>fresh := Suc (fresh (fcaches w)), cells := (cells (fcaches w))(fresh (fcaches w) := Some f)\<rparr>,
      zvs := snd (emalloc func (zvs w)), zend := zval_add_ref eng func (zend w)\<rparr>"
  have cp: "checkPoint w \<noteq> None" using ok by (auto simp: ok_def)
  have p: "parked_ok wp" using ok by (simp add: ok_def parked_def parked_ok_def wp_def)
  have eq: "coroutine_create eng sys ex func rv w = bind_o (c_coro_create eng sys ex f [] None None (scoped rv wp))
      (create_finish eng (Some (fresh (fcaches w))) (Some (fresh (zvs w))) (checkPoint wp) (Some (fresh (ctxs wp))) (require (corog wp)))"
    using coroutine_create_unfold [OF Some cp] by (simp add: Let_def wp_def)
  have "transparent (ZBool True) wp (coroutine_create eng sys ex func rv w)"
    unfolding eq by (rule create_scope_transparent [OF ex p])
  moreover have "transparent (ZBool True) wp out = transparent (ZBool True) w out" for out
    by (simp add: transparent_def fr_def restores_def parked_def wp_def split: outcome.splits)
  ultimately show ?thesis by simp
qed

text \<open>The first creation of a request: \<open>coro_init\<close> runs before the caller is saved.\<close>

definition initialised :: "'z system \<Rightarrow> 'z world \<Rightarrow> 'z world" where
  "initialised sys w = (if checkPoint w = None then (case coro_init sys w of Ret u w1 \<Rightarrow> w1 | _ \<Rightarrow> w) else w)"

lemma coro_init_returns:
  obtains w1 where "coro_init sys w = Ret () w1" and "ctxs w1 = ctxs w" and "cid_context_map w1 = cid_context_map w"
    and "fcaches w1 = fcaches w" and "zvs w1 = zvs w"
    and "coro_init sys (w\<lparr>fcaches := h\<rparr>) = Ret () (w1\<lparr>fcaches := h\<rparr>)"
proof -
  obtain fd z where e: "sys_epoll_create sys (zend w) = (fd, z)" by (metis surj_pair)
  define wi where "wi = (case coro_init sys w of Ret u w1 \<Rightarrow> w1 | _ \<Rightarrow> w)"
  have "coro_init sys w = Ret () wi" "coro_init sys (w\<lparr>fcaches := h\<rparr>) = Ret () (wi\<lparr>fcaches := h\<rparr>)"
    by (simp_all add: wi_def coro_init_def run_c emalloc_def e)
  moreover have "ctxs wi = ctxs w" "cid_context_map wi = cid_context_map w" "fcaches wi = fcaches w" "zvs wi = zvs w"
    by (simp_all add: wi_def coro_init_def run_c emalloc_def e)
  ultimately show thesis using that by blast
qed

lemma coroutine_create_transparent_first:
  assumes ex: "\<And>f. disciplined (ex f)" and p: "parked_ok w" and cp: "checkPoint w = None"
  shows "transparent (ZBool True) (initialised sys w) (coroutine_create eng sys ex func rv w)"
proof (cases "callable eng func (zend w)")
  case None
  then show ?thesis by (simp add: coroutine_create_def run_c transparent_def emalloc_def Let_def)
next
  case (Some f)
  let ?fc = "fresh (fcaches w)"
  let ?h = "(fcaches w)\<lparr>fresh := Suc ?fc, cells := (cells (fcaches w))(?fc := Some f)\<rparr>"
  obtain w1 where w1: "coro_init sys w = Ret () w1" "ctxs w1 = ctxs w" "cid_context_map w1 = cid_context_map w"
    "fcaches w1 = fcaches w" "zvs w1 = zvs w" "coro_init sys (w\<lparr>fcaches := ?h\<rparr>) = Ret () (w1\<lparr>fcaches := ?h\<rparr>)"
    by (rule coro_init_returns)
  define wp where "wp = w1\<lparr>fcaches := ?h, zvs := snd (emalloc func (zvs w1)), zend := zval_add_ref eng func (zend w1)\<rparr>"
  have i: "initialised sys w = w1" using cp w1(1) by (simp add: initialised_def)
  have eq: "coroutine_create eng sys ex func rv w = bind_o (c_coro_create eng sys ex f [] None None (scoped rv wp))
      (create_finish eng (Some ?fc) (Some (fresh (zvs w))) (checkPoint wp) (Some (fresh (ctxs wp))) (require (corog wp)))"
    using Some cp w1 unfolding coroutine_create_def scope_enter
    by (auto simp: run_c emalloc_def c_zval_dup_def Let_def wp_def)
  have "parked_ok wp" using p w1 by (simp add: parked_ok_def parked_def wp_def)
  then have "transparent (ZBool True) wp (coroutine_create eng sys ex func rv w)"
    unfolding eq by (rule create_scope_transparent [OF ex])
  moreover have "transparent (ZBool True) wp out = transparent (ZBool True) w1 out" for out
    by (simp add: transparent_def fr_def restores_def parked_def wp_def split: outcome.splits)
  ultimately show ?thesis by (simp add: i)
qed

lemma resume_is_transparent:
  assumes ex: "\<And>f. disciplined (ex f)" and p: "parked_ok w"
    and n: "parse_long eng arg = Some n" "cid_in_range (to_cint n)" "cid_context_map w (to_cint n) = Some a"
  shows "transparent (ZBool True) w (resume eng ex arg rv w)"
proof -
  have eq: "resume eng ex arg rv w = bind_o (c_coro_resume eng ex (Some a) None (scoped rv w))
      (\<lambda>ret. resume_finish (Some a) (checkPoint w) (Some (fresh (ctxs w))) (require (corog w)))"
    using n unfolding resume_def scope_enter_require by (simp add: run_c)
  have "has_buffer (fresh (jmps w)) (scoped rv w)" using scoped_buffer p by (simp add: parked_ok_def)
  note run = c_coro_resume_contained [OF ex this]
  have "Some a \<in> Some ` parked w" using n(3) by (auto simp: parked_def)
  note fin = resume_finish_closes [OF p _ this]
  show ?thesis unfolding eq by (rule closes_transparent [OF p run]) (rule fin)
qed

section \<open>The methods\<close>

lemma within_trans: "fr None w w1 \<Longrightarrow> ok w \<Longrightarrow> within w1 out \<Longrightarrow> within w out"
  using fr_trans [of None w w1] fr_tok [of w w1] by (auto simp: within_def split: outcome.splits)

text \<open>The world after a context was allocated and saved into.\<close>

definition saved :: "ptr \<Rightarrow> 'z world \<Rightarrow> 'z world" where
  "saved rv w = w\<lparr>ctxs := (ctxs w)\<lparr>fresh := Suc (fresh (ctxs w)), cells := (cells (ctxs w))(fresh (ctxs w) := Some (Some (saved_ctx rv w)))\<rparr>\<rparr>"

lemma saved_fr: "fr None w (saved rv w)"
  by (simp add: fr_def saved_def parked_def less_Suc_eq subset_iff)

lemma emalloc_save:
  "bind_c emalloc_ctx (\<lambda>ctx. seq_c (c_coro_save rv ctx) (k ctx)) = (\<lambda>w. k (Some (fresh (ctxs w))) (saved rv w))"
  by (rule ext) (simp add: run_c emalloc_ctx_def emalloc_def c_coro_save_live saved_def saved_ctx_def)

lemma yield_disciplined [disc]: "disciplined (yield rv)"
proof (rule disciplinedI)
  fix w :: "'a world" assume ok: "ok w"
  show "within w (yield rv w)"
  proof (cases "load_task (current_coro (corog w)) (saved rv w)")
    case (Inl e)
    then show ?thesis unfolding yield_def emalloc_save by (simp add: run_c try_c_def saved_def)
  next
    case (Inr t)
    show ?thesis
    proof (cases "cid_in_range (cid t)")
      case True
      let ?w = "(saved rv w)\<lparr>cid_context_map := (cid_context_map w)(cid t := Some (fresh (ctxs w)))\<rparr>"
      have fr: "fr None w ?w"
        using ok by (auto simp: fr_def saved_def parked_def ok_def less_Suc_eq split: if_splits)
      have "yield rv w = coro_yield ?w"
        using Inr True unfolding yield_def emalloc_save by (simp add: run_c try_c_def try_upd_def saved_def)
      with within_trans [OF fr ok disciplinedD [OF coro_yield_disciplined fr_ok [OF fr ok]]] show ?thesis by simp
    next
      case False
      then show ?thesis using Inr unfolding yield_def emalloc_save
        by (simp add: run_c try_c_def try_upd_def saved_def)
    qed
  qed
qed

lemma wait_fd_disciplined [disc]:
  "disciplined (wait_fd fd fdtype events tm ob obname fname argv argc rv)"
proof (rule disciplinedI)
  fix w :: "'a world" assume ok: "ok w"
  let ?st = "\<lambda>a. aio_event_store fd fdtype (Some a) (Some 0) events tm ob obname fname argv argc (rg w)"
  show "within w (wait_fd fd fdtype events tm ob obname fname argv argc rv w)"
  proof (cases "?st (fresh (ctxs w))")
    case (Inl e)
    then show ?thesis by (simp add: wait_fd_def run_c emalloc_ctx_def emalloc_def rg_c_def)
  next
    case (Inr rr)
    obtain ret r where rr: "rr = (ret, r)" by (cases rr)
    show ?thesis
    proof (cases "ret < 0")
      case True
      then show ?thesis using Inr rr
        by (simp add: wait_fd_def run_c emalloc_ctx_def emalloc_def rg_c_def efree_ctx_def try_upd_def fr_def parked_def
            less_Suc_eq subset_iff)
    next
      case False
      let ?w = "saved rv (w\<lparr>rg := r\<rparr>)"
      have fr: "fr None w ?w"
        by (rule fr_trans [OF _ saved_fr]) (simp add: fr_other)
      have "wait_fd fd fdtype events tm ob obname fname argv argc rv w = coro_yield ?w"
        using False Inr rr by (simp add: wait_fd_def run_c emalloc_ctx_def emalloc_def rg_c_def c_coro_save_live saved_def saved_ctx_def)
      with within_trans [OF fr ok disciplinedD [OF coro_yield_disciplined fr_ok [OF fr ok]]] show ?thesis by simp
    qed
  qed
qed

lemma get_arguments_disciplined [disc]: "disciplined (get_arguments eng args)"
  by (auto simp: disciplined_def get_arguments_def emalloc_def Let_def intro: fr_other split: sum.splits)

lemma first_fd_disciplined [disc]: "disciplined (first_fd eng args)"
  unfolding first_fd_def by (intro disc)

lemma open_timer_disciplined [disc]: "disciplined (open_timer sys tm interval)"
  by (auto simp: disciplined_def open_timer_def Let_def intro!: fr_other split: sum.splits prod.splits)

lemma disciplined_option [disc]: "disciplined m \<Longrightarrow> (\<And>a. disciplined (k a)) \<Longrightarrow> disciplined (case x of None \<Rightarrow> m | Some a \<Rightarrow> k a)"
  by (simp split: option.splits)

lemma waiting_methods_disciplined [disc]:
  "disciplined (socket_accept eng args rv)" "disciplined (socket_read eng args rv)"
  "disciplined (socket_write eng args rv)" "disciplined (co_pdo_prepare eng origin args rv)"
  "disciplined (co_pdo_statement_fetchAll eng origin args rv)"
  unfolding socket_accept_def socket_read_def socket_write_def co_pdo_prepare_def co_pdo_statement_fetchAll_def
  by (intro disc)+

lemma sleep_disciplined [disc]: "disciplined (sleep eng sys arg rv)"
  unfolding sleep_def
  by (intro disc) (auto simp: disciplined_def intro: fr_other split: prod.splits)

lemma get_current_cid_disciplined [disc]: "disciplined get_current_cid"
  unfolding get_current_cid_def by (intro disc)

lemma socket_close_disciplined [disc]: "disciplined (socket_close eng args)"
  unfolding socket_close_def
  by (intro disc) (auto simp: disciplined_def Let_def intro: fr_other split: prod.splits)

lemma socket_set_timeout_disciplined [disc]: "disciplined (socket_set_timeout eng sys ob timeout persistent)"
proof -
  have both: "disciplined (case x of (Some n, Some b) \<Rightarrow> f n b | _ \<Rightarrow> ret_c (ZBool False))"
    if "\<And>n b. disciplined (f n b)" for x and f :: "int \<Rightarrow> bool \<Rightarrow> ('a, zval) code"
    using that by (auto intro: disc split: option.splits prod.splits)
  show ?thesis unfolding socket_set_timeout_def
    by (rule both) (intro disc, auto simp: disciplined_def Let_def intro: fr_other split: prod.splits)
qed

lemma transparent_within: "transparent v w out \<Longrightarrow> within w out"
  by (auto simp: transparent_def within_def split: outcome.splits)

lemma coroutine_create_disciplined [disc]:
  "(\<And>f. disciplined (ex f)) \<Longrightarrow> disciplined (coroutine_create eng sys ex func rv)"
  by (rule disciplinedI) (rule transparent_within [OF coroutine_create_is_transparent])

lemma resume_disciplined [disc]:
  assumes "\<And>f. disciplined (ex f)"
  shows "disciplined (resume eng ex arg rv)"
proof (rule disciplinedI)
  fix w :: "'a world" assume "ok w"
  then have p: "parked_ok w" by (simp add: ok_def parked_ok_def)
  show "within w (resume eng ex arg rv w)"
  proof (cases "\<exists>n a. parse_long eng arg = Some n \<and> cid_in_range (to_cint n) \<and> cid_context_map w (to_cint n) = Some a")
    case True
    then obtain n a where "parse_long eng arg = Some n" "cid_in_range (to_cint n)" "cid_context_map w (to_cint n) = Some a"
      by blast
    from transparent_within [OF resume_is_transparent [OF assms p this]] show ?thesis .
  next
    case False
    then show ?thesis by (auto simp: resume_def run_c try_c_def split: option.splits)
  qed
qed

end
