(* ===== verification/Script.thy ===== *)
theory Script
  imports Discipline
begin

text \<open>
  PHP code calling the extension. The engine runs a frame until it finishes or calls one of the
  extension's functions; \<open>exec\<close> is the interpreter this gives, \<open>zend_execute_ex\<close> of the other
  theories, with fuel because PHP code need not terminate. The theorems of this theory hold for
  every engine, every PHP program and every amount of fuel.
\<close>

section \<open>Definitions\<close>

datatype php_call =
    Create zval | GetCurrentCid | Yield | Resume zval | Sleep zval
  | SocketAccept "zval list" | SocketRead "zval list" | SocketWrite "zval list"
  | SetTimeout zval zval "zval option" | SocketClose "zval list"
  | Prepare zval "zval list" | FetchAll zval "zval list"

text \<open>One call of the function table of the extension, with the address of its return slot.\<close>

definition api :: "'z engine \<Rightarrow> 'z system \<Rightarrow> (addr \<Rightarrow> ('z, unit) code) \<Rightarrow> php_call \<Rightarrow> ptr \<Rightarrow> ('z, zval) code" where
  "api eng sys ex c rv = (case c of
      Create f \<Rightarrow> coroutine_create eng sys ex f rv
    | GetCurrentCid \<Rightarrow> get_current_cid
    | Yield \<Rightarrow> yield rv
    | Resume z \<Rightarrow> resume eng ex z rv
    | Sleep z \<Rightarrow> sleep eng sys z rv
    | SocketAccept args \<Rightarrow> socket_accept eng args rv
    | SocketRead args \<Rightarrow> socket_read eng args rv
    | SocketWrite args \<Rightarrow> socket_write eng args rv
    | SetTimeout ob t p \<Rightarrow> socket_set_timeout eng sys ob t p
    | SocketClose args \<Rightarrow> socket_close eng args
    | Prepare ob args \<Rightarrow> co_pdo_prepare eng ob args rv
    | FetchAll ob args \<Rightarrow> co_pdo_statement_fetchAll eng ob args rv)"

text \<open>
  What the engine does with a frame: \<open>next_call\<close> runs it to its end (\<open>None\<close>) or to its next call
  of the extension; \<open>after_call\<close> takes the value that call returned.
\<close>

record 'z program =
  next_call :: "addr \<Rightarrow> executor_globals \<Rightarrow> 'z \<Rightarrow> (php_call \<times> ptr) option \<times> executor_globals \<times> 'z"
  after_call :: "addr \<Rightarrow> zval \<Rightarrow> executor_globals \<Rightarrow> 'z \<Rightarrow> executor_globals \<times> 'z"

fun exec :: "'z engine \<Rightarrow> 'z system \<Rightarrow> 'z program \<Rightarrow> nat \<Rightarrow> addr \<Rightarrow> ('z, unit) code" where
  "exec eng sys prog 0 f w = OutOfFuel"
| "exec eng sys prog (Suc n) f w =
     (let (c, e, z) = next_call prog f (eg w) (zend w); w1 = w\<lparr>eg := e, zend := z\<rparr> in
      case c of
        None \<Rightarrow> Ret () w1
      | Some (call, rv) \<Rightarrow>
          bind_o (api eng sys (exec eng sys prog n) call rv w1) (\<lambda>v w2.
            let (e2, z2) = after_call prog f v (eg w2) (zend w2) in
            exec eng sys prog n f (w2\<lparr>eg := e2, zend := z2\<rparr>)))"

section \<open>Lemmas\<close>

lemma api_disciplined: "(\<And>f. disciplined (ex f)) \<Longrightarrow> disciplined (api eng sys ex c rv)"
  unfolding api_def by (cases c) (simp_all add: disc)

lemma exec_disciplined: "disciplined (exec eng sys prog n f)"
proof (induction n arbitrary: f)
  case 0
  show ?case by (simp add: disciplined_def)
next
  case (Suc n)
  show ?case
  proof (rule disciplinedI)
    fix w :: "'a world" assume ok: "ok w"
    obtain c e z where nc: "next_call prog f (eg w) (zend w) = (c, e, z)" by (metis prod_cases3)
    let ?w = "w\<lparr>eg := e, zend := z\<rparr>"
    have fr: "fr None w ?w" by (rule fr_other) simp_all
    have ok1: "ok ?w" using fr_ok [OF fr ok] .
    show "within w (exec eng sys prog (Suc n) f w)"
    proof (cases c)
      case None
      with nc fr show ?thesis by simp
    next
      case (Some cr)
      obtain call rv where cr: "cr = (call, rv)" by (cases cr)
      have cont: "within w2 (let (e2, z2) = after_call prog f v (eg w2) (zend w2) in
            exec eng sys prog n f (w2\<lparr>eg := e2, zend := z2\<rparr>))" if "ok w2" for v and w2 :: "'a world"
      proof -
        obtain e2 z2 where ac: "after_call prog f v (eg w2) (zend w2) = (e2, z2)" by (metis surj_pair)
        have fr2: "fr None w2 (w2\<lparr>eg := e2, zend := z2\<rparr>)" by (rule fr_other) simp_all
        from within_trans [OF fr2 that disciplinedD [OF Suc.IH fr_ok [OF fr2 that]]] ac show ?thesis by simp
      qed
      have "within ?w (bind_o (api eng sys (exec eng sys prog n) call rv ?w) (\<lambda>v w2.
            let (e2, z2) = after_call prog f v (eg w2) (zend w2) in
            exec eng sys prog n f (w2\<lparr>eg := e2, zend := z2\<rparr>)))"
        by (rule within_bind [OF ok1 disciplinedD [OF api_disciplined [OF Suc.IH] ok1] cont])
      with within_trans [OF fr ok] nc Some cr show ?thesis by simp
    qed
  qed
qed


end
