(* ===== verification/Demo.thy ===== *)
theory Demo
  imports Script
begin

text \<open>
  A small engine that makes the model run: a PHP function is a list of calls of the extension, its
  frame the list of calls it has still to make. It follows the conventions of the real engine that
  the extension relies on: a call of the extension has a frame of its own on top of the caller's,
  and the caller's opline is stepped when the call is finished, by the engine or by
  \<open>c_coro_resume\<close>. The witnesses of the theorems run on it.
\<close>

record demo =
  todo :: "nat \<Rightarrow> php_call list"
  below :: "nat \<Rightarrow> ptr"
  frames :: nat
  returned :: "zval list"

definition demo_engine :: "(nat \<Rightarrow> php_call list) \<Rightarrow> bool \<Rightarrow> demo engine" where
  "demo_engine functions uses =
     \<lparr>push_call_frame = (\<lambda>f argc e z. (frames z, e, z\<lparr>todo := (todo z)(frames z := functions f), frames := Suc (frames z)\<rparr>)),
      set_args = (\<lambda>c args z. z),
      init_execute_data = (\<lambda>c r e z. (e\<lparr>current_execute_data := Some c\<rparr>, z\<lparr>below := (below z)(c := None)\<rparr>)),
      release_frame = (\<lambda>c e z. (e, z)),
      prev_execute_data = (\<lambda>c z. below z c),
      result_used = (\<lambda>f z. uses),
      opline_inc = (\<lambda>f z. z\<lparr>todo := (todo z)(f := tl (todo z f))\<rparr>),
      zval_copy = (\<lambda>d v z. z\<lparr>returned := returned z @ [v]\<rparr>),
      zval_ptr_dtor = (\<lambda>v z. z),
      zval_add_ref = (\<lambda>v z. z),
      callable = (\<lambda>v z. case v of ZLong n \<Rightarrow> Some (nat n) | _ \<Rightarrow> None),
      parse_long = (\<lambda>v. case v of ZLong n \<Rightarrow> Some n | _ \<Rightarrow> None),
      parse_bool = (\<lambda>v. case v of ZBool b \<Rightarrow> Some b | _ \<Rightarrow> None),
      parameters_ok = (\<lambda>args z. True),
      php = (\<lambda>z. env_none),
      call_user_function = (\<lambda>ob f args k z. (ZBool True, k, z))\<rparr>"

definition demo_system :: "int \<Rightarrow> demo system" where
  "demo_system tfd = \<lparr>sys_time = (\<lambda>z. 0), sys_epoll_create = (\<lambda>z. (3, z)), sys_timerfd_create = (\<lambda>z. (tfd, z)),
     sys_clock_gettime = (\<lambda>z. (Some (100, 0), z)), sys_gettimeofday = (\<lambda>z. ((100, 0), z)),
     sys_epoll_wait = (\<lambda>r z. ([], z))\<rparr>"

definition demo_program :: "demo program" where
  "demo_program =
     \<lparr>next_call = (\<lambda>f e z. case todo z f of [] \<Rightarrow> (None, e, z)
        | c # cs \<Rightarrow> (Some (c, Some 0), e\<lparr>current_execute_data := Some (frames z)\<rparr>,
            z\<lparr>below := (below z)(frames z := Some f), frames := Suc (frames z)\<rparr>)),
      after_call = (\<lambda>f v e z. (e\<lparr>current_execute_data := Some f\<rparr>,
        z\<lparr>todo := (todo z)(f := tl (todo z f)), returned := returned z @ [v]\<rparr>))\<rparr>"

text \<open>A request that starts: frame 0 is the main script, nothing is initialised.\<close>

definition demo_world :: "php_call list \<Rightarrow> demo world" where
  "demo_world main =
     \<lparr>eg = \<lparr>vm_stack = Some 0, vm_stack_top = Some (0, 48), vm_stack_end = Some (0, 262144),
        current_execute_data = Some 0, exception = False\<rparr>,
      corog = \<lparr>coro_num = 0, max_coro_num = 0, stack_size = 0, origin_vm_stack = None, origin_vm_stack_top = None,
        origin_vm_stack_end = None, allocated_return_value_ptr = None, origin_ex = None, current_coro = None, require = False\<rparr>,
      checkPoint = None, jmps = empty_heap, setjmps = 0,
      vm_pages = \<lparr>cells = (\<lambda>_. None)(0 := Some \<lparr>pg_size = 262144, pg_top = None, pg_end = None, pg_prev = None, pg_task = \<lambda>_. None\<rparr>),
        fresh = 1, oom = \<lambda>_. False\<rparr>,
      ctxs = empty_heap, zvs = empty_heap, fcaches = empty_heap, cids = cidmap_init, cid_context_map = (\<lambda>_. None),
      rg = reg_none, zend = \<lparr>todo = (\<lambda>_. [])(0 := main), below = (\<lambda>_. None), frames = 1, returned = []\<rparr>\<rparr>"

text \<open>The same request after \<open>coro_init\<close>.\<close>

definition demo_ready :: "php_call list \<Rightarrow> demo world" where
  "demo_ready main = (demo_world main)\<lparr>
      corog := (corog (demo_world main))\<lparr>max_coro_num := 3000, stack_size := 8192, origin_vm_stack := Some 0,
        origin_vm_stack_top := Some (0, 48), origin_vm_stack_end := Some (0, 262144), origin_ex := Some 0\<rparr>,
      checkPoint := Some 0, jmps := \<lparr>cells = (\<lambda>_. None)(0 := Some None), fresh = 1, oom = \<lambda>_. False\<rparr>\<rparr>"

text \<open>
  A coroutine with id 1 is running, on page 1, inside the \<open>setjmp\<close> number 0 of buffer 1; frame 1 is
  its function and frame 2 the call of the extension it is in.
\<close>

definition demo_task :: coro_task where
  "demo_task = \<lparr>cid = 1, task_function = None, start_time = 0, post_callback = None, post_callback_params = None\<rparr>"

definition cidmap_one_used :: cidmap where
  "cidmap_one_used = cidmap_init\<lparr>page := (page cidmap_init)(0 := 1), nr_free := 0x7fff, last_cid := 0\<rparr>"

definition demo_coro :: "php_call list \<Rightarrow> demo world" where
  "demo_coro calls = (demo_ready [])\<lparr>
      eg := \<lparr>vm_stack = Some 1, vm_stack_top = Some (1, 96), vm_stack_end = Some (1, 8192),
        current_execute_data = Some 2, exception = False\<rparr>,
      corog := (corog (demo_ready []))\<lparr>coro_num := 1, current_coro := Some (1, 48), require := True,
        allocated_return_value_ptr := Some 0\<rparr>,
      checkPoint := Some 1, setjmps := 1,
      jmps := \<lparr>cells = (\<lambda>_. None)(0 := Some None, 1 := Some (Some 0)), fresh = 2, oom = \<lambda>_. False\<rparr>,
      vm_pages := \<lparr>cells = (cells (vm_pages (demo_ready [])))(1 := Some \<lparr>pg_size = 8192, pg_top = Some (1, 48),
         pg_end = Some (1, 8192), pg_prev = None, pg_task = (\<lambda>_. None)(48 := Some demo_task)\<rparr>), fresh = 2, oom = \<lambda>_. False\<rparr>,
      zvs := \<lparr>cells = (\<lambda>_. None)(0 := Some ZUndef), fresh = 1, oom = \<lambda>_. False\<rparr>,
      cids := cidmap_one_used,
      zend := \<lparr>todo = (\<lambda>_. [])(1 := calls), below = (\<lambda>_. None)(2 := Some 1), frames = 3, returned = []\<rparr>\<rparr>"

lemmas demo_defs = demo_engine_def demo_program_def demo_system_def demo_ready_def demo_world_def demo_coro_def
  demo_task_def empty_heap_def

lemma demo_alloc: "alloc_cidmap cidmap_init = Inr (1, cidmap_one_used)"
  by (simp add: alloc_cidmap_def cidmap_one_used_def cidmap_init_def find_next_zero_bit_def find_zero_loop.simps word_index_def
      bit_mask_def test_and_set_bit_def)

lemma demo_ids: "cid_inv cidmap_one_used" "used cidmap_one_used = {1}"
proof -
  obtain c m where "alloc_cidmap cidmap_init = Inr (c, m)" "cid_inv m" "used m = {c}" by (rule cidmap_one)
  with demo_alloc show "cid_inv cidmap_one_used" "used cidmap_one_used = {1}" by simp_all
qed

lemma demo_ok: "ok (demo_ready calls)" "ok (demo_coro calls)"
  by (simp_all add: ok_def parked_def demo_defs)

lemma demo_load_task: "load_task (current_coro (corog (demo_coro calls))) (demo_coro calls) = Inr demo_task"
  by (simp add: demo_defs load_task_def task_cell_def sizeof_task_def)

end
