(* ===== verification/Lifecycle.thy ===== *)
theory Lifecycle
  imports Demo
begin

text \<open>
  The life of a coroutine, for every engine and every PHP program that leaves the event loop to the
  script: what creating, yielding, resuming and closing do to the ids, the stacks and the contexts, and what the caller sees.
\<close>

section \<open>Lemmas\<close>

text \<open>\<open>started c w w1\<close>: from \<open>w\<close>, a coroutine with id \<open>c\<close> is about to run its first instruction in
  \<open>w1\<close>, on a stack page of its own with its task record at the bottom.\<close>

definition started :: "int \<Rightarrow> ptr \<Rightarrow> ptr \<Rightarrow> 'z world \<Rightarrow> 'z world \<Rightarrow> bool" where
  "started c post params w w1 \<longleftrightarrow>
     (\<exists>pg t. current_coro (corog w1) = Some (fresh (vm_pages w), 48)
        \<and> cells (vm_pages w1) (fresh (vm_pages w)) = Some pg
        \<and> pg_size pg = uint (stack_size (corog w)) \<and> pg_prev pg = None \<and> pg_task pg 48 = Some t
        \<and> cid t = c \<and> task_function t = None \<and> post_callback t = post \<and> post_callback_params t = params)
   \<and> (\<forall>a. a \<noteq> fresh (vm_pages w) \<longrightarrow> cells (vm_pages w1) a = cells (vm_pages w) a)
   \<and> allocated_return_value_ptr (corog w1) = Some (fresh (zvs w))
   \<and> cells (zvs w1) = (cells (zvs w))(fresh (zvs w) := Some ZUndef)
   \<and> coro_num (corog w1) = coro_num (corog w) + 1 \<and> require (corog w1)
   \<and> origin_vm_stack (corog w1) = origin_vm_stack (corog w) \<and> max_coro_num (corog w1) = max_coro_num (corog w)
   \<and> checkPoint w1 = checkPoint w \<and> jmps w1 = jmps w \<and> setjmps w1 = setjmps w \<and> ctxs w1 = ctxs w
   \<and> cid_context_map w1 = cid_context_map w \<and> rg w1 = rg w \<and> cids w1 = cids w"

lemmas page_layout = stack_elements_def zval_size_def sizeof_task_def TASK_SLOT_def

lemma coro_enter_started:
  assumes "88 \<le> uint (stack_size (corog w))"
  shows "\<exists>call w1. coro_enter eng sys fci argv post params c w = Ret call w1 \<and> started c post params w w1"
  using assms
  by (simp add: coro_enter_def run_c c_vm_stack_init_def emalloc_def Let_def store_task_def task_cell_def page_layout
      try_upd_def started_def split: prod.splits)

lemma load_task_at:
  "q = Some (a, off) \<Longrightarrow> cells (vm_pages w) a = Some pg \<Longrightarrow> 0 \<le> off \<Longrightarrow> off + sizeof_task \<le> pg_size pg \<Longrightarrow>
   pg_task pg off = Some t \<Longrightarrow> load_task q w = Inr t"
  by (simp add: load_task_def task_cell_def)

lemma started_task:
  assumes "started c post params w w1" and "88 \<le> uint (stack_size (corog w))"
  shows "\<exists>t. load_task (current_coro (corog w1)) w1 = Inr t \<and> cid t = c \<and> task_function t = None"
proof -
  obtain pg t where pg: "current_coro (corog w1) = Some (fresh (vm_pages w), 48)"
    "cells (vm_pages w1) (fresh (vm_pages w)) = Some pg" "pg_size pg = uint (stack_size (corog w))"
    "pg_task pg 48 = Some t" and "cid t = c" "task_function t = None"
    using assms(1) by (auto simp: started_def)
  moreover have "load_task (current_coro (corog w1)) w1 = Inr t"
    by (rule load_task_at [OF pg(1,2) _ _ pg(4)]) (use pg assms(2) in \<open>simp_all add: page_layout\<close>)
  ultimately show ?thesis by blast
qed

text \<open>The frame it runs: pushed on the new page, behind the task, for the function and its arguments.\<close>

definition fresh_stack :: "'z world \<Rightarrow> executor_globals" where
  "fresh_stack w = (eg w)\<lparr>vm_stack := Some (fresh (vm_pages w)), vm_stack_top := Some (fresh (vm_pages w), 96),
     vm_stack_end := Some (fresh (vm_pages w), uint (stack_size (corog w)))\<rparr>"

lemma fresh_stack_exception [simp]: "exception (fresh_stack w) = exception (eg w)"
  by (simp add: fresh_stack_def)

lemma coro_enter_frame:
  assumes "coro_enter eng sys fci argv post params c w = Ret call w1" and "88 \<le> uint (stack_size (corog w))"
  obtains e1 z1 where "push_call_frame eng fci (int (length argv)) (fresh_stack w) (zend w) = (call, e1, z1)"
    and "init_execute_data eng call (fresh (zvs w)) (e1\<lparr>current_execute_data := None\<rparr>) (set_args eng call argv z1) = (eg w1, zend w1)"
    and "fcaches w1 = fcaches w"
    and "\<forall>t. load_task (current_coro (corog w1)) w1 = Inr t \<longrightarrow> start_time t = sys_time sys (zend w1)"
proof -
  have eq: "(eg w)\<lparr>vm_stack := Some (fresh (vm_pages w)), vm_stack_end := Some (fresh (vm_pages w), uint (stack_size (corog w))),
      vm_stack_top := Some (fresh (vm_pages w), 96)\<rparr> = fresh_stack w" by (simp add: fresh_stack_def)
  obtain cl e1 z1 where push: "push_call_frame eng fci (int (length argv)) (fresh_stack w) (zend w) = (cl, e1, z1)" by (metis prod_cases3)
  obtain e2 z2 where init: "init_execute_data eng cl (fresh (zvs w)) (e1\<lparr>current_execute_data := None\<rparr>) (set_args eng cl argv z1) = (e2, z2)"
    by (metis surj_pair)
  have "cl = call" "fcaches w1 = fcaches w" "eg w1 = e2" "zend w1 = z2"
    "\<forall>t. load_task (current_coro (corog w1)) w1 = Inr t \<longrightarrow> start_time t = sys_time sys z2"
    using assms push init
    by (auto simp: coro_enter_def run_c c_vm_stack_init_def emalloc_def Let_def store_task_def task_cell_def try_upd_def page_layout
        load_task_def eq split: if_splits)
  then show thesis using that push init by simp
qed

lemma c_coro_create_alloc:
  assumes "alloc_cidmap (cids w) = Inr (c, m)"
  shows "c_coro_create eng sys ex fci argv post params w =
    (if max_coro_num (corog w) \<le> coro_num (corog w) \<and> c \<noteq> -1 then Ret CORO_LIMIT (w\<lparr>cids := m\<rparr>)
     else bind_o (coro_enter eng sys fci argv post params c (w\<lparr>cids := m\<rparr>)) (coro_run eng ex))"
  using assms by (simp add: c_coro_create_def run_c)

text \<open>\<open>closable t p r w\<close>: the current coroutine, with task \<open>t\<close>, page \<open>p\<close> and return value \<open>r\<close>, has
  returned from its function and is about to be closed.\<close>

definition closable :: "coro_task \<Rightarrow> addr \<Rightarrow> addr \<Rightarrow> 'z world \<Rightarrow> bool" where
  "closable t p r w \<longleftrightarrow> load_task (current_coro (corog w)) w = Inr t
     \<and> vm_stack (eg w) = Some p \<and> cells (vm_pages w) p \<noteq> None
     \<and> allocated_return_value_ptr (corog w) = Some r \<and> cells (zvs w) r \<noteq> None
     \<and> (\<forall>g. task_function t = Some g \<longrightarrow> g \<noteq> r \<and> cells (zvs w) g \<noteq> None)
     \<and> cid_inv (cids w) \<and> cid t \<in> used (cids w)"

lemma load_task_pages: "vm_pages w' = vm_pages w \<Longrightarrow> load_task q w' = load_task q w"
  unfolding load_task_def task_cell_def by (cases q) simp_all

lemma load_task_SomeE:
  assumes "load_task q w = Inr t"
  obtains a off pg where "q = Some (a, off)" and "cells (vm_pages w) a = Some pg" and "task_cell q w = Inr (a, off, pg)"
    and "pg_task pg off = Some t"
  using assms by (auto simp: load_task_def task_cell_def load_Inr_iff split: option.splits if_splits prod.splits)

text \<open>Dropping the callback of a task that ends.\<close>

lemma drop_function:
  assumes cl: "closable t p r w" and g: "task_function t = Some g"
  obtains z pgs where
    "bind_res (c_zval_free eng (task_function t) w) (store_task (current_coro (corog w)) (t\<lparr>task_function := None\<rparr>))
      = Inr (w\<lparr>zvs := (zvs w)\<lparr>cells := (cells (zvs w))(g := None)\<rparr>, zend := z, vm_pages := (vm_pages w)\<lparr>cells := pgs\<rparr>\<rparr>)"
    and "pgs p \<noteq> None" and "\<forall>a. pgs a = None \<longleftrightarrow> cells (vm_pages w) a = None" and "\<forall>a. a \<noteq> fst (the (current_coro (corog w))) \<longrightarrow> pgs a = cells (vm_pages w) a"
    and "\<exists>v. z = zval_ptr_dtor eng v (zend w)"
proof -
  have lt: "load_task (current_coro (corog w)) w = Inr t" using cl by (simp add: closable_def)
  then obtain a off pg where q: "current_coro (corog w) = Some (a, off)" "cells (vm_pages w) a = Some pg"
    "task_cell (current_coro (corog w)) w = Inr (a, off, pg)" by (rule load_task_SomeE)
  obtain v where v: "cells (zvs w) g = Some v" using cl g by (auto simp: closable_def)
  have tc: "task_cell (current_coro (corog w)) (w\<lparr>zvs := h, zend := z\<rparr>) = Inr (a, off, pg)" for h z
    using q(1,3) by (simp add: task_cell_def)
  show thesis
    by (rule that [where z = "zval_ptr_dtor eng v (zend w)" and pgs =
          "(cells (vm_pages w))(a := Some (pg\<lparr>pg_task := (pg_task pg)(off := Some (t\<lparr>task_function := None\<rparr>))\<rparr>))"])
      (use g v q cl tc in \<open>auto simp: c_zval_free_def efree_zval_def store_task_def closable_def\<close>)
qed

text \<open>The world after closing.\<close>

definition closed :: "addr \<Rightarrow> addr \<Rightarrow> cidmap \<Rightarrow> 'z world \<Rightarrow> 'z world" where
  "closed p r m w = w\<lparr>cids := m, vm_pages := (vm_pages w)\<lparr>cells := (cells (vm_pages w))(p := None)\<rparr>,
       zvs := (zvs w)\<lparr>cells := (cells (zvs w))(r := None)\<rparr>,
       eg := (eg w)\<lparr>vm_stack := origin_vm_stack (corog w), vm_stack_top := origin_vm_stack_top (corog w),
           vm_stack_end := origin_vm_stack_end (corog w)\<rparr>,
       corog := (corog w)\<lparr>coro_num := coro_num (corog w) - 1, current_coro := None\<rparr>\<rparr>"

lemma close_rest:
  assumes "cells (vm_pages w) p \<noteq> None" and "vm_stack (eg w) = Some p"
    and "allocated_return_value_ptr (corog w) = Some r" and "cells (zvs w) r \<noteq> None"
    and "free_cidmap c (cids w) = Inr m"
  shows "coro_release eng c w = Ret () (closed p r m w)"
  using assms by (auto simp: coro_release_def run_c try_upd_def efree_zval_def closed_def)

lemma coro_close_ok:
  assumes cl: "closable t p r w"
  obtains w' m where "coro_close eng w = Ret () w'" and "free_cidmap (cid t) (cids w) = Inr m" and "cids w' = m"
    and "cells (vm_pages w') p = None" and "cells (zvs w') r = None"
    and "\<forall>g. task_function t = Some g \<longrightarrow> cells (zvs w') g = None"
    and "\<forall>a. a \<noteq> r \<longrightarrow> task_function t \<noteq> Some a \<longrightarrow> cells (zvs w') a = cells (zvs w) a"
    and "\<forall>a. a \<noteq> p \<longrightarrow> a \<noteq> fst (the (current_coro (corog w))) \<longrightarrow> cells (vm_pages w') a = cells (vm_pages w) a"
    and "corog w' = (corog w)\<lparr>coro_num := coro_num (corog w) - 1, current_coro := None\<rparr>"
    and "eg w' = (eg w)\<lparr>vm_stack := origin_vm_stack (corog w), vm_stack_top := origin_vm_stack_top (corog w),
           vm_stack_end := origin_vm_stack_end (corog w)\<rparr>"
    and "\<forall>a. a \<noteq> p \<longrightarrow> (cells (vm_pages w') a = None \<longleftrightarrow> cells (vm_pages w) a = None)"
    and "ctxs w' = ctxs w" and "jmps w' = jmps w" and "setjmps w' = setjmps w" and "checkPoint w' = checkPoint w" and "fcaches w' = fcaches w"
    and "rg w' = rg w" and "cid_context_map w' = cid_context_map w" and "zend w' = zend w \<or> (\<exists>v. zend w' = zval_ptr_dtor eng v (zend w))"
proof -
  have lt: "load_task (current_coro (corog w)) w = Inr t" and c: "cid_inv (cids w)" "cid t \<in> used (cids w)"
    using cl by (simp_all add: closable_def)
  obtain m where m: "free_cidmap (cid t) (cids w) = Inr m" using cm.release_ok [OF c] by blast
  show thesis
  proof (cases "task_function t")
    case None
    then have "coro_close eng w = Ret () (closed p r m w)"
      using close_rest [of w p r "cid t" m eng] cl m lt
      by (simp add: coro_close_def coro_drop_def coro_release_def bind_c_run try_c_run seq_c_run [of "ret_c ()"] ret_c_run closable_def)
    then show thesis by (rule that [OF _ m]) (use None in \<open>auto simp: closed_def\<close>)
  next
    case (Some g)
    obtain z pgs where d: "bind_res (c_zval_free eng (task_function t) w)
         (store_task (current_coro (corog w)) (t\<lparr>task_function := None\<rparr>))
      = Inr (w\<lparr>zvs := (zvs w)\<lparr>cells := (cells (zvs w))(g := None)\<rparr>, zend := z, vm_pages := (vm_pages w)\<lparr>cells := pgs\<rparr>\<rparr>)"
      and pg: "pgs p \<noteq> None" "\<forall>a. pgs a = None \<longleftrightarrow> cells (vm_pages w) a = None" "\<forall>a. a \<noteq> fst (the (current_coro (corog w))) \<longrightarrow> pgs a = cells (vm_pages w) a"
        "\<exists>v. z = zval_ptr_dtor eng v (zend w)"
      by (rule drop_function [OF cl Some])
    let ?w = "w\<lparr>zvs := (zvs w)\<lparr>cells := (cells (zvs w))(g := None)\<rparr>, zend := z, vm_pages := (vm_pages w)\<lparr>cells := pgs\<rparr>\<rparr>"
    have "coro_close eng w = Ret () (closed p r m ?w)"
      using close_rest [of ?w p r "cid t" m eng] cl Some pg(1) m lt d
      by (simp add: coro_close_def coro_drop_def coro_release_def bind_c_run try_c_run seq_c_run [of "try_upd _"] try_upd_run closable_def)
    then show thesis by (rule that [OF _ m]) (use Some pg in \<open>auto simp: closed_def\<close>)
  qed
qed

lemma c_coro_create_limit:
  assumes "cid_inv (cids w)" and "nr_free (cids w) \<noteq> 0" and "max_coro_num (corog w) \<le> coro_num (corog w)"
  shows "\<exists>c m. c_coro_create eng sys ex fci argv post params w = Ret CORO_LIMIT (w\<lparr>cids := m\<rparr>)
    \<and> c \<notin> used (cids w) \<and> used m = insert c (used (cids w)) \<and> cid_inv m"
proof -
  have "card (used (cids w)) < 32768"
    using assms(1,2) unat_nr_free_zero card_used [of "cids w"] by fastforce
  then obtain c m where a: "alloc_cidmap (cids w) = Inr (c, m)" "c \<notin> used (cids w)" "used m = insert c (used (cids w))"
    "cid_inv m" using cm.alloc_ok [OF assms(1)] by auto
  then have "c \<noteq> -1" using used_range [of m] by auto
  with c_coro_create_alloc [OF a(1), of eng sys ex] a assms(3) show ?thesis by auto
qed

section \<open>Properties\<close>

text \<open>C1: for every engine and all PHP code that does not run the event loop inside the coroutine
  (nested creations, resumptions and waits included), a call of
  \<open>coroutine_create\<close> lets no \<open>longjmp\<close> escape, and when it returns it returns \<open>TRUE\<close> and the caller
  finds its VM stack registers, its frame, its task, its return value, its checkpoint with the content of
  every older jump buffer, and every saved context that is not parked for \<open>resume\<close>, as they were. In
  the first call of a request, \<open>coro_init\<close> runs first (\<open>initialised\<close>), leaves the registers, the task
  and the contexts alone, and the checkpoint afterwards is the one it made.\<close>

theorem coroutine_create_transparent:
  assumes "parked_ok w" and "\<forall>b. checkPoint w = Some b \<longrightarrow> b < fresh (jmps w)"
  shows "case coroutine_create eng sys (exec eng sys prog n) func rv w of
      Ret v w' \<Rightarrow> v = ZBool True \<and> restores (initialised sys w) w' \<and> checkPoint w' = checkPoint (initialised sys w)
        \<and> (\<forall>b < fresh (jmps (initialised sys w)). cells (jmps w') b = cells (jmps (initialised sys w)) b)
        \<and> (\<forall>a < fresh (ctxs w). a \<notin> parked w \<longrightarrow> cells (ctxs w') a = cells (ctxs w) a)
        \<and> eg (initialised sys w) = eg w \<and> current_coro (corog (initialised sys w)) = current_coro (corog w)
        \<and> allocated_return_value_ptr (corog (initialised sys w)) = allocated_return_value_ptr (corog w)
        \<and> checkPoint (initialised sys w) = (if checkPoint w = None then Some (fresh (jmps w)) else checkPoint w)
        \<and> (\<forall>b < fresh (jmps w). cells (jmps (initialised sys w)) b = cells (jmps w) b)
    | Jump t w' \<Rightarrow> False
    | _ \<Rightarrow> True"
proof -
  let ?i = "initialised sys w"
  have "transparent (ZBool True) ?i (coroutine_create eng sys (exec eng sys prog n) func rv w)"
  proof (cases "checkPoint w")
    case None
    from coroutine_create_transparent_first [where ex = "exec eng sys prog n", OF exec_disciplined assms(1) this] show ?thesis .
  next
    case (Some b)
    with assms have "ok w" by (auto simp: ok_def parked_ok_def)
    with coroutine_create_is_transparent [where ex = "exec eng sys prog n", OF exec_disciplined] Some show ?thesis
      by (simp add: initialised_def)
  qed
  moreover have "eg ?i = eg w" "current_coro (corog ?i) = current_coro (corog w)" "ctxs ?i = ctxs w" "parked ?i = parked w"
    "allocated_return_value_ptr (corog ?i) = allocated_return_value_ptr (corog w)"
    "checkPoint ?i = (if checkPoint w = None then Some (fresh (jmps w)) else checkPoint w)"
    "\<forall>b < fresh (jmps w). cells (jmps ?i) b = cells (jmps w) b"
    by (simp_all add: initialised_def parked_def coro_init_def run_c emalloc_def Let_def split: prod.splits)
  ultimately show ?thesis by (auto simp: transparent_def fr_def split: outcome.splits)
qed

lemma demo_create_returns:
  "\<exists>w'. coroutine_create (demo_engine (\<lambda>_. []) False) (demo_system 9)
      (exec (demo_engine (\<lambda>_. []) False) (demo_system 9) demo_program 1) (ZLong 1) None (demo_ready []) = Ret (ZBool True) w'"
proof -
  have fr1: "free_cidmap 1 cidmap_one_used = Inr (cidmap_one_used\<lparr>page := (page cidmap_one_used)(0 := 0), nr_free := 0x8000\<rparr>)"
    by (simp add: free_cidmap_def cidmap_one_used_def cidmap_init_def clear_bit_def word_index_def bit_mask_def)
  show ?thesis
    apply (simp add: coroutine_create_unfold demo_engine_def demo_ready_def demo_world_def Let_def)
    apply (simp add: c_coro_create_def coro_enter_def run_c demo_alloc c_vm_stack_init_def emalloc_def Let_def
        empty_heap_def scoped_def page_layout demo_system_def store_task_def task_cell_def)
    apply (simp add: coro_run_def run_c setjmp_c_def demo_program_def coro_close_def coro_drop_def coro_release_def load_task_def task_cell_def
        sizeof_task_def fr1 efree_zval_def)
    apply (simp add: create_finish_def run_c keep_callback_def c_zval_free_def efree_zval_def try_upd_def
        efree_checkpoint_def c_coro_resume_parent_def load_ctx_def try_c_def efree_ctx_def)
    done
qed

theorem coroutine_create_transparent_witness:
  "\<exists>w'. coroutine_create (demo_engine (\<lambda>_. []) False) (demo_system 9)
      (exec (demo_engine (\<lambda>_. []) False) (demo_system 9) demo_program 1) (ZLong 1) None (demo_ready []) = Ret (ZBool True) w'
    \<and> restores (demo_ready []) w' \<and> checkPoint w' = Some 0"
proof -
  have p: "parked_ok (demo_ready [])" "\<forall>b. checkPoint (demo_ready []) = Some b \<longrightarrow> b < fresh (jmps (demo_ready []))"
    "initialised (demo_system 9) (demo_ready []) = demo_ready []" "checkPoint (demo_ready []) = Some 0"
    using demo_ok(1) [of "[]"] by (auto simp: ok_def parked_ok_def initialised_def demo_ready_def)
  from coroutine_create_transparent [OF p(1,2), where eng = "demo_engine (\<lambda>_. []) False" and sys = "demo_system 9" and prog = demo_program
      and n = 1 and func = "ZLong 1" and rv = None]
    demo_create_returns p(3,4) show ?thesis by auto
qed

text \<open>C13: a \<open>longjmp\<close> that leaves a PHP function which does not run the event loop (whatever
  coroutines it creates and resumes) goes to the \<open>setjmp\<close> recorded in the checkpoint that was current
  when the function was entered, the innermost one, and leaves that checkpoint current.\<close>

theorem longjmp_innermost:
  assumes "ok w" and "exec eng sys prog n f w = Jump t w'"
  shows "tok_at w (checkPoint w) = Some t \<and> checkPoint w' = checkPoint w
    \<and> tok_at w' (checkPoint w') = Some t"
  using disciplinedD [OF exec_disciplined assms(1), of eng sys prog n f] assms fr_tok [of w w']
  by (auto simp: within_def fr_def)

theorem longjmp_innermost_witness:
  "\<exists>w'. exec (demo_engine (\<lambda>_. []) False) (demo_system 9) demo_program 1 1 (demo_coro [Yield]) = Jump 0 w'
    \<and> tok_at w' (checkPoint w') = Some 0"
proof -
  have "\<exists>w'. exec (demo_engine (\<lambda>_. []) False) (demo_system 9) demo_program 1 1 (demo_coro [Yield]) = Jump 0 w'"
    by (simp add: demo_defs api_def yield_def emalloc_save run_c saved_def load_task_def task_cell_def sizeof_task_def
        try_upd_def cid_in_range_def coro_yield_def longjmp_c_def)
  with longjmp_innermost [OF demo_ok(2)] show ?thesis by blast
qed

text \<open>C15: below the limit and with an id to give, \<open>c_coro_create\<close> takes an id nobody holds and runs
  the function it is given: the VM stack registers are set to a new page of the configured size behind its
  task record, the call frame is the one the engine pushes there for this function and this number of
  arguments, the arguments are stored in it, and it is initialised for a new return value with no frame
  below it. The task record holds the id, the time and the callback; the count of coroutines is one more,
  and no other page, value, context, jump buffer, function cache or registration has changed.\<close>

theorem c_coro_create_starts:
  assumes "cid_inv (cids w)" and "nr_free (cids w) \<noteq> 0" and "coro_num (corog w) < max_coro_num (corog w)"
    and "88 \<le> uint (stack_size (corog w))"
  shows "\<exists>c m call w1 e1 z1. c_coro_create eng sys ex fci argv post params w = coro_run eng ex call w1
    \<and> started c post params (w\<lparr>cids := m\<rparr>) w1 \<and> 1 \<le> c \<and> c \<le> 32768 \<and> c \<notin> used (cids w)
    \<and> used (cids w1) = insert c (used (cids w)) \<and> cid_inv (cids w1)
    \<and> (\<exists>t. load_task (current_coro (corog w1)) w1 = Inr t \<and> cid t = c \<and> start_time t = sys_time sys (zend w1))
    \<and> push_call_frame eng fci (int (length argv)) ((eg w)\<lparr>vm_stack := Some (fresh (vm_pages w)),
         vm_stack_top := Some (fresh (vm_pages w), 96), vm_stack_end := Some (fresh (vm_pages w), uint (stack_size (corog w)))\<rparr>) (zend w)
       = (call, e1, z1)
    \<and> init_execute_data eng call (fresh (zvs w)) (e1\<lparr>current_execute_data := None\<rparr>) (set_args eng call argv z1) = (eg w1, zend w1)
    \<and> fcaches w1 = fcaches w"
proof -
  have "card (used (cids w)) < 32768"
    using assms(1,2) unat_nr_free_zero card_used [of "cids w"] by fastforce
  then obtain c m where a: "alloc_cidmap (cids w) = Inr (c, m)" "c \<notin> used (cids w)" "used m = insert c (used (cids w))"
    "cid_inv m" using cm.alloc_ok [OF assms(1)] by auto
  then have c: "1 \<le> c" "c \<le> 32768" using used_range [of m] by auto
  let ?w = "w\<lparr>cids := m\<rparr>"
  have st: "88 \<le> uint (stack_size (corog ?w))" using assms(4) by simp
  obtain call w1 where e: "coro_enter eng sys fci argv post params c ?w = Ret call w1"
    and s: "started c post params ?w w1" using coro_enter_started [OF st] by blast
  obtain e1 z1 where frame: "push_call_frame eng fci (int (length argv)) (fresh_stack ?w) (zend ?w) = (call, e1, z1)"
    "init_execute_data eng call (fresh (zvs ?w)) (e1\<lparr>current_execute_data := None\<rparr>) (set_args eng call argv z1) = (eg w1, zend w1)"
    "fcaches w1 = fcaches ?w" "\<forall>t. load_task (current_coro (corog w1)) w1 = Inr t \<longrightarrow> start_time t = sys_time sys (zend w1)"
    by (rule coro_enter_frame [OF e st])
  have "c_coro_create eng sys ex fci argv post params w = coro_run eng ex call w1"
    using c_coro_create_alloc [OF a(1), of eng sys ex] e assms(3) by (simp add: not_le [symmetric])
  moreover have "used (cids w1) = insert c (used (cids w))" "cid_inv (cids w1)" using s a by (simp_all add: started_def)
  moreover have "\<exists>t. load_task (current_coro (corog w1)) w1 = Inr t \<and> cid t = c \<and> start_time t = sys_time sys (zend w1)"
    using started_task [OF s st] frame(4) by blast
  ultimately show ?thesis
    using s a(2) c frame
    by (intro exI [of _ c] exI [of _ m] exI [of _ call] exI [of _ w1] exI [of _ e1] exI [of _ z1]) (simp add: fresh_stack_def)
qed

theorem c_coro_create_starts_witness:
  "\<exists>c m call w1. c_coro_create (demo_engine (\<lambda>_. []) False) (demo_system 9) (\<lambda>f. ret_c ()) 1 [] None None (demo_ready []) =
      coro_run (demo_engine (\<lambda>_. []) False) (\<lambda>f. ret_c ()) call w1
    \<and> started c None None ((demo_ready [])\<lparr>cids := m\<rparr>) w1 \<and> used (cids w1) = {c} \<and> call = 1 \<and> vm_stack (eg w1) = Some 1"
proof -
  have f: "cid_inv (cids (demo_ready []))" "nr_free (cids (demo_ready [])) \<noteq> 0"
    "coro_num (corog (demo_ready [])) < max_coro_num (corog (demo_ready []))"
    "88 \<le> uint (stack_size (corog (demo_ready [])))" "used (cids (demo_ready [])) = {}"
    by (simp_all add: demo_defs) (simp add: cidmap_init_def)
  have d: "frames (zend (demo_ready [])) = 1" "fresh (vm_pages (demo_ready [])) = 1" by (simp_all add: demo_ready_def demo_world_def)
  have e: "push_call_frame (demo_engine (\<lambda>_. []) False) g n x z = (frames z, x, z\<lparr>todo := (todo z)(frames z := []), frames := Suc (frames z)\<rparr>)"
    "init_execute_data (demo_engine (\<lambda>_. []) False) k r x z = (x\<lparr>current_execute_data := Some k\<rparr>, z\<lparr>below := (below z)(k := None)\<rparr>)"
    for g n x z k r by (simp_all add: demo_engine_def)
  obtain c m call w1 e1 z1 where s: "c_coro_create (demo_engine (\<lambda>_. []) False) (demo_system 9) (\<lambda>f. ret_c ()) 1 [] None None (demo_ready []) =
      coro_run (demo_engine (\<lambda>_. []) False) (\<lambda>f. ret_c ()) call w1"
    "started c None None ((demo_ready [])\<lparr>cids := m\<rparr>) w1" "used (cids w1) = insert c {}"
    "push_call_frame (demo_engine (\<lambda>_. []) False) 1 (int (length ([] :: zval list))) ((eg (demo_ready []))\<lparr>vm_stack := Some 1,
         vm_stack_top := Some (1, 96), vm_stack_end := Some (1, uint (stack_size (corog (demo_ready []))))\<rparr>) (zend (demo_ready [])) = (call, e1, z1)"
    "init_execute_data (demo_engine (\<lambda>_. []) False) call (fresh (zvs (demo_ready []))) (e1\<lparr>current_execute_data := None\<rparr>)
       (set_args (demo_engine (\<lambda>_. []) False) call [] z1) = (eg w1, zend w1)"
    using c_coro_create_starts [OF f(1-4), of "demo_engine (\<lambda>_. []) False" "demo_system 9" "\<lambda>f. ret_c ()" 1 "[]" None None]
    unfolding f(5) d(2) by (elim exE conjE) (rule that, assumption+)
  from s(4) have e1: "call = 1" "vm_stack e1 = Some 1" unfolding e(1) d(1) by auto
  from s(5) have "eg w1 = e1\<lparr>current_execute_data := None\<rparr>\<lparr>current_execute_data := Some call\<rparr>" unfolding e(2) by simp
  then have "vm_stack (eg w1) = Some 1" using e1(2) by simp
  then show ?thesis using s(1-3) e1(1) by blast
qed

text \<open>The demo request with all its 3000 coroutines in use.\<close>

definition demo_full :: "demo world" where
  "demo_full = (demo_ready [])\<lparr>corog := (corog (demo_ready []))\<lparr>coro_num := 3000\<rparr>\<rparr>"

lemma demo_full_facts: "cid_inv (cids demo_full)" "nr_free (cids demo_full) \<noteq> 0"
    "max_coro_num (corog demo_full) \<le> coro_num (corog demo_full)" "ok demo_full" "current_coro (corog demo_full) = None"
    "callable (demo_engine (\<lambda>_. []) False) (ZLong 1) z = Some 1" "\<not> exception (eg demo_full)"
  using demo_ok(1) [of "[]"] by (simp_all add: demo_full_def ok_def parked_def demo_defs) (simp add: cidmap_init_def)

text \<open>C35: at the limit \<open>coroutine_create\<close> nevertheless reports success to the PHP code: called from
  outside any coroutine with a callable, it returns \<open>TRUE\<close> although the function never runs, for
  the status \<open>CORO_LIMIT\<close> is not negative; and the id \<open>c_coro_create\<close> took before it looked at the
  limit is never given back: it stays in use, although no coroutine has it.\<close>

theorem coroutine_create_limit_returns_true:
  assumes "ok w" and "cid_inv (cids w)" and "nr_free (cids w) \<noteq> 0"
    and "max_coro_num (corog w) \<le> coro_num (corog w)" and "current_coro (corog w) = None"
    and "callable eng func (zend w) = Some f" and "\<not> exception (eg w)"
  shows "\<exists>w'. coroutine_create eng sys ex func rv w = Ret (ZBool True) w' \<and> coro_num (corog w') = coro_num (corog w)
    \<and> vm_pages w' = vm_pages w \<and> (\<exists>c. c \<notin> used (cids w) \<and> used (cids w') = insert c (used (cids w)))"
proof -
  define wp where "wp = w\<lparr>fcaches := (fcaches w)\<lparr>fresh := Suc (fresh (fcaches w)), cells := (cells (fcaches w))(fresh (fcaches w) := Some f)\<rparr>,
      zvs := snd (emalloc func (zvs w)), zend := zval_add_ref eng func (zend w)\<rparr>"
  have cp: "checkPoint w \<noteq> None" using assms(1) by (auto simp: ok_def)
  let ?s = "scoped rv wp"
  have "cid_inv (cids ?s)" "nr_free (cids ?s) \<noteq> 0" "max_coro_num (corog ?s) \<le> coro_num (corog ?s)"
    using assms by (simp_all add: wp_def)
  from c_coro_create_limit [OF this] obtain c m where
    run: "c_coro_create eng sys ex f [] None None ?s = Ret CORO_LIMIT (?s\<lparr>cids := m\<rparr>)"
    and m: "c \<notin> used (cids ?s)" "used m = insert c (used (cids ?s))" by blast
  have "coroutine_create eng sys ex func rv w =
      create_finish eng (Some (fresh (fcaches w))) (Some (fresh (zvs w))) (checkPoint w) (Some (fresh (ctxs w))) (require (corog w))
        CORO_LIMIT (?s\<lparr>cids := m\<rparr>)"
    using coroutine_create_unfold [OF assms(6) cp, of sys ex rv] run by (simp add: Let_def wp_def)
  then show ?thesis
    using assms(5,7) m
    by (auto simp: create_finish_def run_c keep_callback_def try_upd_def c_zval_free_def efree_zval_def wp_def emalloc_def
        efree_checkpoint_def c_coro_resume_parent_def load_ctx_def try_c_def efree_ctx_def scoped_def saved_ctx_def)
qed

theorem coroutine_create_limit_returns_true_witness:
  "\<exists>w'. coroutine_create (demo_engine (\<lambda>_. []) False) (demo_system 9) (\<lambda>f. ret_c ()) (ZLong 1) None demo_full = Ret (ZBool True) w'"
  using coroutine_create_limit_returns_true [OF demo_full_facts(4,1,2,3,5,6,7)] by blast

text \<open>C36: when every id is taken, the limit on the number of coroutines is not enforced at all:
  \<open>c_coro_create\<close> starts a coroutine with id \<open>-1\<close> whatever the count is, and closing such a
  coroutine writes outside the bitmap.\<close>

theorem c_coro_create_exhausted_unlimited:
  assumes "nr_free (cids w) = 0" and "88 \<le> uint (stack_size (corog w))"
  shows "\<exists>call w1. c_coro_create eng sys ex fci argv post params w = coro_run eng ex call w1
    \<and> started (-1) post params w w1
    \<and> (\<forall>w2 t. load_task (current_coro (corog w2)) w2 = Inr t \<longrightarrow> cid t = -1 \<longrightarrow> task_function t = None \<longrightarrow>
          coro_close eng w2 = Fault OutOfBounds)"
proof -
  have a: "alloc_cidmap (cids w) = Inr (-1, cids w)" using assms(1) by (simp add: alloc_cidmap_def)
  obtain call w1 where "coro_enter eng sys fci argv post params (-1) w = Ret call w1" "started (-1) post params w w1"
    using coro_enter_started [OF assms(2)] by blast
  with c_coro_create_alloc [OF a, of eng sys ex]
  have "c_coro_create eng sys ex fci argv post params w = coro_run eng ex call w1" "started (-1) post params w w1" by simp_all
  moreover have "coro_close eng w2 = Fault OutOfBounds"
    if "load_task (current_coro (corog w2)) w2 = Inr t" "cid t = -1" "task_function t = None" for w2 t
    using that by (simp add: coro_close_def coro_drop_def coro_release_def run_c free_cidmap_def clear_bit_def word_index_def try_upd_def drop_bit_int_def)
  ultimately show ?thesis by blast
qed

theorem c_coro_create_exhausted_unlimited_witness:
  "\<exists>call w1. c_coro_create (demo_engine (\<lambda>_. []) False) (demo_system 9) (\<lambda>f. ret_c ()) 1 [] None None (demo_full\<lparr>cids := cidmap_init\<lparr>nr_free := 0\<rparr>\<rparr>)
      = coro_run (demo_engine (\<lambda>_. []) False) (\<lambda>f. ret_c ()) call w1
    \<and> coro_num (corog w1) = 3001"
proof -
  let ?w = "demo_full\<lparr>cids := cidmap_init\<lparr>nr_free := 0\<rparr>\<rparr>"
  have "nr_free (cids ?w) = 0" "88 \<le> uint (stack_size (corog ?w))" "coro_num (corog ?w) = 3000"
    by (simp_all add: demo_full_def demo_defs)
  with c_coro_create_exhausted_unlimited [of ?w "demo_engine (\<lambda>_. []) False" "demo_system 9" "\<lambda>f. ret_c ()" 1 "[]" None None]
  show ?thesis by (fastforce simp: started_def)
qed

text \<open>C7: closing a coroutine whose function has returned never faults. Its id is free again and can be
  allocated; of the memory of the extension exactly its stack page, its return value and its callback are
  freed: every other page is as live as before, and unchanged unless it holds the task record whose
  callback is dropped, and every other value, every context, jump buffer and function cache, the parked
  contexts, the checkpoint and the registrations are as they were. The count of coroutines is one less, no
  coroutine is current, and the VM registers are those of the main stack.\<close>

theorem coro_close_releases:
  assumes "closable t p r w"
  shows "\<exists>w'. coro_close eng w = Ret () w'
    \<and> used (cids w') = used (cids w) - {cid t} \<and> cid_inv (cids w')
    \<and> cells (vm_pages w') p = None
    \<and> (\<forall>a. a \<noteq> p \<longrightarrow> (cells (vm_pages w') a = None \<longleftrightarrow> cells (vm_pages w) a = None))
    \<and> (\<forall>a. a \<noteq> p \<longrightarrow> a \<noteq> fst (the (current_coro (corog w))) \<longrightarrow> cells (vm_pages w') a = cells (vm_pages w) a)
    \<and> cells (zvs w') r = None \<and> (\<forall>g. task_function t = Some g \<longrightarrow> cells (zvs w') g = None)
    \<and> (\<forall>a. a \<noteq> r \<longrightarrow> task_function t \<noteq> Some a \<longrightarrow> cells (zvs w') a = cells (zvs w) a)
    \<and> corog w' = (corog w)\<lparr>coro_num := coro_num (corog w) - 1, current_coro := None\<rparr>
    \<and> eg w' = (eg w)\<lparr>vm_stack := origin_vm_stack (corog w), vm_stack_top := origin_vm_stack_top (corog w),
         vm_stack_end := origin_vm_stack_end (corog w)\<rparr>
    \<and> ctxs w' = ctxs w \<and> jmps w' = jmps w \<and> setjmps w' = setjmps w \<and> checkPoint w' = checkPoint w \<and> fcaches w' = fcaches w
    \<and> rg w' = rg w \<and> cid_context_map w' = cid_context_map w"
proof -
  have c: "cid_inv (cids w)" "cid t \<in> used (cids w)" using assms by (simp_all add: closable_def)
  obtain m where m: "free_cidmap (cid t) (cids w) = Inr m" "used m = used (cids w) - {cid t}" "cid_inv m"
    using cm.release_ok [OF c] by blast
  show ?thesis by (rule coro_close_ok [OF assms, of eng], rule exI, intro conjI, assumption) (use m in simp_all)
qed

theorem coro_close_releases_witness:
  "closable demo_task 1 0 (demo_coro []) \<and> (\<exists>w'. coro_close (demo_engine (\<lambda>_. []) False) (demo_coro []) = Ret () w'
    \<and> used (cids w') = {} \<and> coro_num (corog w') = 0)"
proof -
  have c: "cids (demo_coro []) = cidmap_one_used" "coro_num (corog (demo_coro [])) = 1" "cid demo_task = 1"
    by (simp_all add: demo_defs)
  have cl: "closable demo_task 1 0 (demo_coro [])"
    using demo_load_task demo_ids c unfolding closable_def by (simp add: demo_defs)
  with coro_close_releases [OF cl, of "demo_engine (\<lambda>_. []) False"] c demo_ids show ?thesis by auto
qed

text \<open>C8: \<open>yield\<close> in a coroutine jumps to the current \<open>setjmp\<close> and parks, under the coroutine's id, a
  context from which \<open>c_coro_resume\<close> restores the coroutine: as long as that context is left alone,
  resuming it in any later world leaves the frame of the call and makes the yielding task, its stack and
  its return value current again. When the caller does not use the result of \<open>yield\<close>, or a value and a
  return slot are there to copy it to, the frame that called \<open>yield\<close> is executed at its next
  instruction; when it uses the result and there is no value, which is always so for \<open>resume\<close>, \<open>NULL\<close>
  is dereferenced.\<close>

theorem yield_resume_roundtrip:
  assumes "load_task (current_coro (corog w)) w = Inr t" and "cid_in_range (cid t)"
    and "tok_at w (checkPoint w) = Some k" and "current_execute_data (eg w) = Some cur"
  shows "\<exists>w' a. yield rv w = Jump k w' \<and> cid_context_map w' = (cid_context_map w)(cid t := Some a)
    \<and> (\<forall>w2 v f. cells (ctxs w2) a = cells (ctxs w') a \<longrightarrow>
          (let (e, z2) = release_frame eng cur ((eg w2)\<lparr>vm_stack := vm_stack (eg w), vm_stack_top := vm_stack_top (eg w),
                 vm_stack_end := vm_stack_end (eg w)\<rparr>) (zend w2);
               go = (\<lambda>z3. Ret f (w2\<lparr>eg := e\<lparr>current_execute_data := Some f\<rparr>, zend := opline_inc eng f z3,
                 corog := (corog w2)\<lparr>current_coro := current_coro (corog w), require := True,
                   allocated_return_value_ptr := allocated_return_value_ptr (corog w)\<rparr>\<rparr>)) in
           prev_execute_data eng cur z2 = Some f \<longrightarrow>
           coro_reenter eng (cid_context_map w' (cid t)) v w2 =
             (if result_used eng f z2
              then (case (rv, v) of (Some d, Some x) \<Rightarrow> go (zval_copy eng d x z2) | _ \<Rightarrow> Fault NullDeref)
              else go z2)))"
proof -
  define a where "a = fresh (ctxs w)"
  let ?w = "(saved rv w)\<lparr>cid_context_map := (cid_context_map w)(cid t := Some a)\<rparr>"
  let ?w' = "?w\<lparr>eg := (eg w)\<lparr>vm_stack := origin_vm_stack (corog w),
        vm_stack_top := origin_vm_stack_top (corog w), vm_stack_end := origin_vm_stack_end (corog w)\<rparr>\<rparr>"
  have lt: "load_task (current_coro (corog w)) (saved rv w) = Inr t"
    using assms(1) load_task_pages [of "saved rv w" w] by (simp add: saved_def)
  have "yield rv w = coro_yield ?w"
    using lt assms(2) unfolding yield_def emalloc_save by (simp add: run_c try_c_def try_upd_def saved_def a_def)
  also have "\<dots> = longjmp_c ?w'" by (simp add: coro_yield_def run_c saved_def)
  also have "\<dots> = Jump k ?w'" using assms(3) tok_at_jmps [of ?w' w] unfolding longjmp_c_tok by (simp add: saved_def)
  finally have y: "yield rv w = Jump k ?w'" .
  have c: "cells (ctxs ?w') a = Some (Some (saved_ctx rv w))" by (simp add: saved_def a_def)
  show ?thesis
    by (rule exI [of _ ?w'], rule exI [of _ a])
      (use y c assms(4) in \<open>auto simp: coro_reenter_def run_c load_ctx_def try_c_def saved_ctx_def saved_def Let_def split: prod.splits option.splits\<close>)
qed

text \<open>The frame that calls \<open>yield\<close> in the demo coroutine is frame 2, called from frame 1.\<close>

theorem yield_resume_roundtrip_witness:
  "\<exists>w' a. yield None (demo_coro []) = Jump 0 w' \<and> cid_context_map w' 1 = Some a
    \<and> (\<exists>w3. coro_reenter (demo_engine (\<lambda>_. []) False) (Some a) None w' = Ret 1 w3
        \<and> current_coro (corog w3) = Some (1, 48) \<and> vm_stack (eg w3) = Some 1)"
proof -
  let ?w = "demo_coro []" and ?e = "demo_engine (\<lambda>_. []) False"
  have f: "cid_in_range (cid demo_task)" "tok_at ?w (checkPoint ?w) = Some 0" "current_execute_data (eg ?w) = Some 2"
    "cid demo_task = 1" "current_coro (corog ?w) = Some (1, 48)" "vm_stack (eg ?w) = Some 1"
    by (simp_all add: demo_defs cid_in_range_def tok_at_def)
  have e: "release_frame ?e c x z = (x, z)" "prev_execute_data ?e c z = below z c" "\<not> result_used ?e c z" for c x z
    by (simp_all add: demo_engine_def)
  obtain w' a where y: "yield None ?w = Jump 0 w'" "cid_context_map w' = (cid_context_map ?w)(cid demo_task := Some a)"
    and r: "\<forall>w2 v f. cells (ctxs w2) a = cells (ctxs w') a \<longrightarrow>
          (let (e, z2) = release_frame ?e 2 ((eg w2)\<lparr>vm_stack := vm_stack (eg ?w), vm_stack_top := vm_stack_top (eg ?w),
                 vm_stack_end := vm_stack_end (eg ?w)\<rparr>) (zend w2);
               go = (\<lambda>z3. Ret f (w2\<lparr>eg := e\<lparr>current_execute_data := Some f\<rparr>, zend := opline_inc ?e f z3,
                 corog := (corog w2)\<lparr>current_coro := current_coro (corog ?w), require := True,
                   allocated_return_value_ptr := allocated_return_value_ptr (corog ?w)\<rparr>\<rparr>)) in
           prev_execute_data ?e 2 z2 = Some f \<longrightarrow>
           coro_reenter ?e (cid_context_map w' (cid demo_task)) v w2 =
             (if result_used ?e f z2
              then (case (None :: ptr, v) of (Some d, Some x) \<Rightarrow> go (zval_copy ?e d x z2) | _ \<Rightarrow> Fault NullDeref)
              else go z2))"
    using yield_resume_roundtrip [OF demo_load_task f(1-3), where eng = ?e and rv = None] by blast
  have "zend w' = zend ?w" using y(1) unfolding yield_def emalloc_save
    by (auto simp: run_c try_c_def try_upd_def saved_def coro_yield_def longjmp_c_tok split: sum.splits if_splits)
  then have "below (zend w') 2 = Some 1" by (simp add: demo_defs)
  with r [rule_format, of w' 1 None] y f e show ?thesis by (auto simp: Let_def)
qed

text \<open>C9: \<open>resume\<close> of a parked coroutine whose code does not run the event loop (nested
  creations, resumptions and waits included) is transparent to its caller in the same way as
  \<open>coroutine_create\<close>, and it returns \<open>TRUE\<close>; for an id nobody parked under it returns \<open>FALSE\<close> and
  does nothing, and an id outside the map is not checked.\<close>

theorem resume_transparent:
  assumes "parked_ok w" and "parse_long eng arg = Some n"
  shows "case resume eng (exec eng sys prog k) arg rv w of
      Ret v w' \<Rightarrow> cid_in_range (to_cint n) \<and>
        (if cid_context_map w (to_cint n) = None then v = ZBool False \<and> w' = w
         else v = ZBool True \<and> restores w w' \<and> checkPoint w' = checkPoint w
           \<and> (\<forall>b < fresh (jmps w). cells (jmps w') b = cells (jmps w) b)
           \<and> (\<forall>a < fresh (ctxs w). a \<notin> parked w \<longrightarrow> cells (ctxs w') a = cells (ctxs w) a))
    | Jump t w' \<Rightarrow> False
    | Fault e \<Rightarrow> cid_in_range (to_cint n) \<or> e = OutOfBounds
    | OutOfFuel \<Rightarrow> True"
proof (cases "cid_in_range (to_cint n)")
  case False
  then show ?thesis using assms(2) by (simp add: resume_def run_c)
next
  case True
  show ?thesis
  proof (cases "cid_context_map w (to_cint n)")
    case None
    then show ?thesis using assms(2) True by (simp add: resume_def run_c)
  next
    case (Some a)
    from resume_is_transparent [where ex = "exec eng sys prog k" and rv = rv, OF exec_disciplined assms True Some] Some True
    show ?thesis by (auto simp: transparent_def fr_def split: outcome.splits)
  qed
qed

text \<open>The demo coroutine 1 has yielded and is parked; the main script runs.\<close>

definition demo_parked :: "demo world" where
  "demo_parked = (demo_coro [])\<lparr>eg := eg (demo_ready []),
      corog := (corog (demo_coro []))\<lparr>current_coro := None, require := False\<rparr>,
      checkPoint := Some 0, cid_context_map := (\<lambda>_. None)(1 := Some 0),
      ctxs := \<lparr>cells = (\<lambda>_. None)(0 := Some (Some \<lparr>ctx_return_value = None, ctx_execute_data = Some 2, ctx_vm_stack = Some 1,
         ctx_vm_stack_top = Some (1, 96), ctx_vm_stack_end = Some (1, 8192), ctx_task = Some (1, 48),
         ctx_allocated_return = Some 0\<rparr>)), fresh = 1, oom = \<lambda>_. False\<rparr>\<rparr>"

lemma demo_parked_facts: "parked_ok demo_parked" "cid_context_map demo_parked (to_cint 1) = Some 0" "cid_in_range (to_cint 1)"
    "parse_long (demo_engine fs b) (ZLong n) = Some n" "checkPoint demo_parked = Some 0"
  by (simp_all add: demo_parked_def parked_ok_def parked_def to_cint_def cid_in_range_def demo_engine_def demo_defs)

lemma demo_resume_returns:
  "\<exists>w'. resume (demo_engine (\<lambda>_. []) False) (exec (demo_engine (\<lambda>_. []) False) (demo_system 9) demo_program 1) (ZLong 1) None demo_parked
     = Ret (ZBool True) w' \<and> cid_context_map w' 1 = Some 0"
proof -
  have fr1: "free_cidmap 1 cidmap_one_used = Inr (cidmap_one_used\<lparr>page := (page cidmap_one_used)(0 := 0), nr_free := 0x8000\<rparr>)"
    by (simp add: free_cidmap_def cidmap_one_used_def cidmap_init_def clear_bit_def word_index_def bit_mask_def)
  show ?thesis
    unfolding resume_def scope_enter_require demo_parked_def
    apply (simp add: demo_engine_def run_c to_cint_def cid_in_range_def)
    apply (simp add: demo_defs c_coro_resume_def coro_reenter_def load_ctx_def run_c scoped_def saved_ctx_def)
    apply (simp add: coro_run_def run_c setjmp_c_def coro_close_def coro_drop_def coro_release_def load_task_def task_cell_def sizeof_task_def fr1 efree_zval_def)
    apply (simp add: resume_finish_def run_c efree_checkpoint_def c_coro_resume_parent_def load_ctx_def try_c_def efree_ctx_def try_upd_def)
    done
qed

theorem resume_transparent_witness:
  "\<exists>w'. resume (demo_engine (\<lambda>_. []) False) (exec (demo_engine (\<lambda>_. []) False) (demo_system 9) demo_program 1) (ZLong 1) None demo_parked
     = Ret (ZBool True) w' \<and> restores demo_parked w' \<and> checkPoint w' = Some 0"
  using resume_transparent [OF demo_parked_facts(1), where eng = "demo_engine (\<lambda>_. []) False" and sys = "demo_system 9"
      and prog = demo_program and k = 1 and arg = "ZLong 1" and n = 1 and rv = None, OF demo_parked_facts(4)]
    demo_resume_returns demo_parked_facts by auto

text \<open>C37: the entry of \<open>cid_context_map\<close> outlives the context it points to: when a resumption has
  returned and the coroutine has not parked again, a second \<open>resume\<close> with the same id reads the
  freed context.\<close>

theorem resume_twice_use_after_free:
  assumes "parked_ok w" and "parse_long eng arg = Some n" and "cid_context_map w (to_cint n) = Some a"
    and "resume eng (exec eng sys prog k) arg rv w = Ret v w'" and "cid_context_map w' (to_cint n) = Some a"
  shows "resume eng (exec eng sys prog k) arg rv' w' = Fault UseAfterFree"
proof -
  let ?ex = "exec eng sys prog k"
  have range: "cid_in_range (to_cint n)"
    using assms(2,4) by (auto simp: resume_def run_c try_c_def split: if_splits)
  have eq: "resume eng ?ex arg rx wx = bind_o (c_coro_resume eng ?ex (Some a) None (scoped rx wx))
      (\<lambda>ret. resume_finish (Some a) (checkPoint wx) (Some (fresh (ctxs wx))) (require (corog wx)))"
    if "cid_context_map wx (to_cint n) = Some a" for rx wx
    using that range assms(2) unfolding resume_def scope_enter_require by (simp add: run_c)
  have "has_buffer (fresh (jmps w)) (scoped rv w)" using scoped_buffer assms(1) by (simp add: parked_ok_def)
  note run = c_coro_resume_contained [where ex = ?ex and eng = eng and ctx = "Some a" and retval = None, OF exec_disciplined this]
  from assms(4) eq [OF assms(3)] obtain s w1 where w1: "c_coro_resume eng ?ex (Some a) None (scoped rv w) = Ret s w1"
    "resume_finish (Some a) (checkPoint w) (Some (fresh (ctxs w))) (require (corog w)) w1 = Ret v w'"
    by (auto simp: bind_o_Ret_iff)
  from w1(2) have dead: "cells (ctxs w') a = None"
    by (auto simp: resume_finish_def run_c bind_o_Ret_iff efree_ctx_def efree_checkpoint_def c_coro_resume_parent_def load_ctx_def
        try_upd_def try_c_def free_cell_def split: sum.splits option.splits if_splits)
  have a: "a < fresh (ctxs w)" using assms(1,3) by (auto simp: parked_ok_def parked_def)
  from resume_is_transparent [where ex = ?ex and rv = rv, OF exec_disciplined assms(1,2) range assms(3)] assms(4)
  have "fresh (ctxs w) \<le> fresh (ctxs w')" by (simp add: transparent_def fr_def)
  with a dead have "cells (ctxs (scoped rv' w')) a = None" by (simp add: scoped_def)
  then show ?thesis using eq [OF assms(5), of rv'] by (simp add: c_coro_resume_def coro_reenter_def load_ctx_def run_c)
qed

theorem resume_twice_use_after_free_witness:
  "\<exists>w'. resume (demo_engine (\<lambda>_. []) False) (exec (demo_engine (\<lambda>_. []) False) (demo_system 9) demo_program 1) (ZLong 1) None demo_parked
     = Ret (ZBool True) w'
    \<and> resume (demo_engine (\<lambda>_. []) False) (exec (demo_engine (\<lambda>_. []) False) (demo_system 9) demo_program 1) (ZLong 1) None w' = Fault UseAfterFree"
proof -
  obtain w' where w': "resume (demo_engine (\<lambda>_. []) False) (exec (demo_engine (\<lambda>_. []) False) (demo_system 9) demo_program 1) (ZLong 1) None demo_parked
     = Ret (ZBool True) w'" "cid_context_map w' 1 = Some 0" using demo_resume_returns by blast
  have "cid_context_map w' (to_cint 1) = Some 0" using w'(2) by (simp add: to_cint_def)
  from resume_twice_use_after_free [OF demo_parked_facts(1,4,2) w'(1) this] w'(1) show ?thesis by blast
qed

end
