(* ===== verification/Contracts.thy ===== *)
theory Contracts
  imports Script
begin

text \<open>
  Contracts for code with jumps: \<open>contract A m B E\<close> says that \<open>m\<close>, started in a world that satisfies
  \<open>A\<close>, returns in a world that satisfies \<open>B\<close> or jumps in a world that satisfies \<open>E\<close>. The rules follow
  the ways the model composes code, up to the interpreter of PHP code. \<open>quiet_contract\<close> is the
  interface of a property the waiting methods leave alone; inside it, the methods are shown to meet it
  once. A relation \<open>R\<close> between worlds is the property \<open>R w0\<close>, for every \<open>w0\<close>.
\<close>

section \<open>Contracts\<close>

definition meets :: "('z world \<Rightarrow> bool) \<Rightarrow> ('z world \<Rightarrow> bool) \<Rightarrow> ('z, 'a) outcome \<Rightarrow> bool" where
  "meets B E out \<longleftrightarrow> (case out of Ret x w' \<Rightarrow> B w' | Jump t w' \<Rightarrow> E w' | _ \<Rightarrow> True)"

definition contract :: "('z world \<Rightarrow> bool) \<Rightarrow> ('z, 'a) code \<Rightarrow> ('z world \<Rightarrow> bool) \<Rightarrow> ('z world \<Rightarrow> bool) \<Rightarrow> bool" where
  "contract A m B E \<longleftrightarrow> (\<forall>w. A w \<longrightarrow> meets B E (m w))"

lemma meets_simps [simp]: "meets B E (Ret x w) = B w" "meets B E (Jump t w) = E w" "meets B E (Fault e)" "meets B E OutOfFuel"
  by (simp_all add: meets_def)

lemma contractI: "(\<And>w. A w \<Longrightarrow> meets B E (m w)) \<Longrightarrow> contract A m B E"
  by (simp add: contract_def)

lemma contractD: "contract A m B E \<Longrightarrow> A w \<Longrightarrow> meets B E (m w)"
  by (simp add: contract_def)

lemma contract_Ret: "contract A m B E \<Longrightarrow> A w \<Longrightarrow> m w = Ret x w' \<Longrightarrow> B w'"
  by (drule (1) contractD) simp

lemma meets_bind: "meets B E out \<Longrightarrow> (\<And>x w. B w \<Longrightarrow> meets C E (f x w)) \<Longrightarrow> meets C E (bind_o out f)"
  by (cases out) simp_all

lemma contract_bind: "contract A m B E \<Longrightarrow> (\<And>x. contract B (f x) C E) \<Longrightarrow> contract A (bind_c m f) C E"
  by (rule contractI) (auto simp: bind_c_run dest: contractD intro: meets_bind [where B = B])

lemma contract_seq: "contract A m B E \<Longrightarrow> contract B k C E \<Longrightarrow> contract A (seq_c m k) C E"
  by (rule contractI) (auto simp: seq_c_run dest: contractD intro: meets_bind [where B = B])

lemma contract_pure: "contract A (ret_c x) A E" "contract A (get_c f) A E" "contract A (try_c g) A E"
  by (auto simp: contract_def ret_c_def get_c_def try_c_def split: sum.splits)

lemma contract_longjmp: "(\<And>w. A w \<Longrightarrow> E w) \<Longrightarrow> contract A longjmp_c B E"
  by (auto simp: contract_def longjmp_c_def split: sum.splits option.splits)

lemma contract_if: "contract A m B E \<Longrightarrow> contract A k B E \<Longrightarrow> contract A (if c then m else k) B E"
  by simp

lemma contract_option:
  "contract A m B E \<Longrightarrow> (\<And>a. contract A (k a) B E) \<Longrightarrow> contract A (case x of None \<Rightarrow> m | Some a \<Rightarrow> k a) B E"
  by (simp split: option.splits)

text \<open>Steps that do not jump.\<close>

lemma contract_calm:
  assumes "\<And>w x w'. A w \<Longrightarrow> m w = Ret x w' \<Longrightarrow> B w'" and "calm m"
  shows "contract A m B E"
proof (rule contractI)
  fix w assume "A w"
  with assms show "meets B E (m w)" by (cases "m w") (auto simp: calm_def)
qed

lemma contract_upd: "(\<And>w. A w \<Longrightarrow> B (f w)) \<Longrightarrow> contract A (upd_c f) B E"
  by (simp add: contract_def upd_c_def)

lemma contract_try_upd: "(\<And>w w'. A w \<Longrightarrow> f w = Inr w' \<Longrightarrow> B w') \<Longrightarrow> contract A (try_upd f) B E"
  by (auto simp: contract_def try_upd_def split: sum.splits)

lemma contract_rg: "(\<And>w r. A w \<Longrightarrow> B (w\<lparr>rg := r\<rparr>)) \<Longrightarrow> contract A (rg_c f) B E"
  by (auto simp: contract_def rg_c_def split: sum.splits)

text \<open>The code after a jump starts where the jump was made.\<close>

lemma contract_setjmp:
  assumes "\<And>w h n. A w \<Longrightarrow> A (w\<lparr>jmps := h, setjmps := n\<rparr>)" and "contract A m B E" and "contract E k B E"
  shows "contract A (setjmp_c m k) B E"
proof (rule contractI)
  fix w assume w: "A w"
  show "meets B E (setjmp_c m k w)"
  proof (cases "modify (checkPoint w) (\<lambda>_. Some (setjmps w)) (jmps w)")
    case (Inl e)
    then show ?thesis by (simp add: setjmp_c_def Let_def)
  next
    case (Inr h)
    let ?w = "w\<lparr>jmps := h, setjmps := Suc (setjmps w)\<rparr>"
    from contractD [OF assms(2) assms(1) [OF w]] have "meets B E (m ?w)" .
    then show ?thesis using Inr contractD [OF assms(3)]
      by (cases "m ?w") (simp_all add: setjmp_c_def Let_def)
  qed
qed

text \<open>The rules for a property \<open>A\<close> that every step keeps.\<close>

lemmas keep_rules = contract_bind [where A = A and B = A and C = A for A] contract_seq [where A = A and B = A and C = A for A]
  contract_pure contract_if contract_option contract_upd [where A = A and B = A for A] contract_try_upd [where A = A and B = A for A]
  contract_setjmp [where A = A and B = A and E = A for A]

lemma contract_weaken:
  assumes "contract A m B E" and "\<And>w. A' w \<Longrightarrow> A w" and "\<And>w. B w \<Longrightarrow> B' w"
  shows "contract A' m B' E"
proof (rule contractI)
  fix w assume "A' w"
  from contractD [OF assms(1) assms(2) [OF this]] show "meets B' E (m w)" by (cases "m w") (auto intro: assms(3))
qed

text \<open>The interpreter of PHP code keeps what the functions of the extension keep; \<open>B\<close> holds when a frame
  has ended.\<close>

lemma contract_exec:
  assumes next_ok: "\<And>w f cr e z. A w \<Longrightarrow> next_call prog f (eg w) (zend w) = (Some cr, e, z) \<Longrightarrow> A (w\<lparr>eg := e, zend := z\<rparr>)"
    and end_ok: "\<And>w f e z. A w \<Longrightarrow> next_call prog f (eg w) (zend w) = (None, e, z) \<Longrightarrow> B (w\<lparr>eg := e, zend := z\<rparr>)"
    and after_ok: "\<And>w f v e z. A w \<Longrightarrow> after_call prog f v (eg w) (zend w) = (e, z) \<Longrightarrow> A (w\<lparr>eg := e, zend := z\<rparr>)"
    and api: "\<And>ex c rv. (\<And>f. contract A (ex f) B E) \<Longrightarrow> contract A (api eng sys ex c rv) A E"
  shows "contract A (exec eng sys prog n f) B E"
proof (induction n arbitrary: f)
  case 0
  show ?case by (rule contractI) simp
next
  case (Suc n)
  show ?case
  proof (rule contractI)
    fix w :: "'a world" assume w: "A w"
    obtain c e z where nc: "next_call prog f (eg w) (zend w) = (c, e, z)" by (metis prod_cases3)
    have cont: "meets B E (case after_call prog f v (eg w2) (zend w2) of (e2, z2) \<Rightarrow>
            exec eng sys prog n f (w2\<lparr>eg := e2, zend := z2\<rparr>))" if "A w2" for v w2
      using contractD [OF Suc.IH after_ok [OF that]] by (simp split: prod.splits)
    show "meets B E (exec eng sys prog (Suc n) f w)"
    proof (cases c)
      case None
      with nc end_ok [OF w] show ?thesis by simp
    next
      case (Some cr)
      have w1: "A (w\<lparr>eg := e, zend := z\<rparr>)" using next_ok [OF w] nc Some by simp
      obtain call rv where cr: "cr = (call, rv)" by (cases cr)
      from meets_bind [OF contractD [OF api [OF Suc.IH] w1] cont] nc Some cr show ?thesis by simp
    qed
  qed
qed

section \<open>Contracts of the waiting methods\<close>

text \<open>The registers of the main stack, where \<open>coro_yield\<close> jumps from.\<close>

definition main_stack :: "'z world \<Rightarrow> 'z world" where
  "main_stack w = w\<lparr>eg := (eg w)\<lparr>vm_stack := origin_vm_stack (corog w),
        vm_stack_top := origin_vm_stack_top (corog w), vm_stack_end := origin_vm_stack_end (corog w)\<rparr>\<rparr>"

text \<open>
  \<open>P\<close> holds before a method and when it returns, \<open>E\<close> when it has jumped out. \<open>P\<close> looks at the
  executor globals, \<open>COROG\<close>, the checkpoint, the stack pages, the contexts, the parked contexts and
  the ids only, allocating and freeing a context keep it, and saving the caller and leaving for the
  main stack, with the context parked (\<open>yield\<close>) or not, gives \<open>E\<close>.
\<close>

locale waiting_contract =
  fixes P E :: "'z world \<Rightarrow> bool"
  assumes frame: "\<And>w w'. P w \<Longrightarrow> eg w' = eg w \<Longrightarrow> corog w' = corog w \<Longrightarrow> checkPoint w' = checkPoint w
        \<Longrightarrow> vm_pages w' = vm_pages w \<Longrightarrow> ctxs w' = ctxs w \<Longrightarrow> cids w' = cids w \<Longrightarrow> cid_context_map w' = cid_context_map w
        \<Longrightarrow> P w'"
    and alloc_ctx: "\<And>w. P w \<Longrightarrow> P (w\<lparr>ctxs := snd (emalloc None (ctxs w))\<rparr>)"
    and free_ctx: "\<And>w ctx h. P w \<Longrightarrow> free_cell ctx (ctxs w) = Inr h \<Longrightarrow> P (w\<lparr>ctxs := h\<rparr>)"
    and save_leave: "\<And>w rv ctx w'. P w \<Longrightarrow> c_coro_save rv ctx w = Ret () w' \<Longrightarrow> E (main_stack w')"
    and park_leave: "\<And>w rv c. P w \<Longrightarrow>
        E (main_stack ((saved rv w)\<lparr>cid_context_map := (cid_context_map w)(c := Some (fresh (ctxs w)))\<rparr>))"
begin

lemma rg_met: "contract P (rg_c f) P E"
  by (rule contract_rg) (erule frame, simp_all)

lemma context_met: "contract P (efree_ctx ctx) P E" "contract P emalloc_ctx P E" "contract P (load_ctx ctx) P E"
    "contract P (c_zval_dup z) P E"
proof -
  show "contract P (efree_ctx ctx) P E"
    unfolding efree_ctx_def by (rule contract_try_upd) (auto intro: free_ctx)
  show "contract P emalloc_ctx P E"
    by (rule contract_calm) (auto simp: emalloc_ctx_def emalloc_def calm_def Let_def dest: alloc_ctx)
  show "contract P (load_ctx ctx) P E"
    unfolding load_ctx_def by (rule contract_pure)
  show "contract P (c_zval_dup z) P E"
    by (rule contract_calm) (auto simp: c_zval_dup_def emalloc_def calm_def Let_def intro: frame)
qed

text \<open>Saving the caller and jumping away.\<close>

lemma leave_met: "contract P (seq_c (c_coro_save rv ctx) coro_yield) P E"
proof (rule contract_seq)
  show "contract P (c_coro_save rv ctx) (\<lambda>w. E (main_stack w)) E"
    by (rule contract_calm [OF save_leave]) (auto simp: calm_def c_coro_save_def try_upd_def split: sum.splits)
  show "contract (\<lambda>w. E (main_stack w)) coro_yield P E"
    unfolding coro_yield_def
    by (rule contract_seq [OF contract_upd [where B = E] contract_longjmp]) (simp_all add: main_stack_def)
qed

lemma wait_met: "contract P (wait_fd fd fdtype events tm ob obname fname argv argc rv) P E"
  unfolding wait_fd_def by (intro leave_met keep_rules context_met rg_met)

text \<open>Steps on the registry, the engine's own state and the values.\<close>

lemma state_met:
  assumes "\<And>w x w'. m w = Ret x w' \<Longrightarrow> eg w' = eg w \<and> corog w' = corog w \<and> checkPoint w' = checkPoint w
      \<and> vm_pages w' = vm_pages w \<and> ctxs w' = ctxs w \<and> cids w' = cids w \<and> cid_context_map w' = cid_context_map w" and "calm m"
  shows "contract P m P E"
  by (rule contract_calm [OF _ assms(2)]) (drule assms(1), erule frame, simp_all)

lemma try_state_met:
  assumes "\<And>w w'. f w = Inr w' \<Longrightarrow> eg w' = eg w \<and> corog w' = corog w \<and> checkPoint w' = checkPoint w
      \<and> vm_pages w' = vm_pages w \<and> ctxs w' = ctxs w \<and> cids w' = cids w \<and> cid_context_map w' = cid_context_map w"
  shows "contract P (try_upd f) P E"
  by (rule contract_try_upd) (drule assms, erule frame, simp_all)

lemma get_arguments_met: "contract P (get_arguments eng args) P E"
  by (rule state_met) (auto simp: get_arguments_def calm_def Let_def split: prod.splits if_splits sum.splits)

lemma waiting_met: "contract P (socket_accept eng args rv) P E" "contract P (socket_read eng args rv) P E"
    "contract P (socket_write eng args rv) P E" "contract P (co_pdo_prepare eng origin args rv) P E"
    "contract P (co_pdo_statement_fetchAll eng origin args rv) P E"
  unfolding socket_accept_def socket_read_def socket_write_def co_pdo_prepare_def co_pdo_statement_fetchAll_def first_fd_def
  by (intro keep_rules wait_met get_arguments_met)+

lemma sleep_met: "contract P (sleep eng sys arg rv) P E"
proof -
  have timer: "contract P (open_timer sys tm n) P E" for tm n
    by (rule state_met) (auto simp: open_timer_def calm_def Let_def split: prod.splits if_splits sum.splits)
  have alloc: "contract P (\<lambda>w. let (p, h) = malloc v (timers (rg w)) in Ret p (w\<lparr>rg := (rg w)\<lparr>timers := h\<rparr>\<rparr>)) P E" for v
    by (rule state_met) (auto simp: calm_def split: prod.splits)
  show ?thesis unfolding sleep_def by (intro keep_rules wait_met timer alloc)
qed

lemma set_timeout_met: "contract P (socket_set_timeout eng sys ob timeout persistent) P E"
proof -
  have alloc: "contract P (\<lambda>w. let (p, h) = malloc v (elems (rg w)) in Ret p (w\<lparr>rg := (rg w)\<lparr>elems := h\<rparr>\<rparr>)) P E" for v
    by (rule state_met) (auto simp: calm_def split: prod.splits)
  show ?thesis
    unfolding socket_set_timeout_def
    by (auto intro!: keep_rules alloc [unfolded Let_def case_prod_beta] try_state_met simp: case_prod_beta
        split: option.splits)
qed

lemma close_met: "contract P (socket_close eng args) P E"
  unfolding socket_close_def first_fd_def
  by (intro keep_rules get_arguments_met rg_met try_state_met state_met)
    (auto simp: calm_def split: prod.splits)

lemma yield_met: "contract P (yield rv) P E"
proof (rule contractI)
  fix w :: "'z world" assume w: "P w"
  show "meets P E (yield rv w)"
  proof (cases "load_task (current_coro (corog (saved rv w))) (saved rv w)")
    case (Inl e)
    then show ?thesis unfolding yield_def emalloc_save by (simp add: run_c try_c_def)
  next
    case (Inr t)
    show ?thesis
    proof (cases "cid_in_range (cid t)")
      case False
      with Inr show ?thesis unfolding yield_def emalloc_save by (simp add: run_c try_c_def try_upd_def)
    next
      case True
      have "yield rv w = longjmp_c (main_stack ((saved rv w)\<lparr>cid_context_map := (cid_context_map w)(cid t := Some (fresh (ctxs w)))\<rparr>))"
        using Inr True unfolding yield_def emalloc_save
        by (simp add: run_c try_c_def try_upd_def coro_yield_def main_stack_def) (simp add: saved_def)
      with contractD [OF contract_longjmp [where A = E and B = P and E = E], OF _ park_leave [OF w]] show ?thesis by simp
    qed
  qed
qed

lemma get_current_cid_met: "contract P get_current_cid P E"
  unfolding get_current_cid_def by (intro keep_rules)

lemmas methods_met = waiting_met sleep_met set_timeout_met close_met yield_met get_current_cid_met

end

text \<open>A property that saving a context keeps, whether the code then leaves or not.\<close>

locale quiet_contract =
  fixes P E :: "'z world \<Rightarrow> bool"
  assumes frame_kept: "\<And>w w'. P w \<Longrightarrow> eg w' = eg w \<Longrightarrow> corog w' = corog w \<Longrightarrow> checkPoint w' = checkPoint w
        \<Longrightarrow> vm_pages w' = vm_pages w \<Longrightarrow> ctxs w' = ctxs w \<Longrightarrow> cids w' = cids w \<Longrightarrow> cid_context_map w' = cid_context_map w
        \<Longrightarrow> P w'"
    and alloc_kept: "\<And>w. P w \<Longrightarrow> P (w\<lparr>ctxs := snd (emalloc None (ctxs w))\<rparr>)"
    and free_kept: "\<And>w ctx h. P w \<Longrightarrow> free_cell ctx (ctxs w) = Inr h \<Longrightarrow> P (w\<lparr>ctxs := h\<rparr>)"
    and save_ctx: "\<And>w rv ctx w'. P w \<Longrightarrow> c_coro_save rv ctx w = Ret () w' \<Longrightarrow> P w'"
    and park: "\<And>w rv c. P w \<Longrightarrow> P ((saved rv w)\<lparr>cid_context_map := (cid_context_map w)(c := Some (fresh (ctxs w)))\<rparr>)"
    and leave_kept: "\<And>w. P w \<Longrightarrow> E (main_stack w)"
begin

lemma save_met: "contract P (c_coro_save rv ctx) P E"
  by (rule contract_calm [OF save_ctx]) (auto simp: calm_def c_coro_save_def try_upd_def split: sum.splits)

end

sublocale quiet_contract \<subseteq> waiting_contract P E
  by unfold_locales (fact frame_kept alloc_kept free_kept | blast intro: save_ctx park leave_kept)+

end
