(* ===== verification/Event_Loop.thy ===== *)
theory Event_Loop
  imports Lifecycle
begin

text \<open>
  The event loop of \<open>coroutine.c\<close>: \<open>aio_invoke\<close> performs the delayed call of an event that became
  ready and resumes the coroutine that waits for it, \<open>event_loop\<close> polls and watches the socket
  timeouts. The module start-up and request shutdown functions are here too.
\<close>

section \<open>Definitions\<close>

text \<open>
  The delayed call: \<open>PDO::prepare\<close>, whose statement object is wrapped (\<open>wrap\<close>, an engine function)
  in a \<open>Co\\PDOStatement\<close>, a method of a statement, or a function. \<open>strcmp\<close> faults on \<open>NULL\<close>.
\<close>

definition event_args :: "aio_event \<Rightarrow> react \<Rightarrow> zval list res" where
  "event_args v r = (if args_count v = 0 then Inr []
     else bind_res (load (arguments v) (argvs r)) (\<lambda>args. Inr (take (nat (args_count v)) args)))"

definition event_call :: "'z engine \<Rightarrow> aio_event \<Rightarrow> zval option \<Rightarrow> string \<Rightarrow> ('z, zval) code" where
  "event_call eng v ob f =
     bind_c (try_c (\<lambda>w. event_args v (rg w))) (\<lambda>args w.
       let (r, k, z) = call_user_function eng ob f args (kern (rg w)) (zend w)
       in Ret r (w\<lparr>zend := z, rg := (rg w)\<lparr>kern := k\<rparr>\<rparr>))"

definition delayed_call :: "'z engine \<Rightarrow> (zval \<Rightarrow> 'z \<Rightarrow> zval \<times> 'z) \<Rightarrow> aio_event \<Rightarrow> ('z, zval) code" where
  "delayed_call eng wrap v =
     (case object v of
        Some ob \<Rightarrow>
          (case object_name v of
             None \<Rightarrow> (\<lambda>w. Fault NullDeref)
           | Some nm \<Rightarrow>
               if nm = ''PDO'' then
                 (case function_name v of
                    None \<Rightarrow> (\<lambda>w. Fault NullDeref)
                  | Some f \<Rightarrow>
                      if f = ''prepare''
                      then bind_c (event_call eng v (Some ob) f) (\<lambda>st w. let (r, z) = wrap st (zend w) in Ret r (w\<lparr>zend := z\<rparr>))
                      else ret_c ZNull)
               else if nm = ''PDOStatement''
               then (case function_name v of None \<Rightarrow> (\<lambda>w. Fault NullDeref) | Some f \<Rightarrow> event_call eng v (Some ob) f)
               else ret_c ZNull)
      | None \<Rightarrow> (case function_name v of None \<Rightarrow> ret_c ZNull | Some f \<Rightarrow> event_call eng v None f))"

text \<open>
  \<open>aio_invoke\<close>. The event is disarmed before the coroutine is resumed, and read once more
  afterwards.
\<close>

definition aio_invoke :: "'z engine \<Rightarrow> (zval \<Rightarrow> 'z \<Rightarrow> zval \<times> 'z) \<Rightarrow> (addr \<Rightarrow> ('z, unit) code) \<Rightarrow> ptr \<Rightarrow> ('z, unit) code" where
  "aio_invoke eng wrap ex ev =
     (if ev = None then ret_c ()
      else
        bind_c (try_c (\<lambda>w. load ev (evs (rg w)))) (\<lambda>v.
        bind_c (delayed_call eng wrap v) (\<lambda>result.
        bind_c (try_c (\<lambda>w. bind_res (load ev (evs (rg w))) (\<lambda>v. Inr (php_context v)))) (\<lambda>ctx.
        bind_c (rg_c (aio_event_free ev)) (\<lambda>_.
        seq_c (if ctx = None then ret_c ()
               else bind_c (c_coro_resume eng ex ctx (Some result)) (\<lambda>_. efree_ctx ctx))
        (bind_c (try_c (\<lambda>w. load ev (evs (rg w)))) (\<lambda>v1.
         if function_name v1 \<noteq> None then upd_c (\<lambda>w. w\<lparr>zend := zval_ptr_dtor eng result (zend w)\<rparr>) else ret_c ())))))))"

definition invoke_fd :: "'z engine \<Rightarrow> (zval \<Rightarrow> 'z \<Rightarrow> zval \<times> 'z) \<Rightarrow> (addr \<Rightarrow> ('z, unit) code) \<Rightarrow> int \<Rightarrow> ('z, unit) code" where
  "invoke_fd eng wrap ex fd = bind_c (try_c (\<lambda>w. event_slot fd (rg w))) (aio_invoke eng wrap ex)"

text \<open>The events of one \<open>epoll_wait\<close>, in the order it reports them.\<close>

primrec dispatch :: "'z engine \<Rightarrow> (zval \<Rightarrow> 'z \<Rightarrow> zval \<times> 'z) \<Rightarrow> (addr \<Rightarrow> ('z, unit) code) \<Rightarrow> epoll_event list \<Rightarrow> ('z, unit) code" where
  "dispatch eng wrap ex [] = ret_c ()"
| "dispatch eng wrap ex (e # es) =
     seq_c (if ep_events e AND EPOLLIN \<noteq> 0 then invoke_fd eng wrap ex (ep_data_fd e)
            else if ep_events e AND EPOLLOUT \<noteq> 0 then invoke_fd eng wrap ex (ep_data_fd e)
            else ret_c ())
     (dispatch eng wrap ex es)"

text \<open>
  The walk over the timeouts: \<open>f\<close> is the node before \<open>q\<close>. A node that expired for good is removed
  as in \<open>delete_node\<close>, and its \<open>next\<close> field is read after it was freed. The fuel bounds the walk.
\<close>

fun timeout_loop :: "'z engine \<Rightarrow> 'z system \<Rightarrow> (zval \<Rightarrow> 'z \<Rightarrow> zval \<times> 'z) \<Rightarrow> (addr \<Rightarrow> ('z, unit) code) \<Rightarrow> nat \<Rightarrow> int
    \<Rightarrow> ptr \<Rightarrow> ptr \<Rightarrow> ('z, unit) code" where
  "timeout_loop eng sys wrap ex n now f None w = Ret () w"
| "timeout_loop eng sys wrap ex 0 now f (Some q) w = OutOfFuel"
| "timeout_loop eng sys wrap ex (Suc n) now f (Some q) w =
     bind_c (try_c (\<lambda>w. bind_res (load (Some q) (snd (timeout_fd_link (rg w)))) (\<lambda>nd.
         bind_res (load (Some (data nd)) (elems (rg w))) (\<lambda>ele. Inr (data nd, ele))))) (\<lambda>(d, ele).
     seq_c (bind_c (try_c (\<lambda>w. time_add (te_last_time ele) (te_timeout ele))) (\<lambda>due.
        if due \<le> now then
          seq_c (invoke_fd eng wrap ex (te_fd ele))
          (bind_c (try_c (\<lambda>w. load (Some d) (elems (rg w)))) (\<lambda>ele1.
           if \<not> te_persistent ele1
           then try_upd (\<lambda>w. bind_res (remove_node f q (timeout_fd_link (rg w))) (\<lambda>l. Inr (w\<lparr>rg := (rg w)\<lparr>timeout_fd_link := l\<rparr>\<rparr>)))
           else try_upd (\<lambda>w. let (tv, z) = sys_gettimeofday sys (zend w) in
             bind_res (modify (Some d) (\<lambda>e. e\<lparr>te_last_time := get_current_time tv\<rparr>) (elems (rg w))) (\<lambda>h.
               Inr (w\<lparr>zend := z, rg := (rg w)\<lparr>elems := h\<rparr>\<rparr>)))))
        else ret_c ()))
     (bind_c (try_c (\<lambda>w. bind_res (load (Some q) (snd (timeout_fd_link (rg w)))) (\<lambda>nd. Inr (node_next nd))))
       (timeout_loop eng sys wrap ex n now (Some q)))) w"

definition event_round :: "'z engine \<Rightarrow> 'z system \<Rightarrow> (zval \<Rightarrow> 'z \<Rightarrow> zval \<times> 'z) \<Rightarrow> (addr \<Rightarrow> ('z, unit) code) \<Rightarrow> nat \<Rightarrow> ('z, unit) code" where
  "event_round eng sys wrap ex n =
     bind_c (\<lambda>w. let (es, z) = sys_epoll_wait sys (rg w) (zend w) in Ret es (w\<lparr>zend := z\<rparr>)) (\<lambda>es.
     seq_c (dispatch eng wrap ex es)
     (bind_c (get_c (\<lambda>w. front (fst (timeout_fd_link (rg w))))) (\<lambda>q.
     bind_c (\<lambda>w. let (tv, z) = sys_gettimeofday sys (zend w) in Ret (get_current_time tv) (w\<lparr>zend := z\<rparr>)) (\<lambda>now.
     timeout_loop eng sys wrap ex n now None q))))"

primrec event_rounds :: "'z engine \<Rightarrow> 'z system \<Rightarrow> (zval \<Rightarrow> 'z \<Rightarrow> zval \<times> 'z) \<Rightarrow> (addr \<Rightarrow> ('z, unit) code) \<Rightarrow> nat \<Rightarrow> nat \<Rightarrow> ('z, unit) code" where
  "event_rounds eng sys wrap ex n 0 = ret_c ()"
| "event_rounds eng sys wrap ex n (Suc k) = seq_c (event_round eng sys wrap ex n) (event_rounds eng sys wrap ex n k)"

text \<open>The loop polls 1000 times, then returns.\<close>

definition event_loop :: "'z engine \<Rightarrow> 'z system \<Rightarrow> (zval \<Rightarrow> 'z \<Rightarrow> zval \<times> 'z) \<Rightarrow> (addr \<Rightarrow> ('z, unit) code) \<Rightarrow> nat \<Rightarrow> ('z, zval) code" where
  "event_loop eng sys wrap ex n = seq_c (event_rounds eng sys wrap ex n 1000) (ret_c ZNull)"

text \<open>\<open>PHP_MINIT\<close>, less the registration of classes; \<open>PHP_RSHUTDOWN\<close>, which leaves \<open>checkPoint\<close>
  pointing to the freed buffer.\<close>

definition minit :: "bool \<Rightarrow> ('z, unit) code" where
  "minit mem = try_upd (\<lambda>w. bind_res (initqueue mem) (\<lambda>l. Inr (w\<lparr>rg := (rg w)\<lparr>timeout_fd_link := (l, snd (timeout_fd_link (rg w)))\<rparr>\<rparr>)))"

definition rshutdown :: "('z, unit) code" where
  "rshutdown w = (if checkPoint w \<noteq> None then efree_checkpoint w else Ret () w)"

section \<open>Lemmas\<close>

lemma idle_rounds:
  assumes "\<And>r z. fst (sys_epoll_wait sys r z) = []" and "front (fst (timeout_fd_link (rg w))) = None"
  shows "\<exists>z. event_rounds eng sys wrap ex n k w = Ret () (w\<lparr>zend := z\<rparr>)"
  using assms(2)
proof (induction k arbitrary: w)
  case 0
  have "w = w\<lparr>zend := zend w\<rparr>" by simp
  then show ?case unfolding event_rounds.simps(1) ret_c_run by blast
next
  case (Suc k)
  obtain z where ew: "sys_epoll_wait sys (rg w) (zend w) = ([], z)" using assms(1) [of "rg w" "zend w"] by (metis prod.collapse)
  obtain tv z1 where tv: "sys_gettimeofday sys z = (tv, z1)" by (metis surj_pair)
  have "event_round eng sys wrap ex n w = Ret () (w\<lparr>zend := z1\<rparr>)"
    using ew tv Suc.prems by (simp add: event_round_def run_c)
  moreover obtain z2 where "event_rounds eng sys wrap ex n k (w\<lparr>zend := z1\<rparr>) = Ret () (w\<lparr>zend := z1, zend := z2\<rparr>)"
    using Suc.IH [of "w\<lparr>zend := z1\<rparr>"] Suc.prems by auto
  ultimately show ?case by (auto simp: seq_c_run)
qed

text \<open>A run that returns has filled the current buffer with its own \<open>setjmp\<close> call.\<close>

lemma coro_run_token:
  assumes ex: "disciplined (ex f)" and w: "has_buffer b w" and run: "coro_run eng ex f w = Ret s w'"
  shows "tok_at w' (checkPoint w') = Some (setjmps w)" and "setjmps w \<le> setjmps w'"
proof -
  let ?w = "w\<lparr>jmps := (jmps w)\<lparr>cells := (cells (jmps w))(b := Some (Some (setjmps w)))\<rparr>, setjmps := Suc (setjmps w)\<rparr>"
  let ?body = "seq_c (ex f) (seq_c (coro_close eng) (ret_c CORO_END))"
  have cp: "checkPoint w = Some b" and live: "cells (jmps w) b \<noteq> None" and ok: "ok ?w"
    using w by (auto simp: has_buffer_def ok_def parked_def)
  have "disciplined ?body" by (intro disc ex)
  then have wi: "within ?w (?body ?w)" using ok by (rule disciplinedD)
  obtain w2 where w2: "fr None ?w w2" "jmps w' = jmps w2" "checkPoint w' = checkPoint w2" "setjmps w' = setjmps w2"
    using run wi
    by (auto simp: coro_run_def run_c setjmp_c_live [OF cp live] bind_o_Ret_iff within_def split: outcome.splits if_splits)
  have "tok_at ?w (checkPoint ?w) = Some (setjmps w)" using cp by (simp add: tok_at_def)
  then show "tok_at w' (checkPoint w') = Some (setjmps w)"
    using fr_tok [OF w2(1) ok] w2 tok_at_jmps [of w' w2] by simp
  show "setjmps w \<le> setjmps w'" using w2 by (simp add: fr_def)
qed

lemma c_coro_resume_token:
  assumes ex: "\<And>f. disciplined (ex f)" and w: "has_buffer b w" and run: "c_coro_resume eng ex ctx retval w = Ret s w'"
  shows "\<exists>k. setjmps w \<le> k \<and> tok_at w' (checkPoint w') = Some k" and "checkPoint w' = Some b"
proof -
  from run obtain f w1 where w1: "coro_reenter eng ctx retval w = Ret f w1" and r: "coro_run eng ex f w1 = Ret s w'"
    by (auto simp: c_coro_resume_def run_c bind_o_Ret_iff split: if_splits option.splits)
  have ok: "ok w" using w by (simp add: has_buffer_def)
  have fr1: "fr None w w1" using disciplinedD [OF coro_reenter_disciplined ok, of eng ctx retval] w1 by simp
  from coro_run_token(1) [OF ex fr_has_buffer [OF w fr1] r] fr1
  show "\<exists>k. setjmps w \<le> k \<and> tok_at w' (checkPoint w') = Some k" by (auto simp: fr_def)
  show "checkPoint w' = Some b"
    using c_coro_resume_contained [where ex = ex and eng = eng and ctx = ctx and retval = retval, OF ex w] run w
    by (simp add: contained_def fr_def has_buffer_def)
qed

text \<open>The delayed call touches the kernel and the engine only.\<close>

definition same_but :: "'z world \<Rightarrow> 'z world \<Rightarrow> bool" where
  "same_but w w' \<longleftrightarrow> eg w' = eg w \<and> corog w' = corog w \<and> checkPoint w' = checkPoint w \<and> jmps w' = jmps w
     \<and> setjmps w' = setjmps w \<and> ctxs w' = ctxs w \<and> cid_context_map w' = cid_context_map w \<and> evs (rg w') = evs (rg w)
     \<and> vm_pages w' = vm_pages w \<and> cids w' = cids w"

lemma same_but_refl: "same_but w w"
  by (simp add: same_but_def)

lemma same_but_zend: "same_but w w' \<Longrightarrow> same_but w (w'\<lparr>zend := z\<rparr>)"
  by (simp add: same_but_def)

lemma event_call_other: "event_call eng v ob f w = Ret r w' \<Longrightarrow> same_but w w'"
  by (auto simp: event_call_def run_c bind_o_Ret_iff try_c_def same_but_def split: sum.splits prod.splits)

lemma delayed_call_other:
  assumes "delayed_call eng wrap v w = Ret r w'"
  shows "same_but w w'"
proof (cases "object v")
  case None
  then show ?thesis using assms event_call_other
    by (auto simp: delayed_call_def ret_c_run same_but_refl split: option.splits)
next
  case (Some ob)
  show ?thesis
  proof (cases "object_name v = Some ''PDO'' \<and> function_name v = Some ''prepare''")
    case True
    then obtain st w1 where "event_call eng v (Some ob) ''prepare'' w = Ret st w1" "\<exists>z. w' = w1\<lparr>zend := z\<rparr>"
      using assms Some by (auto simp: delayed_call_def run_c bind_o_Ret_iff Let_def case_prod_beta)
    then show ?thesis using event_call_other same_but_zend by metis
  next
    case False
    then show ?thesis using assms Some event_call_other
      by (auto simp: delayed_call_def ret_c_run same_but_refl split: option.splits if_splits)
  qed
qed

lemma same_but_buffer: "has_buffer b w \<Longrightarrow> same_but w w' \<Longrightarrow> has_buffer b (w'\<lparr>rg := r\<rparr>)"
  by (auto simp: has_buffer_def ok_def parked_def same_but_def)

section \<open>Properties\<close>

text \<open>C40: what the walk over the timeouts does with the only reachable one: while it is not due nothing
  happens; when it is due the waiter of its descriptor is invoked, and then a persistent timeout starts
  again from the present time, while for one that is not persistent the loop reads the node it has just
  freed, when it steps to the next node.\<close>

theorem timeout_walk:
  assumes "cells (snd (timeout_fd_link (rg w))) q = Some nd" and "node_next nd = None" and "cells (elems (rg w)) (data nd) = Some ele"
    and "time_add (te_last_time ele) (te_timeout ele) = Inr due"
  shows "(now < due \<longrightarrow> timeout_loop eng sys wrap ex (Suc n) now f (Some q) w = Ret () w)
    \<and> (\<forall>w' ele'. due \<le> now \<longrightarrow> invoke_fd eng wrap ex (te_fd ele) w = Ret () w' \<longrightarrow> cells (elems (rg w')) (data nd) = Some ele'
        \<longrightarrow> cells (snd (timeout_fd_link (rg w'))) q = Some nd
        \<longrightarrow> (te_persistent ele' \<longrightarrow> (\<exists>tv z. sys_gettimeofday sys (zend w') = (tv, z)
              \<and> timeout_loop eng sys wrap ex (Suc n) now f (Some q) w = Ret () (w'\<lparr>zend := z, rg := (rg w')\<lparr>elems := (elems (rg w'))
                 \<lparr>cells := (cells (elems (rg w')))(data nd \<mapsto> ele'\<lparr>te_last_time := get_current_time tv\<rparr>)\<rparr>\<rparr>\<rparr>)))
         \<and> (\<not> te_persistent ele' \<longrightarrow> front (fst (timeout_fd_link (rg w'))) = Some q
              \<longrightarrow> timeout_loop eng sys wrap ex (Suc n) now f (Some q) w = Fault UseAfterFree))"
proof (intro conjI allI impI)
  show "timeout_loop eng sys wrap ex (Suc n) now f (Some q) w = Ret () w" if "now < due"
    using assms that by (simp add: run_c)
  fix w' ele'
  assume w': "due \<le> now" "invoke_fd eng wrap ex (te_fd ele) w = Ret () w'" "cells (elems (rg w')) (data nd) = Some ele'"
    "cells (snd (timeout_fd_link (rg w'))) q = Some nd"
  obtain tv z where tv: "sys_gettimeofday sys (zend w') = (tv, z)" by (metis surj_pair)
  show "\<exists>tv z. sys_gettimeofday sys (zend w') = (tv, z)
      \<and> timeout_loop eng sys wrap ex (Suc n) now f (Some q) w = Ret () (w'\<lparr>zend := z, rg := (rg w')\<lparr>elems := (elems (rg w'))
         \<lparr>cells := (cells (elems (rg w')))(data nd \<mapsto> ele'\<lparr>te_last_time := get_current_time tv\<rparr>)\<rparr>\<rparr>\<rparr>)" if "te_persistent ele'"
    using assms w' tv that by (simp add: run_c try_upd_def modify_def)
  show "timeout_loop eng sys wrap ex (Suc n) now f (Some q) w = Fault UseAfterFree"
    if "\<not> te_persistent ele'" "front (fst (timeout_fd_link (rg w'))) = Some q"
    using assms w' that by (cases "timeout_fd_link (rg w')") (simp add: run_c try_upd_def remove_node_def unlink_def)
qed

text \<open>A request whose only socket timeout, for descriptor 7, was due at time 5.\<close>

definition demo_timeout :: "bool \<Rightarrow> demo world" where
  "demo_timeout persistent = (demo_ready [])\<lparr>rg := reg_none\<lparr>
     timeout_fd_link := (\<lparr>front = Some 0, rear = Some 0, lsize = 1\<rparr>,
        \<lparr>cells = (\<lambda>_. None)(0 := Some \<lparr>data = 0, node_next = None\<rparr>), fresh = 1, oom = \<lambda>_. False\<rparr>),
     elems := \<lparr>cells = (\<lambda>_. None)(0 := Some \<lparr>te_fd = 7, te_timeout = 5, te_last_time = 0, te_persistent = persistent\<rparr>),
        fresh = 1, oom = \<lambda>_. False\<rparr>\<rparr>\<rparr>"

theorem timeout_walk_witness:
  "(\<exists>w'. timeout_loop (demo_engine (\<lambda>_. []) False) (demo_system 9) Pair (\<lambda>f. ret_c ()) (Suc 0) 6 None (Some 0) (demo_timeout True) = Ret () w'
      \<and> map_option te_last_time (cells (elems (rg w')) 0) = Some (get_current_time (100, 0)))
   \<and> timeout_loop (demo_engine (\<lambda>_. []) False) (demo_system 9) Pair (\<lambda>f. ret_c ()) (Suc 0) 6 None (Some 0) (demo_timeout False) = Fault UseAfterFree
   \<and> timeout_loop (demo_engine (\<lambda>_. []) False) (demo_system 9) Pair (\<lambda>f. ret_c ()) (Suc 0) 4 None (Some 0) (demo_timeout False) = Ret () (demo_timeout False)"
proof -
  let ?e = "demo_engine (\<lambda>_. []) False" and ?s = "demo_system 9"
  let ?ele = "\<lambda>p. \<lparr>te_fd = 7, te_timeout = 5, te_last_time = 0, te_persistent = p\<rparr>"
  have f: "cells (snd (timeout_fd_link (rg (demo_timeout p)))) 0 = Some \<lparr>data = 0, node_next = None\<rparr>"
    "cells (elems (rg (demo_timeout p))) 0 = Some (?ele p)" "time_add 0 5 = Inr 5" "front (fst (timeout_fd_link (rg (demo_timeout p)))) = Some 0"
    "invoke_fd ?e Pair (\<lambda>f. ret_c ()) 7 (demo_timeout p) = Ret () (demo_timeout p)" "sys_gettimeofday ?s z = ((100, 0), z)" for p z
    by (simp_all add: demo_timeout_def time_add_def invoke_fd_def run_c event_slot_def fd_in_range_def aio_invoke_def reg_none_def demo_system_def)
  note walk = timeout_walk [where nd = "\<lparr>data = 0, node_next = None\<rparr>" and ele = "?ele p" and q = 0 and w = "demo_timeout p" and due = 5
      and eng = ?e and sys = ?s and wrap = Pair and ex = "\<lambda>f. ret_c ()" and f = None and n = 0 for p]
  from walk [of True 6] walk [of False 6] walk [of False 4] show ?thesis
    by (simp add: f del: timeout_loop.simps)
qed

text \<open>The event loop stops after 1000 polls even while coroutines still wait: if no poll reports
  an event and there is no timeout, it returns and every registration is still there.\<close>

lemma event_loop_gives_up:
  assumes "\<And>r z. fst (sys_epoll_wait sys r z) = []" and "front (fst (timeout_fd_link (rg w))) = None"
  shows "\<exists>w'. event_loop eng sys wrap ex n w = Ret ZNull w' \<and> rg w' = rg w \<and> ctxs w' = ctxs w
    \<and> eg w' = eg w \<and> corog w' = corog w \<and> checkPoint w' = checkPoint w"
proof -
  obtain z where "event_rounds eng sys wrap ex n 1000 w = Ret () (w\<lparr>zend := z\<rparr>)"
    using idle_rounds [where sys = sys, OF assms] by blast
  then show ?thesis by (simp add: event_loop_def seq_c_run ret_c_run del: event_rounds.simps)
qed

text \<open>\<open>PHP_RSHUTDOWN\<close> frees the current checkpoint but leaves the global pointing to it: at the end
  of the next request of the same process the buffer is freed a second time.\<close>

lemma rshutdown_twice:
  assumes "checkPoint w = Some b" and "cells (jmps w) b \<noteq> None"
  shows "\<exists>w'. rshutdown w = Ret () w' \<and> checkPoint w' = Some b \<and> rshutdown w' = Fault BadFree"
  using assms by (auto simp: rshutdown_def efree_checkpoint_def try_upd_def)

text \<open>C32: \<open>sleep\<close> with a timeout that is not positive returns \<open>TRUE\<close> at once and changes nothing; when
  \<open>timerfd_create\<close> fails, its result \<open>-1\<close> is used as a descriptor and indexes the event table out of
  bounds.\<close>

theorem sleep_boundaries:
  assumes "parse_long eng arg = Some n"
  shows "(n \<le> 0 \<longrightarrow> sleep eng sys arg rv w = Ret (ZBool True) w)
    \<and> (0 < n \<longrightarrow> fst (sys_timerfd_create sys (zend w)) < 0 \<longrightarrow> sleep eng sys arg rv w = Fault OutOfBounds)"
proof (intro conjI impI)
  assume "n \<le> 0"
  with assms show "sleep eng sys arg rv w = Ret (ZBool True) w" by (simp add: sleep_def run_c)
next
  assume n: "0 < n" and tfd: "fst (sys_timerfd_create sys (zend w)) < 0"
  obtain t z where tz: "sys_timerfd_create sys (zend w) = (t, z)" "t < 0" using tfd by (metis prod.collapse)
  obtain p h where ph: "malloc \<lparr>value_sec = 0, value_nsec = 0, interval_sec = 0, interval_nsec = 0\<rparr> (timers (rg w)) = (p, h)"
    by (metis surj_pair)
  have oob: "aio_event_store (-1) ty c cb ev tm ob obn fn av ac r = Inl OutOfBounds" for ty c cb ev tm ob obn fn av ac r
    by (simp add: aio_event_store_def slot_event_def event_slot_def fd_in_range_def)
  show "sleep eng sys arg rv w = Fault OutOfBounds"
    using assms n tz by (simp add: sleep_def run_c ph open_timer_def Let_def wait_fd_def emalloc_ctx_def emalloc_def oob)
qed

theorem sleep_boundaries_witness:
  "sleep (demo_engine (\<lambda>_. []) False) (demo_system (-1)) (ZLong 0) None (demo_coro []) = Ret (ZBool True) (demo_coro [])
   \<and> sleep (demo_engine (\<lambda>_. []) False) (demo_system (-1)) (ZLong 1) None (demo_coro []) = Fault OutOfBounds"
proof -
  have "fst (sys_timerfd_create (demo_system (-1)) (zend (demo_coro []))) < 0" by (simp add: demo_system_def)
  with sleep_boundaries [OF demo_parked_facts(4), of 0] sleep_boundaries [OF demo_parked_facts(4), of 1]
  show ?thesis by simp
qed

text \<open>C38: a coroutine that reads a socket another coroutine already waits for is suspended for ever: the
  call jumps back to the scheduler, but no event and no entry of the map refers to the context it
  was saved in; the first waiter keeps the socket.\<close>

theorem socket_read_second_waiter_lost:
  assumes "reg_inv (rg w)" and "fd_in_range fd" and "waiting (rg w) fd = Some c"
    and "c_convert_to_fd (php eng (zend w)) z = Inr fd" and "parameters_ok eng (z # zs) (zend w)"
    and "tok_at w (checkPoint w) = Some k"
  shows "\<exists>w'. socket_read eng (z # zs) rv w = Jump k w' \<and> cells (ctxs w') (fresh (ctxs w)) = Some (Some (saved_ctx rv w))
    \<and> waiting (rg w') = waiting (rg w) \<and> cid_context_map w' = cid_context_map w"
proof -
  let ?h = "snd (emalloc (z # zs) (argvs (rg w)))" and ?a = "Some (fresh (argvs (rg w)))"
  let ?r = "(rg w)\<lparr>argvs := ?h\<rparr>"
  have "waiting (rg w) fd \<noteq> None" using assms(3) by simp
  with assms(1,2) obtain a s v e where "ready (rg w) fd a s v e" and ar: "armed_event v e" by (rule waiting_Some_armed)
  then have "ready ?r fd a s v e" by (simp add: ready_def)
  note st = store_armed [OF this ar assms(2)]
  let ?w = "saved rv (w\<lparr>rg := ?r\<rparr>)"
  let ?w' = "?w\<lparr>eg := (eg w)\<lparr>vm_stack := origin_vm_stack (corog w),
        vm_stack_top := origin_vm_stack_top (corog w), vm_stack_end := origin_vm_stack_end (corog w)\<rparr>\<rparr>"
  have fd: "0 \<le> fd" using assms(2) by (simp add: fd_in_range_def)
  have "socket_read eng (z # zs) rv w = coro_yield ?w"
    using assms(4,5) fd st
    by (simp add: socket_read_def run_c get_arguments_def emalloc_def Let_def first_fd_def wait_fd_def emalloc_ctx_def
        c_coro_save_live saved_def saved_ctx_def)
  also have "\<dots> = longjmp_c ?w'" by (simp add: coro_yield_def run_c saved_def)
  also have "\<dots> = Jump k ?w'" using assms(6) tok_at_jmps [of ?w' w] unfolding longjmp_c_tok by (simp add: saved_def)
  finally have "socket_read eng (z # zs) rv w = Jump k ?w'" .
  moreover have "waiting (rg ?w') = waiting (rg w)"
    by (rule ext) (simp add: waiting_def event_of_def saved_def cong: option.case_cong)
  ultimately show ?thesis by (intro exI [of _ ?w']) (simp add: saved_def saved_ctx_def)
qed

text \<open>The demo coroutine reads descriptor 7, for which context 4 waits.\<close>

theorem socket_read_second_waiter_lost_witness:
  "\<exists>w'. socket_read (demo_engine (\<lambda>_. []) False) [ZLong 7] None ((demo_coro [])\<lparr>rg := reg_timer\<rparr>) = Jump 0 w'
    \<and> waiting (rg w') 7 = Some 4"
proof -
  let ?w = "(demo_coro [])\<lparr>rg := reg_timer\<rparr>" and ?e = "demo_engine (\<lambda>_. []) False"
  have "reg_inv (rg ?w)" "waiting (rg ?w) 7 = Some 4" using reg_timer_ok by (simp_all add: waiting_def)
  moreover have "c_convert_to_fd (php ?e (zend ?w)) (ZLong 7) = Inr 7" "parameters_ok ?e [ZLong 7] (zend ?w)"
    by (simp_all add: demo_engine_def c_convert_to_fd_def to_cint_def)
  moreover have "tok_at ?w (checkPoint ?w) = Some 0" by (simp add: demo_defs tok_at_def)
  ultimately show ?thesis using socket_read_second_waiter_lost [OF _ reg_none_ok(5), of ?w 4 ?e "ZLong 7" "[]" 0 None] by fastforce
qed



text \<open>C39: \<open>aio_invoke\<close> resumes coroutines on the checkpoint of its caller, without saving it. When the
  event loop is run inside a coroutine, the jump buffer of that coroutine afterwards names a
  \<open>setjmp\<close> call that has returned: the next wait of that coroutine jumps there instead of to its own
  \<open>setjmp\<close>.\<close>

theorem aio_invoke_overwrites_checkpoint:
  assumes "has_buffer b w" and "tok_at w (checkPoint w) = Some t" and "t < setjmps w"
    and "cells (evs (rg w)) ev = Some v" and "php_context v = Some c"
    and "aio_invoke eng wrap (exec eng sys prog n) (Some ev) w = Ret () w'"
  shows "\<exists>k w''. coro_yield w' = (Jump k w'' :: ('z, zval) outcome) \<and> setjmps w \<le> k \<and> k \<noteq> t"
proof -
  let ?ex = "exec eng sys prog n"
  from assms(4,6) obtain res w1 where dc: "delayed_call eng wrap v w = Ret res w1"
    by (auto simp: aio_invoke_def run_c bind_o_Ret_iff)
  then have w1: "same_but w w1" by (rule delayed_call_other)
  then have ld: "cells (evs (rg w1)) ev = Some v" using assms(4) by (simp add: same_but_def)
  from assms(4-6) dc ld obtain x r where fr: "aio_event_free (Some ev) (rg w1) = Inr (x, r)"
    by (auto simp: aio_invoke_def run_c bind_o_Ret_iff rg_c_def split: sum.splits prod.splits)
  let ?fin = "bind_c (try_c (\<lambda>w. load (Some ev) (evs (rg w)))) (\<lambda>v1.
      if function_name v1 \<noteq> None then upd_c (\<lambda>w. w\<lparr>zend := zval_ptr_dtor eng res (zend w)\<rparr>) else ret_c ())"
  have "aio_invoke eng wrap ?ex (Some ev) w = bind_o (bind_o (c_coro_resume eng ?ex (Some c) (Some res) (w1\<lparr>rg := r\<rparr>))
      (\<lambda>_. efree_ctx (Some c))) (\<lambda>_. ?fin)"
    using assms(4,5) dc ld fr by (simp add: aio_invoke_def bind_c_run seq_c_run try_c_run rg_c_run)
  with assms(6) obtain s w2 w3 where rs: "c_coro_resume eng ?ex (Some c) (Some res) (w1\<lparr>rg := r\<rparr>) = Ret s w2"
    and "efree_ctx (Some c) w2 = Ret () w3" "?fin w3 = Ret () w'"
    by (auto simp: bind_o_Ret_iff)
  then have same: "jmps w' = jmps w2" "checkPoint w' = checkPoint w2"
    by (auto simp: run_c bind_o_Ret_iff efree_ctx_def try_upd_def try_c_def split: sum.splits if_splits)
  have buf: "has_buffer b (w1\<lparr>rg := r\<rparr>)" using same_but_buffer [OF assms(1) w1] .
  from c_coro_resume_token(1) [where ex = ?ex, OF exec_disciplined buf rs] w1 obtain j where
    j: "setjmps w \<le> j" "tok_at w2 (checkPoint w2) = Some j" by (auto simp: same_but_def)
  let ?y = "w'\<lparr>eg := (eg w')\<lparr>vm_stack := origin_vm_stack (corog w'),
        vm_stack_top := origin_vm_stack_top (corog w'), vm_stack_end := origin_vm_stack_end (corog w')\<rparr>\<rparr>"
  have "tok_at ?y (checkPoint ?y) = Some j" using j(2) same tok_at_jmps [of ?y w2] by simp
  then have "longjmp_c ?y = (Jump j ?y :: ('z, zval) outcome)" by (simp add: longjmp_c_tok)
  then have "coro_yield w' = (Jump j ?y :: ('z, zval) outcome)" by (simp add: coro_yield_def run_c)
  with j(1) assms(3) show ?thesis by auto
qed

text \<open>
  The demo coroutine 1 sleeps on the timer descriptor 7, in context 4; another coroutine, inside the
  \<open>setjmp\<close> call 0 of buffer 1, runs the event loop.
\<close>

definition demo_sleeper :: "demo world" where
  "demo_sleeper = demo_parked\<lparr>checkPoint := Some 1, cid_context_map := (\<lambda>_. None), rg := reg_timer,
      ctxs := \<lparr>cells = (\<lambda>_. None)(4 := cells (ctxs demo_parked) 0), fresh = 5, oom = \<lambda>_. False\<rparr>\<rparr>"

lemma demo_sleeper_facts: "has_buffer 1 demo_sleeper" "tok_at demo_sleeper (checkPoint demo_sleeper) = Some 0"
    "setjmps demo_sleeper = 1"
  by (simp_all add: demo_sleeper_def demo_parked_def demo_defs has_buffer_def ok_def parked_def tok_at_def)

definition demo_timer_event :: aio_event where
  "demo_timer_event = zero_event\<lparr>ev_fd := 7, php_context := Some 4, ep_event := Some 0, fd_type := FD_TYPE_TIMMER, timer := Some 0\<rparr>"

lemma demo_sleeper_event: "cells (evs (rg demo_sleeper)) 0 = Some demo_timer_event" "php_context demo_timer_event = Some 4"
  by (simp_all add: demo_sleeper_def reg_timer_def demo_timer_event_def)

lemma demo_invoke_returns:
  "\<exists>w'. aio_invoke (demo_engine (\<lambda>_. []) False) Pair (exec (demo_engine (\<lambda>_. []) False) (demo_system 9) demo_program 1) (Some 0) demo_sleeper
     = Ret () w'"
proof -
  have fr1: "free_cidmap 1 cidmap_one_used = Inr (cidmap_one_used\<lparr>page := (page cidmap_one_used)(0 := 0), nr_free := 0x8000\<rparr>)"
    by (simp add: free_cidmap_def cidmap_one_used_def cidmap_init_def clear_bit_def word_index_def bit_mask_def)
  have dc: "delayed_call eng Pair demo_timer_event w = Ret ZNull w" for eng and w :: "demo world"
    by (simp add: delayed_call_def demo_timer_event_def zero_event_def ret_c_run)
  obtain r where r: "aio_event_free (Some 0) (rg demo_sleeper) = Inr (0, r)" "cells (evs r) 0 \<noteq> None"
    by (simp add: demo_sleeper_def reg_timer_def reg_none_def aio_event_free_def disarm_timer_def zero_event_def
        epoll_ctl_del_def Let_def)
  let ?e = "demo_engine (\<lambda>_. []) False" and ?x = "exec (demo_engine (\<lambda>_. []) False) (demo_system 9) demo_program 1"
  have "\<exists>w2. c_coro_resume ?e ?x (Some 4) (Some ZNull) (demo_sleeper\<lparr>rg := r\<rparr>) = Ret 0 w2 \<and> rg w2 = r \<and> cells (ctxs w2) 4 \<noteq> None"
    apply (simp add: demo_sleeper_def demo_parked_def demo_defs c_coro_resume_def coro_reenter_def load_ctx_def run_c)
    apply (simp add: coro_run_def run_c setjmp_c_def coro_close_def coro_drop_def coro_release_def load_task_def task_cell_def sizeof_task_def fr1 efree_zval_def)
    done
  then obtain w2 where w2: "c_coro_resume ?e ?x (Some 4) (Some ZNull) (demo_sleeper\<lparr>rg := r\<rparr>) = Ret 0 w2" "rg w2 = r"
    "cells (ctxs w2) 4 \<noteq> None" by blast
  then show ?thesis
    using r demo_sleeper_event dc by (auto simp: aio_invoke_def run_c efree_ctx_def try_upd_def)
qed

theorem aio_invoke_overwrites_checkpoint_witness:
  "\<exists>w' k w''. aio_invoke (demo_engine (\<lambda>_. []) False) Pair (exec (demo_engine (\<lambda>_. []) False) (demo_system 9) demo_program 1) (Some 0) demo_sleeper
     = Ret () w' \<and> coro_yield w' = (Jump k w'' :: (demo, zval) outcome) \<and> tok_at demo_sleeper (checkPoint demo_sleeper) = Some 0 \<and> k \<noteq> 0"
proof -
  obtain w' where w': "aio_invoke (demo_engine (\<lambda>_. []) False) Pair (exec (demo_engine (\<lambda>_. []) False) (demo_system 9) demo_program 1) (Some 0) demo_sleeper
     = Ret () w'" using demo_invoke_returns by blast
  from aio_invoke_overwrites_checkpoint [OF demo_sleeper_facts(1,2) _ demo_sleeper_event w'] demo_sleeper_facts w'
  show ?thesis by auto
qed

text \<open>The argument array of a call is freed on every path of \<open>Co\\PDO::__construct\<close>, but
  \<open>socket_read\<close> on a value that names no descriptor returns \<open>FALSE\<close> and leaks it: the array stays
  allocated and nothing refers to it. No event, context or coroutine is changed by either.\<close>

lemma argument_arrays_freed_or_leaked:
  assumes "wf_heap (argvs (rg w))"
  shows "(\<exists>v w'. co_pdo_construct eng new_pdo set_origin args w = Ret v w' \<and> cells (argvs (rg w')) = cells (argvs (rg w))
      \<and> evs (rg w') = evs (rg w) \<and> ctxs w' = ctxs w \<and> corog w' = corog w
      \<and> (v = ZBool False \<longleftrightarrow> \<not> parameters_ok eng args (zend w)))
    \<and> (parameters_ok eng (x # xs) (zend w) \<longrightarrow> c_convert_to_fd (php eng (zend w)) x = Inr fd \<longrightarrow> fd < 0 \<longrightarrow>
      (\<exists>w'. socket_read eng (x # xs) rv w = Ret (ZBool False) w'
        \<and> cells (argvs (rg w')) = (cells (argvs (rg w)))(fresh (argvs (rg w)) := Some (x # xs))
        \<and> evs (rg w') = evs (rg w) \<and> ctxs w' = ctxs w \<and> corog w' = corog w))"
  using assms
  by (auto simp: co_pdo_construct_def socket_read_def first_fd_def get_arguments_def run_c emalloc_def Let_def try_upd_def
      wf_heap_def fun_upd_idem split: prod.splits)

end
