(* ===== verification/Loops.thy ===== *)
theory Loops
  imports Event_Loop Contracts
begin

text \<open>
  The event loop under a contract: what every invocation of a waiting coroutine meets, and changes of
  the timeout queue and of the engine's state keep, the whole loop meets.
\<close>

lemma contract_steps: "(\<And>w. A w \<Longrightarrow> A (w\<lparr>zend := z w\<rparr>)) \<Longrightarrow> contract A (\<lambda>w. Ret (x w) (w\<lparr>zend := z w\<rparr>)) A E"
  by (simp add: contract_def)

lemma contract_cong: "(\<And>w. m w = k w) \<Longrightarrow> contract A k B E \<Longrightarrow> contract A m B E"
  by (simp add: contract_def)

locale loop_contract =
  fixes A E :: "'z world \<Rightarrow> bool" and eng :: "'z engine" and sys :: "'z system" and wrap :: "zval \<Rightarrow> 'z \<Rightarrow> zval \<times> 'z"
    and ex :: "addr \<Rightarrow> ('z, unit) code"
  assumes invoke_met: "\<And>fd. contract A (invoke_fd eng wrap ex fd) A E"
    and zend_kept: "\<And>w z. A w \<Longrightarrow> A (w\<lparr>zend := z\<rparr>)"
    and queue_kept: "\<And>w l. A w \<Longrightarrow> A (w\<lparr>rg := (rg w)\<lparr>timeout_fd_link := l\<rparr>\<rparr>)"
    and elems_kept: "\<And>w h. A w \<Longrightarrow> A (w\<lparr>rg := (rg w)\<lparr>elems := h\<rparr>\<rparr>)"
begin

lemma dispatch_met: "contract A (dispatch eng wrap ex es) A E"
proof (induction es)
  case (Cons e es)
  show ?case unfolding dispatch.simps(2) by (intro contract_seq [OF _ Cons.IH] contract_if invoke_met contract_pure(1))
qed (simp add: contract_pure)

text \<open>The timeout of one node: what is done when it is due.\<close>

lemma due_met:
  "contract A (try_upd (\<lambda>w. bind_res (remove_node f q (timeout_fd_link (rg w))) (\<lambda>l. Inr (w\<lparr>rg := (rg w)\<lparr>timeout_fd_link := l\<rparr>\<rparr>)))) A E"
  "contract A (try_upd (\<lambda>w. let (tv, z) = sys_gettimeofday sys (zend w) in
     bind_res (modify (Some d) (\<lambda>e. e\<lparr>te_last_time := get_current_time tv\<rparr>) (elems (rg w))) (\<lambda>h.
       Inr (w\<lparr>zend := z, rg := (rg w)\<lparr>elems := h\<rparr>\<rparr>)))) A E"
proof -
  show "contract A (try_upd (\<lambda>w. bind_res (remove_node f q (timeout_fd_link (rg w))) (\<lambda>l. Inr (w\<lparr>rg := (rg w)\<lparr>timeout_fd_link := l\<rparr>\<rparr>)))) A E"
    by (rule contract_try_upd) (auto intro: queue_kept split: sum.splits)
  have "A (w\<lparr>zend := z, rg := (rg w)\<lparr>elems := h\<rparr>\<rparr>)" if "A w" for w z h
    using elems_kept [OF zend_kept [OF that]] by simp
  then show "contract A (try_upd (\<lambda>w. let (tv, z) = sys_gettimeofday sys (zend w) in
     bind_res (modify (Some d) (\<lambda>e. e\<lparr>te_last_time := get_current_time tv\<rparr>) (elems (rg w))) (\<lambda>h.
       Inr (w\<lparr>zend := z, rg := (rg w)\<lparr>elems := h\<rparr>\<rparr>)))) A E"
    by (intro contract_try_upd) (auto simp: case_prod_beta Let_def split: sum.splits)
qed

lemma timeout_loop_met: "contract A (timeout_loop eng sys wrap ex n now f q) A E"
proof (induction n arbitrary: f q)
  case 0
  show ?case by (cases q) (simp_all add: contract_def)
next
  case (Suc n)
  show ?case
  proof (cases q)
    case None
    then show ?thesis by (simp add: contract_def)
  next
    case (Some a)
    show ?thesis unfolding Some
      by (rule contract_cong, rule timeout_loop.simps(3), unfold split_def)
        (intro keep_rules(1,2) contract_if contract_pure invoke_met due_met [unfolded split_def] Suc.IH)
  qed
qed

lemma event_round_met: "contract A (event_round eng sys wrap ex n) A E"
proof -
  have "contract A (\<lambda>w. let (es, z) = sys_epoll_wait sys (rg w) (zend w) in Ret es (w\<lparr>zend := z\<rparr>)) A E"
    "contract A (\<lambda>w. let (tv, z) = sys_gettimeofday sys (zend w) in Ret (get_current_time tv) (w\<lparr>zend := z\<rparr>)) A E"
    by (simp_all add: case_prod_beta Let_def contract_steps zend_kept)
  then show ?thesis
    unfolding event_round_def by (intro keep_rules(1,2) dispatch_met timeout_loop_met contract_pure(2))
qed

lemma event_loop_met: "contract A (event_loop eng sys wrap ex n) A E"
proof -
  have "contract A (event_rounds eng sys wrap ex n k) A E" for k
    by (induction k) (simp_all add: contract_pure contract_seq [OF event_round_met])
  then show ?thesis unfolding event_loop_def by (rule contract_seq [OF _ contract_pure(1)])
qed

end

end
