(* ===== verification/Request.thy ===== *)
theory Request
  imports Loops
begin

text \<open>
  The extension as PHP code sees it: the tables of functions and methods with their argument
  information, the resolution of a call by name, and the run of a request, whose script and
  coroutines may call everything the tables list, the event loop included, at any depth.
\<close>

section \<open>Argument information\<close>

text \<open>\<open>ZEND_BEGIN_ARG_INFO_EX(name, _, return_reference, required_num_args)\<close> with its parameters.\<close>

record arg_info =
  return_reference :: bool
  required_num_args :: nat
  arg_names :: "string list"

definition one_required :: "string list \<Rightarrow> arg_info" where
  "one_required ns = \<lparr>return_reference = False, required_num_args = 1, arg_names = ns\<rparr>"

definition arginfo_coroutine :: "(string \<times> arg_info) list" where
  "arginfo_coroutine =
     (''create'', one_required [''callback'']) #
     map (\<lambda>n. (n, one_required []))
      [''socket_accept'', ''socket_read'', ''socket_write'', ''sleep'', ''socket_set_timeout'', ''socket_close'',
       ''get_current_cid'', ''yield'', ''resume'', ''event_loop'']"

definition arginfo_co_pdo :: "(string \<times> arg_info) list" where
  "arginfo_co_pdo = map (\<lambda>n. (n, one_required []))
      [''__construct'', ''prepare'', ''query'', ''quote'', ''rollBack'', ''beginTransaction'', ''exec'', ''errorCode'',
       ''errorInfo'', ''getAttribute'', ''inTransaction'', ''lastInsertId'', ''setAttribute'', ''__destruct'']"

definition arginfo_co_pdo_statement :: "(string \<times> arg_info) list" where
  "arginfo_co_pdo_statement = map (\<lambda>n. (n, one_required []))
      [''fetchAll'', ''closeCursor'', ''columnCount'', ''execute'', ''fetch'', ''fetchColumn'', ''fetchObject'',
       ''getColumnMeta'', ''nextRowset'', ''rowCount'', ''bindColumn'', ''bindParam'', ''bindValue'', ''debugDumpParams'',
       ''errorCode'', ''errorInfo'', ''getAttribute'', ''setAttribute'', ''setFetchMode'', ''__destruct'']"

section \<open>Function tables\<close>

datatype handler =
    H_create | H_socket_accept | H_socket_read | H_socket_write | H_get_current_cid | H_yield | H_sleep
  | H_socket_set_timeout | H_socket_close | H_event_loop | H_resume
  | H_pdo_construct | H_pdo_prepare | H_pdo_destruct | H_statement_fetchAll | H_statement_destruct

datatype access = ACC_PUBLIC | ACC_STATIC

record function_entry =
  entry_name :: string
  fhandler :: handler
  farg_info :: "arg_info option"
  fflags :: "access list"

definition coroutine_function :: "function_entry list" where
  "coroutine_function =
     [\<lparr>entry_name = ''coroutine_create'', fhandler = H_create, farg_info = map_of arginfo_coroutine ''create'', fflags = []\<rparr>,
      \<lparr>entry_name = ''co'', fhandler = H_create, farg_info = map_of arginfo_coroutine ''create'', fflags = []\<rparr>]"

definition coroutine_method :: "function_entry list" where
  "coroutine_method =
     map (\<lambda>(n, h). \<lparr>entry_name = n, fhandler = h, farg_info = map_of arginfo_coroutine n, fflags = [ACC_PUBLIC, ACC_STATIC]\<rparr>)
      [(''create'', H_create), (''socket_accept'', H_socket_accept), (''socket_read'', H_socket_read),
       (''socket_write'', H_socket_write), (''get_current_cid'', H_get_current_cid), (''yield'', H_yield),
       (''sleep'', H_sleep), (''socket_set_timeout'', H_socket_set_timeout), (''socket_close'', H_socket_close),
       (''event_loop'', H_event_loop), (''resume'', H_resume)]"

definition co_pdo_method :: "function_entry list" where
  "co_pdo_method =
     map (\<lambda>(n, h). \<lparr>entry_name = n, fhandler = h, farg_info = map_of arginfo_co_pdo n, fflags = [ACC_PUBLIC]\<rparr>)
      [(''__construct'', H_pdo_construct), (''prepare'', H_pdo_prepare), (''__destruct'', H_pdo_destruct)]"

definition co_pdo_statement_method :: "function_entry list" where
  "co_pdo_statement_method =
     map (\<lambda>(n, h). \<lparr>entry_name = n, fhandler = h, farg_info = map_of arginfo_co_pdo_statement n, fflags = [ACC_PUBLIC]\<rparr>)
      [(''fetchAll'', H_statement_fetchAll), (''__destruct'', H_statement_destruct)]"

text \<open>The classes \<open>PHP_MINIT\<close> registers, with the alias \<open>Co\<close>.\<close>

definition module_classes :: "(string \<times> function_entry list) list" where
  "module_classes = [(''coroutine'', coroutine_method), (''Co'', coroutine_method), (''Co'' @ CHR 0x5C # ''PDO'', co_pdo_method),
     (''Co'' @ CHR 0x5C # ''PDOStatement'', co_pdo_statement_method)]"

definition all_tables :: "function_entry list list" where
  "all_tables = [coroutine_function, coroutine_method, co_pdo_method, co_pdo_statement_method]"

text \<open>PHP compares the names of functions, classes and methods without regard to case.\<close>

definition lower_char :: "char \<Rightarrow> char" where
  "lower_char c = (case map_of (zip ''ABCDEFGHIJKLMNOPQRSTUVWXYZ'' ''abcdefghijklmnopqrstuvwxyz'') c of None \<Rightarrow> c | Some d \<Rightarrow> d)"

definition lower :: "string \<Rightarrow> string" where
  "lower s = map lower_char s"

definition entry :: "function_entry list \<Rightarrow> string \<Rightarrow> handler option" where
  "entry table n = map_option fhandler (find (\<lambda>e. lower (entry_name e) = lower n) table)"

text \<open>\<open>resolve c n\<close>: the handler of the method \<open>n\<close> of class \<open>c\<close>, or of the function \<open>n\<close>.\<close>

definition resolve :: "string option \<Rightarrow> string \<Rightarrow> handler option" where
  "resolve c n = (case c of
      None \<Rightarrow> entry coroutine_function n
    | Some cl \<Rightarrow> (case find (\<lambda>(k, t). lower k = lower cl) module_classes of None \<Rightarrow> None | Some (k, t) \<Rightarrow> entry t n))"

section \<open>Calls of a request\<close>

datatype request_call = Ext php_call | EventLoop | PdoConstruct "zval list" | PdoDestruct zval | StatementDestruct zval

text \<open>
  The parameters a handler takes: \<open>Inl\<close> the value it returns when their number is wrong. \<open>origin\<close> is
  the property \<open>origin\<close> of the object the method is called on. \<open>sleep\<close> parses one or two parameters
  (\<open>FAST_ZPP\<close>) and reads the first.
\<close>

fun handler_call :: "handler \<Rightarrow> zval \<Rightarrow> zval list \<Rightarrow> zval + request_call" where
  "handler_call H_create origin args = (case args of [f] \<Rightarrow> Inr (Ext (Create f)) | _ \<Rightarrow> Inl ZNull)"
| "handler_call H_socket_accept origin args = Inr (Ext (SocketAccept args))"
| "handler_call H_socket_read origin args = Inr (Ext (SocketRead args))"
| "handler_call H_socket_write origin args = Inr (Ext (SocketWrite args))"
| "handler_call H_get_current_cid origin args = Inr (Ext GetCurrentCid)"
| "handler_call H_yield origin args = Inr (Ext Yield)"
| "handler_call H_sleep origin args = (case args of [z] \<Rightarrow> Inr (Ext (Sleep z)) | [z, _] \<Rightarrow> Inr (Ext (Sleep z)) | _ \<Rightarrow> Inl (ZBool False))"
| "handler_call H_socket_set_timeout origin args = (case args of
      [ob, t] \<Rightarrow> Inr (Ext (SetTimeout ob t None))
    | [ob, t, p] \<Rightarrow> Inr (Ext (SetTimeout ob t (Some p)))
    | _ \<Rightarrow> Inl (ZBool False))"
| "handler_call H_socket_close origin args = Inr (Ext (SocketClose args))"
| "handler_call H_event_loop origin args = Inr EventLoop"
| "handler_call H_resume origin args = (case args of [z] \<Rightarrow> Inr (Ext (Resume z)) | _ \<Rightarrow> Inl ZNull)"
| "handler_call H_pdo_construct origin args = Inr (PdoConstruct args)"
| "handler_call H_pdo_prepare origin args = Inr (Ext (Prepare origin args))"
| "handler_call H_pdo_destruct origin args = Inr (PdoDestruct origin)"
| "handler_call H_statement_fetchAll origin args = Inr (Ext (FetchAll origin args))"
| "handler_call H_statement_destruct origin args = Inr (StatementDestruct origin)"

text \<open>
  What the wrappers of PDO ask of the engine: wrapping a statement, creating a \<open>PDO\<close> object and storing
  it in the property \<open>origin\<close>.
\<close>

record 'z pdo_host =
  wrap_statement :: "zval \<Rightarrow> 'z \<Rightarrow> zval \<times> 'z"
  new_pdo :: "'z \<Rightarrow> zval \<times> 'z"
  set_origin :: "zval \<Rightarrow> 'z \<Rightarrow> 'z"

definition request_api :: "'z engine \<Rightarrow> 'z system \<Rightarrow> 'z pdo_host \<Rightarrow> (addr \<Rightarrow> ('z, unit) code) \<Rightarrow> nat \<Rightarrow> request_call \<Rightarrow> ptr
    \<Rightarrow> ('z, zval) code" where
  "request_api eng sys host ex k c rv = (case c of
      Ext call \<Rightarrow> api eng sys ex call rv
    | EventLoop \<Rightarrow> event_loop eng sys (wrap_statement host) ex k
    | PdoConstruct args \<Rightarrow> co_pdo_construct eng (new_pdo host) (set_origin host) args
    | PdoDestruct origin \<Rightarrow> co_pdo_destruct eng origin
    | StatementDestruct origin \<Rightarrow> co_pdo_statement_destruct eng origin)"

text \<open>A call by name. A name the tables do not have ends the request.\<close>

record named_call =
  call_class :: "string option"
  call_name :: string
  call_origin :: zval
  call_args :: "zval list"

definition named_api :: "'z engine \<Rightarrow> 'z system \<Rightarrow> 'z pdo_host \<Rightarrow> (addr \<Rightarrow> ('z, unit) code) \<Rightarrow> nat \<Rightarrow> named_call \<Rightarrow> ptr
    \<Rightarrow> ('z, zval) code" where
  "named_api eng sys host ex k nc rv w =
     (case resolve (call_class nc) (call_name nc) of
        None \<Rightarrow> Fault ProcessExit
      | Some h \<Rightarrow> (case handler_call h (call_origin nc) (call_args nc) of
           Inl v \<Rightarrow> Ret v w
         | Inr c \<Rightarrow> request_api eng sys host ex k c rv w))"

text \<open>
  What the engine does with a frame of a request, as \<open>program\<close> does for frames that call the
  functions of a coroutine only; \<open>run_request\<close> is \<open>zend_execute_ex\<close>. The fuel bounds the depth of
  the calls, the calls a frame makes, and the walks of the event loop over the timeouts.
\<close>

record 'z script =
  next_named :: "addr \<Rightarrow> executor_globals \<Rightarrow> 'z \<Rightarrow> (named_call \<times> ptr) option \<times> executor_globals \<times> 'z"
  after_named :: "addr \<Rightarrow> zval \<Rightarrow> executor_globals \<Rightarrow> 'z \<Rightarrow> executor_globals \<times> 'z"

fun run_request :: "'z engine \<Rightarrow> 'z system \<Rightarrow> 'z pdo_host \<Rightarrow> 'z script \<Rightarrow> nat \<Rightarrow> addr \<Rightarrow> ('z, unit) code" where
  "run_request eng sys host scr 0 f w = OutOfFuel"
| "run_request eng sys host scr (Suc n) f w =
     (let (c, e, z) = next_named scr f (eg w) (zend w); w1 = w\<lparr>eg := e, zend := z\<rparr> in
      case c of
        None \<Rightarrow> Ret () w1
      | Some (call, rv) \<Rightarrow>
          bind_o (named_api eng sys host (run_request eng sys host scr n) n call rv w1) (\<lambda>v w2.
            let (e2, z2) = after_named scr f v (eg w2) (zend w2) in
            run_request eng sys host scr n f (w2\<lparr>eg := e2, zend := z2\<rparr>)))"

section \<open>Lemmas\<close>

lemma contract_request:
  assumes engine: "\<And>w e z. A w \<Longrightarrow> A (w\<lparr>eg := e, zend := z\<rparr>)"
    and api: "\<And>ex k c rv. (\<And>f. contract A (ex f) A E) \<Longrightarrow> contract A (request_api eng sys host ex k c rv) A E"
  shows "contract A (run_request eng sys host scr n f) A E"
proof (induction n arbitrary: f)
  case 0
  show ?case by (rule contractI) simp
next
  case (Suc n)
  show ?case
  proof (rule contractI)
    fix w :: "'a world" assume w: "A w"
    obtain c e z where nc: "next_named scr f (eg w) (zend w) = (c, e, z)" by (metis prod_cases3)
    note w1 = engine [OF w, where e = e and z = z]
    have named: "meets A E (named_api eng sys host (run_request eng sys host scr n) n call rv (w\<lparr>eg := e, zend := z\<rparr>))" for call rv
      using contractD [OF api [OF Suc.IH] w1] w1 by (simp add: named_api_def split: option.splits sum.splits)
    have cont: "meets A E (case after_named scr f v (eg w2) (zend w2) of (e2, z2) \<Rightarrow>
            run_request eng sys host scr n f (w2\<lparr>eg := e2, zend := z2\<rparr>))" if "A w2" for v w2
      using contractD [OF Suc.IH engine [OF that]] by (simp split: prod.splits)
    show "meets A E (run_request eng sys host scr (Suc n) f w)"
    proof (cases c)
      case None
      with nc w1 show ?thesis by simp
    next
      case (Some cr)
      obtain call rv where cr: "cr = (call, rv)" by (cases cr)
      from meets_bind [OF named cont] nc Some cr show ?thesis by simp
    qed
  qed
qed

lemma entry_lower: "lower n = lower m \<Longrightarrow> entry t n = entry t m"
  by (simp add: entry_def)

lemma resolve_method:
  assumes "lower n = lower m" and "lower c = lower d"
  shows "resolve (Some c) n = resolve (Some d) m"
  unfolding resolve_def by (simp only: option.case assms(2) entry_lower [OF assms(1)])

lemma resolve_function: "lower n = lower m \<Longrightarrow> resolve None n = resolve None m"
  unfolding resolve_def by (simp only: option.case entry_lower [of n m])

lemma resolve_create: "resolve None ''co'' = Some H_create" "resolve None ''coroutine_create'' = Some H_create"
    "resolve (Some ''Co'') ''create'' = Some H_create" "resolve (Some ''coroutine'') ''create'' = Some H_create"
  by code_simp+

text \<open>Scripts whose functions end at once, and no PDO.\<close>

definition demo_script :: "demo script" where
  "demo_script = \<lparr>next_named = (\<lambda>f e z. (None, e, z)), after_named = (\<lambda>f v e z. (e, z))\<rparr>"

definition demo_host :: "demo pdo_host" where
  "demo_host = \<lparr>wrap_statement = Pair, new_pdo = (\<lambda>z. (ZNull, z)), set_origin = (\<lambda>v z. z)\<rparr>"

section \<open>Properties\<close>

text \<open>The tables are sound: in each of them no two names are the same up to case, so every entry can
  be reached, and every entry has argument information; and every handler the extension defines is
  registered.\<close>

lemma tables_sound:
  "(\<forall>t \<in> set all_tables. distinct (map (\<lambda>e. lower (entry_name e)) t)
      \<and> (\<forall>e \<in> set t. entry t (entry_name e) = Some (fhandler e) \<and> farg_info e \<noteq> None))
   \<and> (\<exists>t \<in> set all_tables. \<exists>e \<in> set t. fhandler e = h)"
proof -
  have "\<forall>t \<in> set all_tables. distinct (map (\<lambda>e. lower (entry_name e)) t)
      \<and> (\<forall>e \<in> set t. entry t (entry_name e) = Some (fhandler e) \<and> farg_info e \<noteq> None)"
    by code_simp
  moreover have "\<exists>t \<in> set all_tables. \<exists>e \<in> set t. fhandler e = h"
    by (cases h; hypsubst; code_simp)
  ultimately show ?thesis ..
qed

text \<open>C19: \<open>co\<close>, \<open>coroutine_create\<close>, \<open>Co::create\<close> and \<open>coroutine::create\<close>, in any case, are one function: with
  one argument each of them is \<open>coroutine_create\<close>, and with another number of arguments it returns
  \<open>NULL\<close> and does nothing.\<close>

theorem create_by_name:
  assumes "call_class nc = None \<and> lower (call_name nc) \<in> {lower ''co'', lower ''coroutine_create''}
    \<or> (\<exists>c. call_class nc = Some c \<and> lower c \<in> {lower ''co'', lower ''coroutine''} \<and> lower (call_name nc) = lower ''create'')"
  shows "named_api eng sys host ex k nc rv w =
    (case call_args nc of [f] \<Rightarrow> coroutine_create eng sys ex f rv w | _ \<Rightarrow> Ret ZNull w)"
proof -
  have low: "lower ''co'' = lower ''Co''" by code_simp
  have "resolve (call_class nc) (call_name nc) = Some H_create"
    using assms
  proof (elim disjE conjE exE)
    assume c: "call_class nc = None" and "lower (call_name nc) \<in> {lower ''co'', lower ''coroutine_create''}"
    then consider "lower (call_name nc) = lower ''co''" | "lower (call_name nc) = lower ''coroutine_create''" by blast
    then show ?thesis by cases (simp_all only: c resolve_function resolve_create)
  next
    fix c assume c: "call_class nc = Some c" "lower (call_name nc) = lower ''create''" and "lower c \<in> {lower ''co'', lower ''coroutine''}"
    then consider "lower c = lower ''Co''" | "lower c = lower ''coroutine''" using low by force
    then show ?thesis by cases (simp_all only: c(1) resolve_method [OF c(2)] resolve_create)
  qed
  then show ?thesis by (simp add: named_api_def request_api_def api_def split: list.splits)
qed

theorem create_by_name_witness:
  "named_api (demo_engine (\<lambda>_. []) False) (demo_system 9) demo_host
     (run_request (demo_engine (\<lambda>_. []) False) (demo_system 9) demo_host demo_script 1) 1
     \<lparr>call_class = Some ''CO'', call_name = ''Create'', call_origin = ZNull, call_args = []\<rparr> None (demo_ready []) = Ret ZNull (demo_ready [])"
  by (subst create_by_name) (simp_all add: lower_def lower_char_def)

end
