(* ===== verification/Invariants.thy ===== *)
theory Invariants
  imports Request
begin

text \<open>
  Invariants of the event registry that survive every PHP program and the event loop.
  \<open>code_invariant\<close> is the contract of an invariant of the registry: inside it, every way the model
  composes code is shown to keep the invariant once. \<open>system_invariant\<close> adds what the operations
  on the registry have to promise, and gives the invariance under the interpreter of PHP code and
  under the event loop. Both are interpreted on \<open>registry_inv\<close>, the invariant of \<open>Events\<close> under the
  documented behaviour of the engine and the kernel; \<open>session\<close> gives the states a request reaches.
\<close>

section \<open>Invariants of code\<close>

locale code_invariant =
  fixes I :: "'z world \<Rightarrow> bool"
  assumes frame: "\<And>w w'. I w \<Longrightarrow> rg w' = rg w \<Longrightarrow> I w'"
begin

definition safe :: "('z, 'a) outcome \<Rightarrow> bool" where
  "safe out \<longleftrightarrow> meets I I out"

definition keeps :: "('z, 'a) code \<Rightarrow> bool" where
  "keeps m \<longleftrightarrow> (\<forall>w. I w \<longrightarrow> safe (m w))"

lemma keeps_contract: "keeps m \<longleftrightarrow> contract I m I I"
  by (simp add: keeps_def safe_def contract_def)

lemma safe_simps [simp]: "safe (Ret x w) = I w" "safe (Jump t w) = I w" "safe (Fault e)" "safe OutOfFuel"
  by (simp_all add: safe_def)

lemma keepsI: "(\<And>w. I w \<Longrightarrow> safe (m w)) \<Longrightarrow> keeps m"
  by (simp add: keeps_def)

lemma keepsD: "keeps m \<Longrightarrow> I w \<Longrightarrow> safe (m w)"
  by (simp add: keeps_def)

lemma safe_bind: "safe out \<Longrightarrow> (\<And>x w. I w \<Longrightarrow> safe (f x w)) \<Longrightarrow> safe (bind_o out f)"
  unfolding safe_def by (rule meets_bind)

lemma keeps_compose: "keeps m \<Longrightarrow> (\<And>x. keeps (f x)) \<Longrightarrow> keeps (bind_c m f)" "keeps k \<Longrightarrow> keeps m \<Longrightarrow> keeps (seq_c k m)"
    "keeps m \<Longrightarrow> keeps m' \<Longrightarrow> keeps (if c then m else m')"
    "keeps m \<Longrightarrow> (\<And>a. keeps (g a)) \<Longrightarrow> keeps (case x of None \<Rightarrow> m | Some a \<Rightarrow> g a)"
  unfolding keeps_contract by (rule keep_rules; assumption)+

lemmas keeps_bind = keeps_compose(1) and keeps_seq = keeps_compose(2) and keeps_if = keeps_compose(3) and keeps_option = keeps_compose(4)

lemma keeps_pure: "keeps (ret_c x)" "keeps (get_c f)" "keeps (try_c g)" "keeps longjmp_c"
  unfolding keeps_contract by (simp_all add: contract_pure contract_longjmp)

text \<open>Code that leaves the registry alone.\<close>

lemma keeps_other:
  assumes "\<And>w x w'. m w = Ret x w' \<Longrightarrow> rg w' = rg w" and "calm m"
  shows "keeps m"
  unfolding keeps_contract by (rule contract_calm [OF _ assms(2)]) (blast intro: frame assms(1))

lemma keeps_upd: "(\<And>w. rg (f w) = rg w) \<Longrightarrow> keeps (upd_c f)"
  unfolding keeps_contract by (rule contract_upd) (auto intro: frame)

lemma keeps_try_upd: "(\<And>w w'. f w = Inr w' \<Longrightarrow> rg w' = rg w) \<Longrightarrow> keeps (try_upd f)"
  unfolding keeps_contract by (rule contract_try_upd) (auto intro: frame)

lemma keeps_setjmp: "keeps m \<Longrightarrow> keeps k \<Longrightarrow> keeps (setjmp_c m k)"
  unfolding keeps_contract by (rule contract_setjmp) (auto intro: frame)

lemmas keeps_rules = keeps_bind keeps_seq keeps_pure keeps_if keeps_option keeps_setjmp keeps_upd keeps_try_upd

text \<open>The life cycle of a coroutine does not touch the registry, except through the code it runs.\<close>

lemma efree_zval_rg: "efree_zval eng d p w = Inr w' \<Longrightarrow> rg w' = rg w"
  by (auto simp: efree_zval_def)

lemma store_task_rg: "store_task q t w = Inr w' \<Longrightarrow> rg w' = rg w"
  by (auto simp: store_task_def split: prod.splits)

lemma coro_close_keeps: "keeps (coro_close eng)"
  unfolding coro_close_def coro_drop_def coro_release_def
  by (intro keeps_rules) (auto simp: c_zval_free_def dest!: efree_zval_rg store_task_rg)

lemma coro_enter_keeps: "keeps (coro_enter eng sys fci argv post params c)"
  unfolding coro_enter_def c_vm_stack_init_def
  by (intro keeps_rules) (auto simp: Let_def emalloc_def split: prod.splits dest!: store_task_rg
      intro!: keeps_other simp: calm_def)

lemma coro_reenter_keeps: "keeps (coro_reenter eng ctx retval)"
  unfolding coro_reenter_def load_ctx_def
  by (intro keeps_rules) (auto simp: Let_def calm_def split: prod.splits option.splits if_splits intro!: keeps_other)

lemma coro_run_keeps: "(\<And>f. keeps (ex f)) \<Longrightarrow> keeps (coro_run eng ex f)"
  unfolding coro_run_def by (intro keeps_rules coro_close_keeps) simp_all

lemma c_coro_create_keeps:
  assumes "\<And>f. keeps (ex f)"
  shows "keeps (c_coro_create eng sys ex fci argv post params)"
proof -
  have "keeps (\<lambda>w. case alloc_cidmap (cids w) of Inl e \<Rightarrow> Fault e | Inr (c, m) \<Rightarrow> Ret c (w\<lparr>cids := m\<rparr>))"
    by (rule keeps_other) (auto simp: calm_def split: sum.splits prod.splits)
  then show ?thesis unfolding c_coro_create_def by (intro keeps_rules coro_enter_keeps coro_run_keeps assms)
qed

lemma c_coro_resume_keeps:
  assumes "\<And>f. keeps (ex f)"
  shows "keeps (c_coro_resume eng ex ctx retval)"
proof -
  have "keeps (\<lambda>w. if s = CORO_END \<and> exception (eg w)
       then (case retval of None \<Rightarrow> Fault NullDeref | Some z \<Rightarrow> Fault ProcessExit) else Ret s w)" for s
    by (rule keepsI) (simp split: option.splits)
  then show ?thesis unfolding c_coro_resume_def by (intro keeps_bind coro_reenter_keeps coro_run_keeps assms)
qed

lemma context_code_keeps: "keeps (efree_ctx ctx)" "keeps emalloc_ctx" "keeps push_checkpoint" "keeps efree_checkpoint"
    "keeps (c_coro_save rv ctx)" "keeps (load_ctx ctx)" "keeps (c_coro_resume_parent ctx)" "keeps (c_zval_dup z)"
    "keeps coro_yield" "keeps (keep_callback eng cb)"
  unfolding efree_ctx_def efree_checkpoint_def c_coro_save_def load_ctx_def c_coro_resume_parent_def coro_yield_def
  by ((intro keeps_rules; auto; fail) | (rule keeps_other;
      auto simp: emalloc_ctx_def push_checkpoint_def c_zval_dup_def keep_callback_def emalloc_def try_upd_def calm_def
        c_zval_free_def Let_def dest!: efree_zval_rg store_task_rg split: sum.splits if_splits; fail))+

lemma yield_keeps: "keeps (yield rv)"
  unfolding yield_def by (intro keeps_rules context_code_keeps) (auto split: if_splits)

lemma resume_keeps:
  assumes "\<And>f. keeps (ex f)"
  shows "keeps (resume eng ex arg rv)"
  unfolding resume_def resume_finish_def
  by (intro keeps_rules context_code_keeps c_coro_resume_keeps assms) simp_all

lemma coroutine_create_keeps:
  assumes "\<And>f. keeps (ex f)" and "keeps (coro_init sys)"
  shows "keeps (coroutine_create eng sys ex func rv)"
proof -
  have "keeps (\<lambda>w. let (p, h) = emalloc 0 (fcaches w) in Ret (Some p) (w\<lparr>fcaches := h\<rparr>))"
    by (rule keeps_other) (auto simp: calm_def emalloc_def)
  moreover have "keeps (\<lambda>w. if checkPoint w = None then coro_init sys w else Ret () w)"
    by (rule keepsI) (simp add: keepsD [OF assms(2)])
  ultimately show ?thesis
    unfolding coroutine_create_def create_finish_def
    by (intro keeps_rules context_code_keeps c_coro_create_keeps assms) (auto split: if_splits)
qed

end

section \<open>Invariants of the system\<close>

text \<open>What the methods and the event handler, the code that works on the registry, have to promise.\<close>

locale system_invariant = code_invariant I for I :: "'z world \<Rightarrow> bool" +
  fixes eng :: "'z engine" and sys :: "'z system" and wrap :: "zval \<Rightarrow> 'z \<Rightarrow> zval \<times> 'z"
  assumes init_keeps: "keeps (coro_init sys)"
    and accept_keeps: "\<And>args rv. keeps (socket_accept eng args rv)"
    and read_keeps: "\<And>args rv. keeps (socket_read eng args rv)"
    and write_keeps: "\<And>args rv. keeps (socket_write eng args rv)"
    and sleep_keeps: "\<And>arg rv. keeps (sleep eng sys arg rv)"
    and timeout_keeps: "\<And>ob t p. keeps (socket_set_timeout eng sys ob t p)"
    and close_keeps: "\<And>args. keeps (socket_close eng args)"
    and prepare_keeps: "\<And>ob args rv. keeps (co_pdo_prepare eng ob args rv)"
    and fetch_keeps: "\<And>ob args rv. keeps (co_pdo_statement_fetchAll eng ob args rv)"
    and construct_keeps: "\<And>new set args. keeps (co_pdo_construct eng new set args)"
    and invoke_keeps: "\<And>ex fd. (\<And>f. keeps (ex f)) \<Longrightarrow> keeps (invoke_fd eng wrap ex fd)"
    and queue_keeps: "\<And>w l. I w \<Longrightarrow> I (w\<lparr>rg := (rg w)\<lparr>timeout_fd_link := l\<rparr>\<rparr>)"
    and elems_keeps: "\<And>w h. I w \<Longrightarrow> I (w\<lparr>rg := (rg w)\<lparr>elems := h\<rparr>\<rparr>)"
begin

lemma api_keeps:
  assumes "\<And>f. keeps (ex f)"
  shows "keeps (api eng sys ex c rv)"
  unfolding api_def get_current_cid_def
  by (cases c) (simp_all add: assms coroutine_create_keeps resume_keeps yield_keeps keeps_bind keeps_pure
      init_keeps accept_keeps read_keeps write_keeps sleep_keeps timeout_keeps close_keeps prepare_keeps fetch_keeps)

lemma frame_zend: "I w \<Longrightarrow> I (w\<lparr>eg := e, zend := z\<rparr>)" "I w \<Longrightarrow> I (w\<lparr>zend := z\<rparr>)"
  by (simp_all add: frame)

lemma event_loop_keeps:
  assumes "\<And>f. keeps (ex f)"
  shows "keeps (event_loop eng sys wrap ex n)"
proof -
  have "loop_contract I I eng wrap ex"
    by unfold_locales (use invoke_keeps [OF assms] in \<open>simp_all add: keeps_contract frame_zend queue_keeps elems_keeps\<close>)
  then show ?thesis unfolding keeps_contract by (rule loop_contract.event_loop_met)
qed

text \<open>Every call a request can make, and so every request, at any depth of calls.\<close>

lemma request_api_keeps:
  assumes "\<And>f. keeps (ex f)" and "wrap_statement host = wrap"
  shows "keeps (request_api eng sys host ex k c rv)"
proof -
  have "keeps (event_loop eng sys (wrap_statement host) ex k)" unfolding assms(2) by (rule event_loop_keeps [OF assms(1)])
  then show ?thesis
    using assms(1) unfolding request_api_def co_pdo_destruct_def co_pdo_statement_destruct_def
    by (cases c) (auto intro!: api_keeps construct_keeps keeps_rules)
qed

lemma run_request_keeps:
  assumes "wrap_statement host = wrap"
  shows "keeps (run_request eng sys host scr n f)"
  unfolding keeps_contract
  by (rule contract_request) (simp_all add: frame_zend request_api_keeps [unfolded keeps_contract, OF _ assms])

end

section \<open>The registry\<close>

text \<open>
  The invariant of \<open>Events\<close>, with well-formed heaps of argument arrays and timers. It relies on what
  the rest of the process is documented to do: calling a function may close descriptors, which takes
  them off the interest list, but adds none to the extension's epoll instance, and \<open>epoll_create\<close>
  succeeds.
\<close>

definition registry_ok :: "react \<Rightarrow> bool" where
  "registry_ok r \<longleftrightarrow> reg_inv r \<and> wf_heap (argvs r) \<and> wf_heap (timers r)"

definition fewer_polled :: "kernel \<Rightarrow> kernel \<Rightarrow> bool" where
  "fewer_polled k k' \<longleftrightarrow> epoll_inst k' = epoll_inst k \<and> (\<forall>fd. interest k' fd = interest k fd \<or> interest k' fd = None)"

definition polite :: "'z engine \<Rightarrow> 'z system \<Rightarrow> bool" where
  "polite eng sys \<longleftrightarrow> (\<forall>ob f args k z. fewer_polled k (fst (snd (call_user_function eng ob f args k z))))
     \<and> (\<forall>z. fst (sys_epoll_create sys z) \<noteq> -1)"

text \<open>Changes around the events: the invariant survives when every array and timer that an event holds
  stays allocated and no descriptor is added to the interest list.\<close>

lemma registry_around:
  assumes ok: "registry_ok r"
    and same: "aio_event_fds r' = aio_event_fds r" "evs r' = evs r" "eps r' = eps r" "epollfd r' = epollfd r"
    and k: "fewer_polled (kern r) (kern r')" and wf: "wf_heap (argvs r')" "wf_heap (timers r')"
    and argv: "\<And>g v e p. fd_in_range g \<Longrightarrow> event_of r g = Some (v, e) \<Longrightarrow> arguments v = Some p \<Longrightarrow> cells (argvs r') p \<noteq> None"
    and tms: "\<And>g v e p. fd_in_range g \<Longrightarrow> event_of r g = Some (v, e) \<Longrightarrow> timer v = Some p \<Longrightarrow> cells (timers r') p \<noteq> None"
  shows "registry_ok r'"
proof -
  have ev: "event_of r' = event_of r" by (rule ext) (simp add: event_of_def same cong: option.case_cong)
  have inv: "reg_inv r" using ok by (simp add: registry_ok_def)
  have slot: "slot_ok r' fd" if sl: "slot_ok r fd" for fd
  proof -
    have int: "interest (kern r') fd = interest (kern r) fd \<or> interest (kern r') fd = None" using k by (simp add: fewer_polled_def)
    from sl show ?thesis
    proof (cases rule: slot_ok_cases)
      case vacant
      with int same show ?thesis by (auto simp: slot_ok_def)
    next
      case (event a s v e)
      then have "idle_event v e \<and> interest (kern r') fd = None
          \<or> armed_event v e \<and> (interest (kern r') fd = None \<or> interest (kern r') fd = Some (ep_events e))"
        using int by metis
      with event same show ?thesis by (intro slot_okI [where a = a and s = s and v = v and e = e]) simp_all
    qed
  qed
  have own: "owns r' fd" if "fd_in_range fd" for fd
    using argv [OF that] tms [OF that] by (auto simp: owns_def ev split: option.splits)
  have sh: "shares r' = shares r" by (intro ext) (simp add: shares_def ev)
  show ?thesis
    using inv slot own k wf by (simp add: registry_ok_def reg_inv_def same sh fewer_polled_def)
qed

lemma fewer_polled_refl: "fewer_polled k k"
  by (simp add: fewer_polled_def)

lemma registry_holds:
  assumes "registry_ok r" and "fd_in_range g" and "event_of r g = Some (v, e)"
  shows "arguments v = Some p \<Longrightarrow> cells (argvs r) p \<noteq> None" and "timer v = Some p \<Longrightarrow> cells (timers r) p \<noteq> None"
  using reg_invD [of r g] assms by (auto simp: registry_ok_def owns_def)

lemma registry_kern:
  assumes "registry_ok r" and "fewer_polled (kern r) k"
  shows "registry_ok (r\<lparr>kern := k\<rparr>)"
  by (rule registry_around [OF assms(1)])
    (use assms registry_holds [OF assms(1)] in \<open>auto simp: registry_ok_def\<close>)

text \<open>No event holds array \<open>p\<close>.\<close>

definition unheld :: "react \<Rightarrow> addr \<Rightarrow> bool" where
  "unheld r p \<longleftrightarrow> (\<forall>g v e. fd_in_range g \<longrightarrow> event_of r g = Some (v, e) \<longrightarrow> arguments v \<noteq> Some p)"

lemma event_of_argvs: "event_of (r\<lparr>argvs := h\<rparr>) = event_of r" and event_of_timers: "event_of (r\<lparr>timers := t\<rparr>) = event_of r"
    and event_of_kern: "event_of (r\<lparr>kern := k\<rparr>) = event_of r"
  by (rule ext; simp add: event_of_def cong: option.case_cong)+

lemma registry_new_argv:
  assumes "registry_ok r" and "emalloc args (argvs r) = (p, h)"
  shows "registry_ok (r\<lparr>argvs := h\<rparr>)" and "unheld (r\<lparr>argvs := h\<rparr>) p" and "unowned (r\<lparr>argvs := h\<rparr>) (Some p) None"
proof -
  have ph: "p = fresh (argvs r)" "h = (argvs r)\<lparr>cells := (cells (argvs r))(p := Some args), fresh := Suc p\<rparr>"
    using assms(2) by (auto simp: emalloc_def)
  have wf: "wf_heap (argvs r)" "wf_heap h" using assms(1) ph by (auto simp: registry_ok_def wf_heap_def less_Suc_eq)
  show "registry_ok (r\<lparr>argvs := h\<rparr>)"
    by (rule registry_around [OF assms(1)])
      (use assms(1) wf ph registry_holds [OF assms(1)] in \<open>auto simp: registry_ok_def fewer_polled_refl\<close>)
  show un: "unheld (r\<lparr>argvs := h\<rparr>) p"
    unfolding unheld_def event_of_argvs
  proof (intro allI impI notI)
    fix g v e assume "fd_in_range g" "event_of r g = Some (v, e)" "arguments v = Some p"
    then have "cells (argvs r) p \<noteq> None" by (rule registry_holds(1) [OF assms(1)])
    with wf(1) ph(1) show False by simp
  qed
  then show "unowned (r\<lparr>argvs := h\<rparr>) (Some p) None"
    by (auto simp: unowned_def unheld_def ph split: option.splits)
qed

lemma registry_drop_argv:
  assumes "registry_ok r" and "unheld r p" and "free_cell (Some p) (argvs r) = Inr h"
  shows "registry_ok (r\<lparr>argvs := h\<rparr>)"
proof -
  have h: "h = (argvs r)\<lparr>cells := (cells (argvs r))(p := None)\<rparr>" using assms(3) by (auto simp: free_cell_def split: option.splits)
  show ?thesis
    by (rule registry_around [OF assms(1)])
      (use assms(1,2) h registry_holds [OF assms(1)] in \<open>auto simp: registry_ok_def fewer_polled_refl wf_heap_def unheld_def\<close>)
qed

lemma registry_store:
  assumes ok: "registry_ok r" and un: "unowned r argv tm"
    and ty: "fdtype \<in> {FD_TYPE_ACCEPT, FD_TYPE_TIMMER, FD_TYPE_NORMAL}" "tm \<noteq> None \<longrightarrow> fdtype = FD_TYPE_TIMMER" "events \<noteq> 0"
    and st: "aio_event_store fd fdtype (Some c) cb events tm ob obname fname argv argc r = Inr (ret, r')"
  shows "registry_ok r'"
proof -
  have inv: "reg_inv r" using ok by (simp add: registry_ok_def)
  have fd: "fd_in_range fd" using st by (auto simp: aio_event_store_def slot_event_def event_slot_def split: if_splits)
  show ?thesis
  proof (cases "waiting r fd")
    case (Some x)
    then have "r' = r" using aio_event_store_armed [OF inv fd, of fdtype] st by simp
    with ok show ?thesis by simp
  next
    case None
    have room: "slot_room r fd"
    proof (rule ccontr)
      assume "\<not> slot_room r fd"
      then have "\<exists>e. slot_event fd r = Inl e"
        using fd by (auto simp: slot_room_def reg_room_def slot_event_def event_slot_def malloc_def)
      with st show False by (auto simp: aio_event_store_def)
    qed
    show ?thesis
    proof (cases "can_poll (kern r) fd")
      case True
      show ?thesis
        by (rule aio_event_store_fresh [OF inv fd room None un True ty, of "Some c" cb ob obname fname argc])
          (use st ok in \<open>auto simp: registry_ok_def\<close>)
    next
      case False
      show ?thesis
        by (rule aio_event_store_refused [OF inv fd room None False, of fdtype "Some c" cb events tm ob obname fname argv argc])
          (use st ok in \<open>auto simp: registry_ok_def\<close>)
    qed
  qed
qed

lemma registry_free:
  assumes ok: "registry_ok r" and fd: "fd_in_range fd" and fr: "aio_event_free (aio_event_fds r fd) r = Inr (x, r')"
  shows "registry_ok r'" and "unheld r p \<Longrightarrow> unheld r' p"
proof -
  have inv: "reg_inv r" using ok by (simp add: registry_ok_def)
  obtain r2 where r2: "aio_event_free (aio_event_fds r fd) r = Inr (C_OK, r2)" "reg_inv r2" "touch r r2 fd"
    "\<forall>v e. event_of r2 fd = Some (v, e) \<longrightarrow> arguments v = None \<and> timer v = None"
    "wf_heap (argvs r) \<longrightarrow> wf_heap (argvs r2)" "wf_heap (timers r) \<longrightarrow> wf_heap (timers r2)"
    by (rule aio_event_free_slot [OF inv fd])
  with fr have r': "r' = r2" by simp
  show "registry_ok r'" using r2 r' ok by (simp add: registry_ok_def)
  assume un: "unheld r p"
  show "unheld r' p"
    unfolding unheld_def
  proof (intro allI impI)
    fix g v e assume g: "fd_in_range g" "event_of r' g = Some (v, e)"
    show "arguments v \<noteq> Some p"
    proof (cases "g = fd")
      case True
      with g r2(4) r' show ?thesis by simp
    next
      case False
      with touch_event_of(1) [OF r2(3) _ False] reg_invD [OF inv g(1)] g r' un show ?thesis
        by (simp add: unheld_def)
    qed
  qed
qed

text \<open>A new timer, in its heap and in the kernel.\<close>

lemma registry_new_timer:
  assumes "registry_ok r" and "malloc its (timers r) = (p, h)"
  shows "registry_ok (r\<lparr>timers := h\<rparr>)" and "unowned (r\<lparr>timers := h\<rparr>) None p"
proof -
  have wf: "wf_heap (timers r)" "wf_heap h" using assms by (auto simp: registry_ok_def)
  have live: "cells (timers r) q \<noteq> None \<Longrightarrow> cells h q \<noteq> None" for q
    using assms(2) by (auto simp: malloc_def split: if_splits)
  show "registry_ok (r\<lparr>timers := h\<rparr>)"
    by (rule registry_around [OF assms(1)])
      (use assms(1) wf live registry_holds [OF assms(1)] in \<open>auto simp: registry_ok_def fewer_polled_refl\<close>)
  show "unowned (r\<lparr>timers := h\<rparr>) None p"
  proof (cases p)
    case None
    then show ?thesis by (simp add: unowned_def split: option.splits)
  next
    case (Some a)
    then have a: "a = fresh (timers r)" "cells h a \<noteq> None" using assms(2) by (auto simp: malloc_def split: if_splits)
    have "timer v \<noteq> Some a" if "fd_in_range g" "event_of r g = Some (v, e)" for g v e
      using registry_holds(2) [OF assms(1) that, of a] wf(1) a(1) by auto
    with Some a show ?thesis by (auto simp: unowned_def event_of_timers split: option.splits)
  qed
qed

lemma registry_set_timer:
  assumes "registry_ok r" and "unowned r None p" and "fewer_polled (kern r) k"
  shows "registry_ok (r\<lparr>kern := k\<rparr>) \<and> unowned (r\<lparr>kern := k\<rparr>) None p"
    and "p = Some a \<Longrightarrow> cells (timers r) a \<noteq> None \<Longrightarrow>
      registry_ok (r\<lparr>kern := k, timers := (timers r)\<lparr>cells := (cells (timers r))(a := Some its)\<rparr>\<rparr>)
      \<and> unowned (r\<lparr>kern := k, timers := (timers r)\<lparr>cells := (cells (timers r))(a := Some its)\<rparr>\<rparr>) None p"
proof -
  show "registry_ok (r\<lparr>kern := k\<rparr>) \<and> unowned (r\<lparr>kern := k\<rparr>) None p"
    using registry_kern [OF assms(1,3)] assms(2) by (auto simp: unowned_def event_of_kern split: option.splits)
  assume p: "p = Some a" "cells (timers r) a \<noteq> None"
  let ?r = "r\<lparr>kern := k, timers := (timers r)\<lparr>cells := (cells (timers r))(a := Some its)\<rparr>\<rparr>"
  have "registry_ok ?r"
    by (rule registry_around [OF assms(1)])
      (use assms p registry_holds [OF assms(1)] in \<open>auto simp: registry_ok_def wf_heap_def\<close>)
  then show "registry_ok ?r \<and> unowned ?r None p"
    using assms(2) p by (auto simp: unowned_def event_of_timers event_of_kern split: option.splits)
qed

subsection \<open>The methods on the registry\<close>

interpretation r0: code_invariant "\<lambda>w. registry_ok (rg w)"
  by unfold_locales simp

lemma safe_try: "(\<And>x. g w = Inr x \<Longrightarrow> r0.safe (f x w)) \<Longrightarrow> r0.safe (bind_c (try_c g) f w)"
  by (cases "g w") (simp_all add: run_c)

lemma wait_fd_safe:
  assumes ok: "registry_ok (rg w)" and un: "unowned (rg w) argv tm"
    and ty: "fdtype \<in> {FD_TYPE_ACCEPT, FD_TYPE_TIMMER, FD_TYPE_NORMAL}" "tm \<noteq> None \<longrightarrow> fdtype = FD_TYPE_TIMMER" "events \<noteq> 0"
  shows "r0.safe (wait_fd fd fdtype events tm ob obname fname argv argc rv w)"
proof (cases "aio_event_store fd fdtype (Some (fresh (ctxs w))) (Some 0) events tm ob obname fname argv argc (rg w)")
  case (Inl e)
  then show ?thesis by (simp add: wait_fd_def run_c emalloc_ctx_def emalloc_def rg_c_def)
next
  case (Inr rr)
  obtain ret r where rr: "rr = (ret, r)" by (cases rr)
  have r: "registry_ok r" using registry_store [OF ok un ty] Inr rr by simp
  have "r0.keeps (if ret < 0 then seq_c (efree_ctx ctx) (ret_c (ZBool False)) else seq_c (c_coro_save rv ctx) coro_yield)" for ctx
    by (intro r0.keeps_rules r0.context_code_keeps)
  then have "r0.safe ((if ret < 0 then seq_c (efree_ctx ctx) (ret_c (ZBool False)) else seq_c (c_coro_save rv ctx) coro_yield) w')"
    if "registry_ok (rg w')" for ctx and w' :: "'a world" using that by (rule r0.keepsD)
  with r Inr rr show ?thesis by (simp add: wait_fd_def bind_c_run emalloc_ctx_def emalloc_def rg_c_def)
qed

lemma get_arguments_safe:
  assumes ok: "registry_ok (rg w)"
    and k: "\<And>w' p. registry_ok (rg w') \<Longrightarrow> unowned (rg w') (Some p) None \<Longrightarrow> unheld (rg w') p \<Longrightarrow> r0.safe (m (Some p) w')"
  shows "r0.safe (bind_c (get_arguments eng args) (\<lambda>argv. case argv of None \<Rightarrow> ret_c (ZBool False) | Some a \<Rightarrow> m a) w)"
proof -
  obtain p h where ph: "emalloc args (argvs (rg w)) = (p, h)" by (metis surj_pair)
  note new = registry_new_argv [OF ok ph]
  have "registry_ok ((rg w)\<lparr>argvs := h'\<rparr>)" if "free_cell (Some p) h = Inr h'" for h'
    using registry_drop_argv [OF new(1,2)] that by simp
  then show ?thesis using new k [of "w\<lparr>rg := (rg w)\<lparr>argvs := h\<rparr>\<rparr>" p]
    by (auto simp: bind_c_run get_arguments_def ph Let_def ret_c_run split: sum.splits)
qed

lemma mask_nonzero: "EPOLLIN OR EPOLLRDHUP \<noteq> 0" "EPOLLIN \<noteq> 0" "EPOLLOUT \<noteq> 0"
  by simp_all

lemma waiting_methods_keep:
  "r0.keeps (socket_accept eng args rv)" "r0.keeps (socket_read eng args rv)" "r0.keeps (socket_write eng args rv)"
  "r0.keeps (co_pdo_prepare eng ob args rv)" "r0.keeps (co_pdo_statement_fetchAll eng ob args rv)"
  unfolding socket_accept_def socket_read_def socket_write_def co_pdo_prepare_def co_pdo_statement_fetchAll_def first_fd_def
  by (rule r0.keepsI, rule get_arguments_safe, assumption, rule safe_try,
      auto intro!: wait_fd_safe simp: ret_c_run simp del: r0.safe_def)+

lemma open_timer_safe:
  assumes ok: "registry_ok (rg w)" and un: "unowned (rg w) None tm"
    and k: "\<And>w' fd. registry_ok (rg w') \<Longrightarrow> unowned (rg w') None tm \<Longrightarrow> r0.safe (f fd w')"
  shows "r0.safe (bind_c (open_timer sys tm interval) f w)"
proof -
  obtain tfd z where t: "sys_timerfd_create sys (zend w) = (tfd, z)" by (metis surj_pair)
  define k1 where "k1 = (if tfd < 0 then kern (rg w) else (kern (rg w))\<lparr>can_poll := (can_poll (kern (rg w)))(tfd := True),
             interest := (interest (kern (rg w)))(tfd := None), fl_flags := (fl_flags (kern (rg w)))(tfd := Some 2)\<rparr>)"
  have few: "fewer_polled (kern (rg w)) k1" by (simp add: k1_def fewer_polled_def)
  note set = registry_set_timer [OF ok un few]
  obtain clock z1 where c: "(if tfd < 0 then (None, z) else sys_clock_gettime sys z) = (clock, z1)" by (metis surj_pair)
  show ?thesis
  proof (cases "tfd < 0 \<or> clock = None")
    case True
    then show ?thesis using t c set(1) k [of "w\<lparr>zend := z1, rg := (rg w)\<lparr>kern := k1\<rparr>\<rparr>"]
      by (auto simp: bind_c_run open_timer_def Let_def k1_def [symmetric])
  next
    case False
    show ?thesis
    proof (cases "bind_res (load tm (timers (rg w))) (\<lambda>its. create_timerfd tfd clock its interval)")
      case (Inl e)
      then show ?thesis using False t c by (auto simp: bind_c_run open_timer_def Let_def)
    next
      case (Inr fi)
      obtain fd its where fi: "fi = (fd, its)" by (cases fi)
      obtain a where a: "tm = Some a" "cells (timers (rg w)) a \<noteq> None" using Inr by (auto simp: load_Inr_iff)
      show ?thesis
        using Inr fi False t c set(2) [OF a] a
          k [of "w\<lparr>zend := z1, rg := (rg w)\<lparr>kern := k1, timers := (timers (rg w))\<lparr>cells := (cells (timers (rg w)))(a := Some its)\<rparr>\<rparr>\<rparr>"]
        by (auto simp: bind_c_run open_timer_def Let_def k1_def)
    qed
  qed
qed

lemma registry_sleep_keeps: "r0.keeps (sleep eng sys arg rv)"
proof (rule r0.keepsI)
  fix w :: "'a world" assume ok: "registry_ok (rg w)"
  obtain p h where ph: "malloc \<lparr>value_sec = 0, value_nsec = 0, interval_sec = 0, interval_nsec = 0\<rparr> (timers (rg w)) = (p, h)"
    by (metis surj_pair)
  note new = registry_new_timer [OF ok ph]
  have "r0.safe (bind_c (open_timer sys p n) (\<lambda>fd. wait_fd fd FD_TYPE_TIMMER EPOLLIN p None None None None 0 rv)
      (w\<lparr>rg := (rg w)\<lparr>timers := h\<rparr>\<rparr>))" for n
    by (rule open_timer_safe) (use new in \<open>auto intro!: wait_fd_safe simp del: r0.safe_def\<close>)
  with ok show "r0.safe (sleep eng sys arg rv w)"
    by (auto simp: sleep_def ret_c_run bind_c_run [of "\<lambda>w. _ w"] ph split: option.splits)
qed

lemma registry_lists: "registry_ok (r\<lparr>timeout_fd_link := l\<rparr>) = registry_ok r" "registry_ok (r\<lparr>elems := h\<rparr>) = registry_ok r"
proof -
  have "registry_ok r2" if "registry_ok r1" "aio_event_fds r2 = aio_event_fds r1" "evs r2 = evs r1" "eps r2 = eps r1"
      "epollfd r2 = epollfd r1" "kern r2 = kern r1" "argvs r2 = argvs r1" "timers r2 = timers r1" for r1 r2
    by (rule registry_around [OF that(1)])
      (use that registry_holds [OF that(1)] in \<open>auto simp: registry_ok_def fewer_polled_refl\<close>)
  note same = this
  show "registry_ok (r\<lparr>timeout_fd_link := l\<rparr>) = registry_ok r" "registry_ok (r\<lparr>elems := h\<rparr>) = registry_ok r"
    by (auto intro: same [of r] same [of "r\<lparr>timeout_fd_link := l\<rparr>"] same [of "r\<lparr>elems := h\<rparr>"])
qed

lemma r0_state: "(\<And>(w :: 'a world) x w'. registry_ok (rg w) \<Longrightarrow> m w = Ret x w' \<Longrightarrow> registry_ok (rg w')) \<Longrightarrow> calm m \<Longrightarrow> r0.keeps m"
proof (rule r0.keepsI)
  fix w :: "'a world" assume "\<And>(w :: 'a world) x w'. registry_ok (rg w) \<Longrightarrow> m w = Ret x w' \<Longrightarrow> registry_ok (rg w')" and "calm m" and "registry_ok (rg w)"
  then show "r0.safe (m w)" by (cases "m w") (auto simp: calm_def)
qed

lemma set_timeout_keeps: "r0.keeps (socket_set_timeout eng sys ob timeout persistent)"
proof -
  have 1: "r0.keeps (\<lambda>w. let (p, h) = malloc e (elems (rg w)) in Ret p (w\<lparr>rg := (rg w)\<lparr>elems := h\<rparr>\<rparr>))" for e
    by (rule r0_state) (auto simp: registry_lists calm_def split: prod.splits)
  have 2: "r0.keeps (try_upd (\<lambda>w. let (tv, z) = sys_gettimeofday sys (zend w) in
             bind_res (modify ele (\<lambda>_. \<lparr>te_fd = fd, te_timeout = n, te_last_time = get_current_time tv, te_persistent = b\<rparr>) (elems (rg w))) (\<lambda>h. Inr (w\<lparr>zend := z, rg := (rg w)\<lparr>elems := h\<rparr>\<rparr>))))" for ele fd n b
    by (rule r0_state) (auto simp: try_upd_def registry_lists calm_def case_prod_beta Let_def split: sum.splits)
  have 3: "r0.keeps (try_upd (\<lambda>w. bind_res (pushqueue d (timeout_fd_link (rg w))) (\<lambda>q. Inr (w\<lparr>rg := (rg w)\<lparr>timeout_fd_link := q\<rparr>\<rparr>))))" for d
    by (rule r0_state) (auto simp: try_upd_def registry_lists calm_def split: sum.splits)
  show ?thesis
    unfolding socket_set_timeout_def
    by (auto intro!: r0.keeps_bind r0.keeps_seq r0.keeps_pure 1 [unfolded Let_def] 2 [unfolded Let_def] 3 split: option.splits prod.splits)
qed

lemma call_keeps:
  assumes "polite eng sys" and "registry_ok (rg w)" and "call_user_function eng ob f args (kern (rg w)) z = (v, k, z')"
  shows "registry_ok ((rg w)\<lparr>kern := k\<rparr>)"
proof (rule registry_kern [OF assms(2)])
  have "fewer_polled (kern (rg w)) (fst (snd (call_user_function eng ob f args (kern (rg w)) z)))"
    using assms(1) by (simp add: polite_def)
  with assms(3) show "fewer_polled (kern (rg w)) k" by simp
qed

lemma registry_close_keeps:
  assumes pol: "polite eng sys"
  shows "r0.keeps (socket_close eng args)"
  unfolding socket_close_def first_fd_def
proof (rule r0.keepsI, rule get_arguments_safe, assumption, rule safe_try)
  fix w :: "'a world" and p fd
  assume ok: "registry_ok (rg w)" and un: "unheld (rg w) p"
  obtain v k z where c: "call_user_function eng None ''socket_close'' args (kern (rg w)) (zend w) = (v, k, z)" by (metis prod_cases3)
  let ?r = "(rg w)\<lparr>kern := k\<rparr>" and ?w = "w\<lparr>zend := z, rg := (rg w)\<lparr>kern := k\<rparr>\<rparr>"
  have r: "registry_ok ?r" "unheld ?r p" using call_keeps [OF pol ok c] un by (simp_all add: unheld_def event_of_kern)
  have "r0.safe (bind_c (try_c (\<lambda>w. event_slot fd (rg w))) (\<lambda>ev. bind_c (rg_c (aio_event_free ev)) (\<lambda>_.
         seq_c (try_upd (\<lambda>w. bind_res (free_cell (Some p) (argvs (rg w))) (\<lambda>h. Inr (w\<lparr>rg := (rg w)\<lparr>argvs := h\<rparr>\<rparr>))))
         (ret_c v))) ?w)"
  proof (rule safe_try)
    fix ev assume "event_slot fd (rg ?w) = Inr ev"
    then have ev: "fd_in_range fd" "ev = aio_event_fds ?r fd" by (auto simp: event_slot_def split: if_splits)
    show "r0.safe (bind_c (rg_c (aio_event_free ev)) (\<lambda>_.
         seq_c (try_upd (\<lambda>w. bind_res (free_cell (Some p) (argvs (rg w))) (\<lambda>h. Inr (w\<lparr>rg := (rg w)\<lparr>argvs := h\<rparr>\<rparr>))))
         (ret_c v)) ?w)"
    proof (cases "aio_event_free ev ?r")
      case (Inl e)
      then show ?thesis by (simp add: bind_c_run rg_c_def)
    next
      case (Inr xr)
      obtain x r' where xr: "xr = (x, r')" by (cases xr)
      note fr = registry_free [OF r(1) ev(1), of x r'] Inr xr ev(2)
      have "registry_ok (r'\<lparr>argvs := h\<rparr>)" if "free_cell (Some p) (argvs r') = Inr h" for h
        using registry_drop_argv [OF _ _ that] fr r(2) by simp
      then show ?thesis using Inr xr
        by (auto simp: run_c rg_c_def try_upd_def split: sum.splits)
    qed
  qed
  with c show "r0.safe (bind_c (\<lambda>w. let (v, k, z) = call_user_function eng None ''socket_close'' args (kern (rg w)) (zend w)
                 in Ret v (w\<lparr>zend := z, rg := (rg w)\<lparr>kern := k\<rparr>\<rparr>)) (\<lambda>v.
         bind_c (try_c (\<lambda>w. event_slot fd (rg w))) (\<lambda>ev.
         bind_c (rg_c (aio_event_free ev)) (\<lambda>_.
         seq_c (try_upd (\<lambda>w. bind_res (free_cell (Some p) (argvs (rg w))) (\<lambda>h. Inr (w\<lparr>rg := (rg w)\<lparr>argvs := h\<rparr>\<rparr>))))
         (ret_c v)))) w)"
    by (subst bind_c_run) simp
qed

lemma registry_construct_keeps:
  assumes pol: "polite eng sys"
  shows "r0.keeps (co_pdo_construct eng create put args)"
  unfolding co_pdo_construct_def
proof (rule r0.keepsI, rule get_arguments_safe, assumption)
  fix w :: "'a world" and p
  assume ok: "registry_ok (rg w)" and un: "unheld (rg w) p"
  obtain pdo z0 where n: "create (zend w) = (pdo, z0)" by (metis surj_pair)
  obtain v k z where c: "call_user_function eng (Some pdo) ''__construct'' args (kern (rg w)) z0 = (v, k, z)" by (metis prod_cases3)
  have r: "registry_ok ((rg w)\<lparr>kern := k\<rparr>)" "unheld ((rg w)\<lparr>kern := k\<rparr>) p"
    using call_keeps [OF pol ok c] un by (simp_all add: unheld_def event_of_kern)
  have "registry_ok ((rg w)\<lparr>kern := k, argvs := h\<rparr>)" if "free_cell (Some p) (argvs (rg w)) = Inr h" for h
    using registry_drop_argv [OF r, of h] that by simp
  then show "r0.safe (bind_c (\<lambda>w. let (pdo, z) = create (zend w) in Ret pdo (w\<lparr>zend := z\<rparr>)) (\<lambda>pdo.
         bind_c (\<lambda>w. let (v, k, z) = call_user_function eng (Some pdo) ''__construct'' args (kern (rg w)) (zend w)
                 in Ret v (w\<lparr>zend := z, rg := (rg w)\<lparr>kern := k\<rparr>\<rparr>)) (\<lambda>v.
         seq_c (try_upd (\<lambda>w. bind_res (free_cell (Some p) (argvs (rg w))) (\<lambda>h. Inr (w\<lparr>rg := (rg w)\<lparr>argvs := h\<rparr>\<rparr>))))
         (seq_c (upd_c (\<lambda>w. w\<lparr>zend := zval_ptr_dtor eng v (zend w)\<rparr>))
         (seq_c (upd_c (\<lambda>w. w\<lparr>zend := put pdo (zend w)\<rparr>))
         (ret_c ZNull))))) w)"
    using n c by (auto simp: run_c try_upd_def split: sum.splits)
qed

text \<open>\<open>coro_init\<close> starts from an empty registry.\<close>

definition registry_heaps :: "react \<Rightarrow> bool" where
  "registry_heaps r \<longleftrightarrow> wf_heap (evs r) \<and> wf_heap (eps r) \<and> wf_heap (argvs r) \<and> wf_heap (timers r)"

lemma coro_init_registry:
  assumes "polite eng sys" and "registry_heaps (rg w)" and "coro_init sys w = Ret u w'"
  shows "registry_ok (rg w')"
proof -
  obtain fd z where e: "sys_epoll_create sys (zend w) = (fd, z)" by (metis surj_pair)
  have "fd \<noteq> -1" using assms(1) e by (metis fst_conv polite_def)
  moreover have "event_of r g = None" if "aio_event_fds r = (\<lambda>_. None)" for r g using that by simp
  ultimately show ?thesis using assms(2,3) e
    by (auto simp: coro_init_def run_c registry_ok_def registry_heaps_def reg_inv_def slot_ok_def owns_def shares_def Let_def
        split: prod.splits)
qed

lemma registry_init_keeps: "polite eng sys \<Longrightarrow> r0.keeps (coro_init sys)"
proof (rule r0_state)
  fix w w' :: "'a world" and x assume "polite eng sys" "registry_ok (rg w)" "coro_init sys w = Ret x w'"
  then show "registry_ok (rg w')" by (intro coro_init_registry) (auto simp: registry_heaps_def registry_ok_def reg_inv_def)
qed (auto simp: coro_init_def intro!: calm_intros)

text \<open>The event handler: the call, which leaves the events alone, then the release of the event, then
  the coroutine.\<close>

lemma event_call_registry:
  assumes "polite eng sys" and "registry_ok (rg w)" and "event_call eng v ob f w = Ret x w'"
  shows "registry_ok (rg w') \<and> aio_event_fds (rg w') = aio_event_fds (rg w)"
  using assms call_keeps [OF assms(1,2)]
  by (auto simp: event_call_def run_c bind_o_Ret_iff try_c_def split: sum.splits prod.splits)

lemma delayed_call_registry:
  assumes "polite eng sys" and "registry_ok (rg w)" and "delayed_call eng wrap v w = Ret x w'"
  shows "registry_ok (rg w') \<and> aio_event_fds (rg w') = aio_event_fds (rg w)"
proof -
  note call = event_call_registry [OF assms(1,2)]
  from assms(3) consider (pure) "w' = w" | (call) ob f where "event_call eng v ob f w = Ret x w'"
    | (wrapped) ob f st w1 z where "event_call eng v ob f w = Ret st w1" "w' = w1\<lparr>zend := z\<rparr>"
    by (auto simp: delayed_call_def run_c bind_o_Ret_iff Let_def case_prod_beta split: option.splits if_splits)
  then show ?thesis using assms(2) by cases (auto dest: call)
qed

lemma safe_state:
  assumes "calm m" and "\<And>x w'. m w = Ret x w' \<Longrightarrow> r0.safe (f x w')"
  shows "r0.safe (bind_c m f w)"
  using assms by (cases "m w") (auto simp: bind_c_run calm_def)

lemma calm_delayed: "calm (delayed_call eng wrap v)"
proof -
  have "calm (\<lambda>w. Fault e)" for e by (simp add: calm_def)
  moreover have "calm (event_call eng v ob f)" for ob f
    unfolding event_call_def by (intro calm_intros) (simp add: calm_def split: prod.splits)
  moreover have "calm (\<lambda>w. let (r, z) = wrap st (zend w) in Ret r (w\<lparr>zend := z\<rparr>))" for st
    by (simp add: calm_def split: prod.splits)
  ultimately show ?thesis
    by (auto simp: delayed_call_def intro!: calm_intros split: option.splits)
qed

lemma registry_invoke_keeps:
  assumes pol: "polite eng sys" and ex: "\<And>f. r0.keeps (ex f)"
  shows "r0.keeps (invoke_fd eng wrap ex fd)"
  unfolding invoke_fd_def
proof (rule r0.keepsI, rule safe_try)
  fix w :: "'a world" and ev
  assume ok: "registry_ok (rg w)" and "event_slot fd (rg w) = Inr ev"
  then have ev: "fd_in_range fd" "ev = aio_event_fds (rg w) fd" by (auto simp: event_slot_def split: if_splits)
  have rest: "r0.keeps (seq_c (if ctx = None then ret_c () else bind_c (c_coro_resume eng ex ctx (Some result)) (\<lambda>_. efree_ctx ctx))
        (bind_c (try_c (\<lambda>w. load ev (evs (rg w)))) (\<lambda>v1.
         if function_name v1 \<noteq> None then upd_c (\<lambda>w. w\<lparr>zend := zval_ptr_dtor eng result (zend w)\<rparr>) else ret_c ())))" for ctx result
    by (intro r0.keeps_rules r0.context_code_keeps r0.c_coro_resume_keeps ex) simp
  have free: "r0.safe (bind_c (rg_c (aio_event_free ev)) (\<lambda>_. m) w')"
    if "registry_ok (rg w')" "aio_event_fds (rg w') = aio_event_fds (rg w)" "r0.keeps m" for m :: "('a, unit) code" and w'
    by (rule safe_state) (use that ev registry_free(1) [OF that(1) ev(1)] in
        \<open>auto simp: rg_c_def calm_basic intro: r0.keepsD split: sum.splits\<close>)
  show "r0.safe (aio_invoke eng wrap ex ev w)"
  proof (cases ev)
    case None
    with ok show ?thesis by (simp add: aio_invoke_def ret_c_run)
  next
    case (Some a)
    then have ne: "ev \<noteq> None" by simp
    show ?thesis unfolding aio_invoke_def if_not_P [OF ne]
    proof (intro safe_try safe_state [OF calm_delayed] free rest)
      fix v result and w' :: "'a world" assume "delayed_call eng wrap v w = Ret result w'"
      from delayed_call_registry [OF pol ok this]
      show "registry_ok (rg w')" "aio_event_fds (rg w') = aio_event_fds (rg w)" by simp_all
    qed
  qed
qed

section \<open>The invariant of the system\<close>

definition registry_inv :: "'z engine \<Rightarrow> 'z system \<Rightarrow> 'z world \<Rightarrow> bool" where
  "registry_inv eng sys w \<longleftrightarrow> (polite eng sys \<longrightarrow> registry_ok (rg w))"

interpretation rc: code_invariant "registry_inv eng sys" for eng sys
  by unfold_locales (simp add: registry_inv_def)

lemma rc_safe: "rc.safe eng sys out \<longleftrightarrow> (polite eng sys \<longrightarrow> r0.safe out)"
  by (cases out) (simp_all only: rc.safe_simps r0.safe_simps registry_inv_def simp_thms)

lemma rc_keeps: "rc.keeps eng sys m \<longleftrightarrow> (polite eng sys \<longrightarrow> r0.keeps m)"
  unfolding rc.keeps_def r0.keeps_def rc_safe registry_inv_def by blast

interpretation ri: system_invariant "registry_inv eng sys" eng sys wrap for eng sys wrap
proof unfold_locales
  show "rc.keeps eng sys (invoke_fd eng wrap ex fd)" if "\<And>f. rc.keeps eng sys (ex f)" for ex fd
    using that registry_invoke_keeps unfolding rc_keeps by blast
qed (simp_all add: rc_keeps registry_init_keeps waiting_methods_keep registry_sleep_keeps set_timeout_keeps registry_close_keeps
    registry_construct_keeps registry_inv_def registry_lists)

section \<open>Properties\<close>

text \<open>
  The states of a request from its initialisation on: the script and the event handlers it sets up
  call what the tables of the extension list, and the engine computes in between.
\<close>

inductive session :: "'z engine \<Rightarrow> 'z system \<Rightarrow> 'z pdo_host \<Rightarrow> 'z script \<Rightarrow> 'z world \<Rightarrow> bool"
  for eng sys host scr where
  init: "registry_heaps (rg w) \<Longrightarrow> coro_init sys w = Ret u w' \<Longrightarrow> session eng sys host scr w'"
| call: "session eng sys host scr w \<Longrightarrow> request_api eng sys host (run_request eng sys host scr n) k c rv w = Ret v w'
    \<Longrightarrow> session eng sys host scr w'"
| engine: "session eng sys host scr w \<Longrightarrow> session eng sys host scr (w\<lparr>eg := e, zend := z\<rparr>)"

text \<open>C2: in every state a request can reach from its initialisation on, whatever the PHP code of the
  script and of the coroutines does, calls of \<open>event_loop\<close> inside coroutines included, and whatever the
  event loop is told, the registry is consistent: every slot is empty and not polled, or holds a live
  event of its own descriptor, idle and not polled, or armed, with a waiting context, and polled for
  its own mask or closed by the process; the argument arrays and timers the events hold are live and no
  two events share one. It relies on \<open>epoll_create\<close> succeeding and on engine calls adding nothing to
  the extension's epoll instance (\<open>polite\<close>).\<close>

theorem session_registry_consistent:
  assumes "polite eng sys" and "session eng sys host scr w"
  shows "registry_ok (rg w)"
  using assms(2)
proof (induction rule: session.induct)
  case (init w u w')
  with assms(1) show ?case by (intro coro_init_registry)
next
  case (call w n k c rv v w')
  have "rc.safe eng sys (request_api eng sys host (run_request eng sys host scr n) k c rv w)"
    by (rule rc.keepsD [OF ri.request_api_keeps [OF ri.run_request_keeps [OF refl] refl]])
      (use call.IH in \<open>simp add: registry_inv_def\<close>)
  with call.hyps(2) assms(1) show ?case by (simp add: registry_inv_def)
next
  case (engine w e z)
  then show ?case by simp
qed

lemma demo_polite: "polite (demo_engine functions uses) (demo_system tfd)"
  by (simp add: polite_def demo_defs fewer_polled_refl)

lemma demo_init: "coro_init (demo_system tfd) (demo_world main) = Ret () (demo_ready main)"
  by (simp add: coro_init_def run_c demo_defs reg_none_def emalloc_def DEFAULT_MAX_CORO_NUM_def DEFAULT_STACK_SIZE_def)

lemma demo_session: "session (demo_engine functions uses) (demo_system tfd) host scr (demo_ready main)"
  by (rule session.init [OF _ demo_init]) (simp add: registry_heaps_def demo_world_def reg_none_def empty_heap_def wf_heap_def)

lemma demo_loop_returns:
  "\<exists>z. event_loop (demo_engine (\<lambda>_. []) False) (demo_system 9) wrap ex k (demo_ready []) = Ret ZNull ((demo_ready [])\<lparr>zend := z\<rparr>)"
proof -
  have "\<exists>z. event_rounds (demo_engine (\<lambda>_. []) False) (demo_system 9) wrap ex k 1000 (demo_ready []) = Ret () ((demo_ready [])\<lparr>zend := z\<rparr>)"
    by (rule idle_rounds) (simp_all add: demo_defs reg_none_def)
  then show ?thesis by (auto simp: event_loop_def seq_c_run ret_c_run)
qed

theorem session_registry_consistent_witness:
  "\<exists>w. event_loop (demo_engine (\<lambda>_. []) False) (demo_system 9) Pair
      (run_request (demo_engine (\<lambda>_. []) False) (demo_system 9) demo_host demo_script 1) 7 (demo_ready []) = Ret ZNull w
    \<and> registry_ok (rg w)"
proof -
  obtain w where w: "event_loop (demo_engine (\<lambda>_. []) False) (demo_system 9) Pair
      (run_request (demo_engine (\<lambda>_. []) False) (demo_system 9) demo_host demo_script 1) 7 (demo_ready []) = Ret ZNull w"
    using demo_loop_returns by blast
  have "session (demo_engine (\<lambda>_. []) False) (demo_system 9) demo_host demo_script w"
    by (rule session.call [OF demo_session [where main = "[]"], where c = EventLoop and n = 1 and k = 7 and rv = None and v = ZNull])
      (use w in \<open>simp add: request_api_def demo_host_def\<close>)
  from session_registry_consistent [OF demo_polite this] w show ?thesis by blast
qed

end
