(* ===== verification/Tasks.thy ===== *)
theory Tasks
  imports Lifecycle Contracts
begin

text \<open>
  Which coroutine is closed when a coroutine ends. The task record of a coroutine keeps its id as
  long as its page is live, and PHP code that returns leaves the same coroutine current, whatever
  it created, resumed and waited for in between. So the coroutine that \<open>coro_close\<close> closes after
  \<open>zend_execute_ex\<close> is the one that was started or resumed.
\<close>

section \<open>Task records\<close>

text \<open>
  \<open>tasks_kept w w'\<close>: a page that is dead stays dead, and a live page is dead later or holds, at each
  offset it held a task at, a task of the same id.
\<close>

definition page_kept :: "vm_page option \<Rightarrow> vm_page option \<Rightarrow> bool" where
  "page_kept p p' \<longleftrightarrow> p' = None \<or> (\<exists>pg pg'. p = Some pg \<and> p' = Some pg' \<and> pg_size pg' = pg_size pg
     \<and> (\<forall>off t. pg_task pg off = Some t \<longrightarrow> (\<exists>t'. pg_task pg' off = Some t' \<and> cid t' = cid t)))"

definition tasks_kept :: "'z world \<Rightarrow> 'z world \<Rightarrow> bool" where
  "tasks_kept w w' \<longleftrightarrow> fresh (vm_pages w) \<le> fresh (vm_pages w')
     \<and> (\<forall>a < fresh (vm_pages w). page_kept (cells (vm_pages w) a) (cells (vm_pages w') a))"

lemma page_kept_refl [simp]: "page_kept p p"
  by (cases p) (simp_all add: page_kept_def)

lemma page_kept_dead [simp]: "page_kept p None"
  by (simp add: page_kept_def)

lemma page_kept_trans: "page_kept p p1 \<Longrightarrow> page_kept p1 p2 \<Longrightarrow> page_kept p p2"
  unfolding page_kept_def by (elim disjE exE conjE) (auto, metis)

lemma tasks_kept_refl [simp]: "tasks_kept w w"
  by (simp add: tasks_kept_def)

lemma tasks_kept_trans: "tasks_kept w w1 \<Longrightarrow> tasks_kept w1 w2 \<Longrightarrow> tasks_kept w w2"
  unfolding tasks_kept_def by (meson order_less_le_trans order_trans page_kept_trans)

lemma tasks_kept_frame: "tasks_kept w w1 \<Longrightarrow> vm_pages w2 = vm_pages w1 \<Longrightarrow> tasks_kept w w2"
  by (simp add: tasks_kept_def)

lemma tasks_kept_pages: "vm_pages w' = vm_pages w \<Longrightarrow> tasks_kept w w'"
  by (simp add: tasks_kept_def)

lemma tasks_kept_upd:
  "vm_pages w' = (vm_pages w)\<lparr>cells := (cells (vm_pages w))(a := p)\<rparr> \<Longrightarrow> page_kept (cells (vm_pages w) a) p \<Longrightarrow> tasks_kept w w'"
  by (simp add: tasks_kept_def)

abbreviation keeps_tasks :: "'z world \<Rightarrow> ('z, 'a) code \<Rightarrow> bool" where
  "keeps_tasks w0 m \<equiv> contract (tasks_kept w0) m (tasks_kept w0) (tasks_kept w0)"

text \<open>The waiting methods do not touch the stack pages.\<close>

interpretation tk: quiet_contract "tasks_kept w0" "tasks_kept w0" for w0
  by unfold_locales (auto simp: c_coro_save_def try_upd_def saved_def main_stack_def elim: tasks_kept_frame split: sum.splits)

lemma keeps_tasks_upd: "(\<And>w. vm_pages (f w) = vm_pages w) \<Longrightarrow> keeps_tasks w0 (upd_c f)"
  by (rule contract_upd) (erule tasks_kept_frame)

lemma keeps_tasks_try: "(\<And>w w'. f w = Inr w' \<Longrightarrow> vm_pages w' = vm_pages w) \<Longrightarrow> keeps_tasks w0 (try_upd f)"
  by (rule contract_try_upd) (erule tasks_kept_frame)

lemma keeps_tasks_calm: "(\<And>w x w'. m w = Ret x w' \<Longrightarrow> tasks_kept w w') \<Longrightarrow> calm m \<Longrightarrow> keeps_tasks w0 m"
  by (rule contract_calm) (blast intro: tasks_kept_trans)

lemma keeps_tasks_setjmp: "keeps_tasks w0 m \<Longrightarrow> keeps_tasks w0 k \<Longrightarrow> keeps_tasks w0 (setjmp_c m k)"
  by (rule contract_setjmp) (auto elim: tasks_kept_frame)

lemmas task_rules = keep_rules(1-7) keeps_tasks_setjmp keeps_tasks_upd keeps_tasks_try tk.context_met tk.save_met

text \<open>Writing back a loaded task with its id unchanged.\<close>

lemma store_task_kept:
  assumes "load_task q w = Inr t" and "vm_pages w1 = vm_pages w" and "cid t' = cid t" and "store_task q t' w1 = Inr w'"
  shows "tasks_kept w w'"
proof -
  obtain a off pg where q: "q = Some (a, off)" "cells (vm_pages w) a = Some pg" "task_cell q w = Inr (a, off, pg)" "pg_task pg off = Some t"
    using assms(1) by (rule load_task_SomeE)
  have "task_cell q w1 = task_cell q w" using assms(2) q(1) by (simp add: task_cell_def)
  with assms(2,4) q(3) have "vm_pages w' = (vm_pages w)\<lparr>cells := (cells (vm_pages w))(a := Some (pg\<lparr>pg_task := (pg_task pg)(off := Some t')\<rparr>))\<rparr>"
    by (auto simp: store_task_def)
  then show ?thesis by (rule tasks_kept_upd) (use q(2,4) assms(3) in \<open>auto simp: page_kept_def\<close>)
qed

lemma efree_zval_pages: "efree_zval eng d p w = Inr w' \<Longrightarrow> vm_pages w' = vm_pages w"
  by (auto simp: efree_zval_def)

lemma keep_callback_tasks: "keeps_tasks w0 (keep_callback eng cb)"
  by (rule keeps_tasks_calm [OF _ keep_callback_calm])
    (auto simp: keep_callback_def try_upd_def c_zval_free_def dest: efree_zval_pages split: sum.splits if_splits
      intro: store_task_kept [OF _ refl, where t' = "t\<lparr>task_function := cb\<rparr>" for t] tasks_kept_pages)

lemma coro_closeE:
  assumes "coro_close eng w = Ret () w'"
  obtains t w1 where "load_task (current_coro (corog w)) w = Inr t"
    and "coro_drop eng t w = Ret () w1"
    and "coro_release eng (cid t) w1 = Ret () w'"
  using assms by (auto simp: coro_close_def bind_c_run seq_c_run bind_o_Ret_iff try_c_def split: sum.splits)

lemma coro_release_tasks: "keeps_tasks w0 (coro_release eng c)"
proof -
  have page: "keeps_tasks w0 (try_upd (\<lambda>w. bind_res (free_cell (vm_stack (eg w)) (vm_pages w)) (\<lambda>h. Inr (w\<lparr>vm_pages := h\<rparr>))))"
    by (rule keeps_tasks_calm)
      (auto simp: try_upd_def calm_def free_cell_def tasks_kept_def split: sum.splits option.splits)
  show ?thesis
    unfolding coro_release_def by (intro page task_rules) (auto dest: efree_zval_pages)
qed

lemma coro_drop_tasks:
  assumes "load_task (current_coro (corog w)) w = Inr t" and "coro_drop eng t w = Ret () w'"
  shows "tasks_kept w w'"
proof (cases "task_function t")
  case None
  with assms(2) show ?thesis by (simp add: coro_drop_def ret_c_run)
next
  case (Some g)
  with assms(2) obtain w1 where "c_zval_free eng (task_function t) w = Inr w1"
    "store_task (current_coro (corog w)) (t\<lparr>task_function := None\<rparr>) w1 = Inr w'"
    by (auto simp: coro_drop_def try_upd_def split: sum.splits)
  then show ?thesis by (intro store_task_kept [OF assms(1)]) (auto simp: c_zval_free_def dest: efree_zval_pages)
qed

lemma coro_drop_calm [calm_intros]: "calm (coro_drop eng t)"
  unfolding coro_drop_def by (simp add: calm_basic)

lemma coro_close_calm [calm_intros]: "calm (coro_close eng)"
  unfolding coro_close_def coro_release_def by (intro calm_intros)

lemma coro_close_tasks: "keeps_tasks w0 (coro_close eng)"
proof (rule keeps_tasks_calm [OF _ coro_close_calm])
  fix w w' :: "'a world" and u
  assume "coro_close eng w = Ret u w'"
  then have "coro_close eng w = Ret () w'" by simp
  then obtain t w1 where t: "load_task (current_coro (corog w)) w = Inr t" "coro_drop eng t w = Ret () w1"
    and rest: "coro_release eng (cid t) w1 = Ret () w'" by (rule coro_closeE)
  from contract_Ret [OF coro_release_tasks coro_drop_tasks [OF t] rest] show "tasks_kept w w'" .
qed

lemma coro_enter_tasks: "keeps_tasks w0 (coro_enter eng sys fci argv post params c)"
proof (rule keeps_tasks_calm [OF _ coro_enter_calm])
  fix w :: "'a world" and call w'
  assume "coro_enter eng sys fci argv post params c w = Ret call w'"
  then show "tasks_kept w w'"
    by (auto simp: coro_enter_def run_c c_vm_stack_init_def emalloc_def Let_def store_task_def task_cell_def page_layout
      try_upd_def tasks_kept_def split: prod.splits if_splits)
qed

lemma coro_reenter_tasks: "keeps_tasks w0 (coro_reenter eng ctx retval)"
  unfolding coro_reenter_def load_ctx_def
  by (intro task_rules) (auto simp: Let_def calm_def split: prod.splits option.splits if_splits
      intro!: keeps_tasks_calm tasks_kept_pages)

lemma coro_run_tasks: "(\<And>f. keeps_tasks w0 (ex f)) \<Longrightarrow> keeps_tasks w0 (coro_run eng ex f)"
  unfolding coro_run_def by (intro task_rules coro_close_tasks) simp_all

lemma resume_parent_tasks: "keeps_tasks w0 (c_coro_resume_parent ctx)"
  unfolding c_coro_resume_parent_def by (intro task_rules) simp_all

lemma checkpoint_tasks: "keeps_tasks w0 push_checkpoint" "keeps_tasks w0 efree_checkpoint"
  by (rule keeps_tasks_calm; auto simp: calm_def emalloc_def push_checkpoint_def efree_checkpoint_def try_upd_def Let_def
      tasks_kept_def split: sum.splits)+

lemma create_tasks:
  assumes "\<And>f. keeps_tasks w0 (ex f)"
  shows "keeps_tasks w0 (coroutine_create eng sys ex func rv)"
proof -
  have "keeps_tasks w0 (\<lambda>w. case alloc_cidmap (cids w) of Inl e \<Rightarrow> Fault e | Inr (c, m) \<Rightarrow> Ret c (w\<lparr>cids := m\<rparr>))"
    by (rule keeps_tasks_calm) (auto simp: calm_def tasks_kept_def split: sum.splits prod.splits)
  then have create: "keeps_tasks w0 (c_coro_create eng sys ex fci argv post params)" for fci argv post params
    unfolding c_coro_create_def by (intro task_rules coro_enter_tasks coro_run_tasks assms)
  have "keeps_tasks w0 (coro_init sys)"
    unfolding coro_init_def by (intro task_rules) (auto simp: Let_def split: prod.splits)
  then have init: "keeps_tasks w0 (\<lambda>w. if checkPoint w = None then coro_init sys w else Ret () w)"
    by (simp add: contract_def)
  have "keeps_tasks w0 (\<lambda>w. let (p, h) = emalloc 0 (fcaches w) in Ret (Some p) (w\<lparr>fcaches := h\<rparr>))"
    by (rule keeps_tasks_calm) (auto simp: calm_def emalloc_def tasks_kept_def)
  with create init show ?thesis
    unfolding coroutine_create_def create_finish_def
    by (intro task_rules checkpoint_tasks resume_parent_tasks keep_callback_tasks) (auto split: if_splits)
qed

lemma resume_tasks:
  assumes "\<And>f. keeps_tasks w0 (ex f)"
  shows "keeps_tasks w0 (resume eng ex arg rv)"
proof -
  have "keeps_tasks w0 (\<lambda>w. if s = CORO_END \<and> exception (eg w)
       then (case retval of None \<Rightarrow> Fault NullDeref | Some z \<Rightarrow> Fault ProcessExit) else Ret s w)" for s and retval :: "zval option"
    by (rule contractI) (simp split: option.splits)
  then have run: "keeps_tasks w0 (c_coro_resume eng ex ctx retval)" for ctx retval
    unfolding c_coro_resume_def by (intro task_rules coro_reenter_tasks coro_run_tasks assms)
  show ?thesis
    unfolding resume_def resume_finish_def
    by (intro run task_rules checkpoint_tasks resume_parent_tasks) simp_all
qed

text \<open>PHP code keeps the task records of everybody.\<close>

lemma exec_tasks: "keeps_tasks w0 (exec eng sys prog n f)"
proof (rule contract_exec)
  show "keeps_tasks w0 (api eng sys ex c rv)" if "\<And>f. keeps_tasks w0 (ex f)" for ex c rv
    using that unfolding api_def by (cases c) (simp_all add: create_tasks resume_tasks tk.methods_met)
qed (simp_all add: tasks_kept_def)

section \<open>The current coroutine\<close>

text \<open>The methods that wait leave \<open>COROG\<close> alone.\<close>

interpretation cg: quiet_contract "\<lambda>w. corog w = g" "\<lambda>w. corog w = g" for g
  by unfold_locales (auto simp: c_coro_save_def try_upd_def saved_def main_stack_def split: sum.splits)

definition same_coro :: "'z world \<Rightarrow> 'z world \<Rightarrow> bool" where
  "same_coro w w' \<longleftrightarrow> current_coro (corog w') = current_coro (corog w)
     \<and> allocated_return_value_ptr (corog w') = allocated_return_value_ptr (corog w)"

abbreviation keeps_corog :: "coro_global \<Rightarrow> ('z, 'a) code \<Rightarrow> bool" where
  "keeps_corog g m \<equiv> contract (\<lambda>w. corog w = g) m (\<lambda>w. corog w = g) (\<lambda>w. corog w = g)"

lemma same_coro_corog: "keeps_corog (corog w) m \<Longrightarrow> m w = Ret v w' \<Longrightarrow> same_coro w w'"
  by (drule contract_Ret [OF _ refl], assumption) (simp add: same_coro_def)

lemma same_coro_restores: "transparent u w out \<Longrightarrow> out = Ret v w' \<Longrightarrow> same_coro w w'"
  by (simp add: transparent_def restores_def same_coro_def)

lemma resume_same_coro:
  assumes "\<And>f. disciplined (ex f)" and "ok w" and "resume eng ex arg rv w = Ret v w'"
  shows "same_coro w w'"
proof (cases "parse_long eng arg")
  case None
  with assms(3) show ?thesis by (simp add: resume_def run_c same_coro_def)
next
  case (Some n)
  have p: "parked_ok w" using assms(2) by (simp add: ok_def parked_ok_def)
  have range: "cid_in_range (to_cint n)" using assms(3) Some by (auto simp: resume_def run_c try_c_def split: if_splits)
  show ?thesis
  proof (cases "cid_context_map w (to_cint n)")
    case None
    with assms(3) Some range show ?thesis by (simp add: resume_def run_c same_coro_def)
  next
    case (Some a)
    from same_coro_restores [OF resume_is_transparent [OF assms(1) p \<open>parse_long eng arg = Some n\<close> range Some] assms(3)]
    show ?thesis .
  qed
qed

lemma api_same_coro:
  assumes "\<And>f. disciplined (ex f)" and "ok w" and "api eng sys ex c rv w = Ret v w'"
  shows "same_coro w w'"
proof -
  have other: "keeps_corog (corog w) (api eng sys ex c rv)" if "\<forall>func. c \<noteq> Create func" and "\<forall>z. c \<noteq> Resume z"
    using that by (cases c) (simp_all add: api_def cg.methods_met)
  consider func where "c = Create func" | z where "c = Resume z" | "\<forall>func. c \<noteq> Create func" "\<forall>z. c \<noteq> Resume z" by blast
  then show ?thesis
  proof cases
    case 1
    with assms(3) same_coro_restores [OF coroutine_create_is_transparent [OF assms(1,2)]] show ?thesis by (simp add: api_def)
  next
    case 2
    with assms(3) resume_same_coro [OF assms(1,2)] show ?thesis by (simp add: api_def)
  next
    case 3
    with same_coro_corog [OF other assms(3)] show ?thesis by blast
  qed
qed

lemma exec_same_coro:
  assumes "ok w" and "exec eng sys prog n f w = Ret () w'"
  shows "same_coro w w'"
  using assms
proof (induction n arbitrary: f w)
  case (Suc n)
  obtain c e z where nc: "next_call prog f (eg w) (zend w) = (c, e, z)" by (metis prod_cases3)
  let ?w = "w\<lparr>eg := e, zend := z\<rparr>"
  have ok1: "ok ?w" using Suc.prems(1) by (rule fr_ok [rotated]) (rule fr_other [of _ _ None], simp_all)
  show ?case
  proof (cases c)
    case None
    with Suc.prems(2) nc show ?thesis by (auto simp: same_coro_def)
  next
    case (Some cr)
    obtain call rv where cr: "cr = (call, rv)" by (cases cr)
    from Suc.prems(2) nc Some cr obtain v w2 where w2: "api eng sys (exec eng sys prog n) call rv ?w = Ret v w2"
      and rest: "(let (e2, z2) = after_call prog f v (eg w2) (zend w2) in exec eng sys prog n f (w2\<lparr>eg := e2, zend := z2\<rparr>)) = Ret () w'"
      by (auto simp: bind_o_Ret_iff)
    have ok2: "ok w2" using disciplinedD [OF api_disciplined [where ex = "exec eng sys prog n", OF exec_disciplined] ok1] w2 fr_ok [OF _ ok1]
      by (metis within_Ret)
    obtain e2 z2 where ac: "after_call prog f v (eg w2) (zend w2) = (e2, z2)" by (metis surj_pair)
    have "ok (w2\<lparr>eg := e2, zend := z2\<rparr>)" using ok2 by (rule fr_ok [rotated]) (rule fr_other [of _ _ None], simp_all)
    from Suc.IH [OF this] rest ac have "same_coro (w2\<lparr>eg := e2, zend := z2\<rparr>) w'" by simp
    with api_same_coro [where ex = "exec eng sys prog n", OF exec_disciplined ok1 w2] show ?thesis by (simp add: same_coro_def)
  qed
qed simp

section \<open>Which coroutine ends\<close>

lemma free_cidmap_frees:
  assumes "free_cidmap c m = Inr m'"
  shows "c \<notin> used m'"
proof (cases "1 \<le> c \<and> c \<le> 32768")
  case True
  then have c: "0 \<le> c - 1" "c - 1 < 32768" by auto
  with assms have "m' = m\<lparr>nr_free := nr_free m + 1, page := (page m)(nat (c - 1) div 32 :=
      page m (nat (c - 1) div 32) AND NOT (push_bit (nat (c - 1) mod 32) 1))\<rparr>"
    by (simp add: free_cidmap_def clear_bit_eq)
  with used_clear_bit [OF c, of m "nr_free m + 1"] show ?thesis by simp
qed (auto simp: used_def)

lemma coro_releaseE:
  assumes "coro_release eng c w = Ret () w'"
  obtains m h h2 where "free_cidmap c (cids w) = Inr m" and "free_cell (vm_stack (eg w)) (vm_pages w) = Inr h"
    and "free_cell (allocated_return_value_ptr (corog w)) (zvs w) = Inr h2"
    and "cids w' = m" and "vm_pages w' = h" and "zvs w' = h2" and "ctxs w' = ctxs w" and "checkPoint w' = checkPoint w"
    and "corog w' = (corog w)\<lparr>coro_num := coro_num (corog w) - 1, current_coro := None\<rparr>" and "cid_context_map w' = cid_context_map w"
  using assms by (auto simp: coro_release_def run_c bind_o_Ret_iff try_upd_def efree_zval_def split: sum.splits)

lemma coro_close_what:
  assumes "coro_close eng w = Ret () w'"
  shows "\<exists>t. load_task (current_coro (corog w)) w = Inr t \<and> cid t \<notin> used (cids w')
    \<and> (\<forall>r. allocated_return_value_ptr (corog w) = Some r \<longrightarrow> cells (zvs w') r = None) \<and> current_coro (corog w') = None"
proof -
  obtain t w1 where t: "load_task (current_coro (corog w)) w = Inr t" and w1: "coro_drop eng t w = Ret () w1"
    and rest: "coro_release eng (cid t) w1 = Ret () w'" using assms by (rule coro_closeE)
  have cg: "corog w1 = corog w" using w1
    by (auto simp: coro_drop_def ret_c_run try_upd_def c_zval_free_def efree_zval_def store_task_def split: sum.splits if_splits prod.splits)
  from rest obtain m h2 where res: "free_cidmap (cid t) (cids w1) = Inr m"
    "free_cell (allocated_return_value_ptr (corog w1)) (zvs w1) = Inr h2" "cids w' = m" "zvs w' = h2" "current_coro (corog w') = None"
    by (rule coro_releaseE) simp
  have "\<forall>r. allocated_return_value_ptr (corog w1) = Some r \<longrightarrow> cells h2 r = None"
    using res(2) by (auto simp: free_cell_def split: option.splits)
  with t cg res free_cidmap_frees [OF res(1)] show ?thesis by simp
qed

lemma load_task_kept:
  assumes "tasks_kept w w'" and "load_task q w = Inr t" and "load_task q w' = Inr t'" and "wf_heap (vm_pages w)"
  shows "cid t' = cid t"
proof -
  obtain a off pg where q: "q = Some (a, off)" "cells (vm_pages w) a = Some pg" "pg_task pg off = Some t"
    using assms(2) by (rule load_task_SomeE)
  obtain pg' where "cells (vm_pages w') a = Some pg'" "pg_task pg' off = Some t'"
    using assms(3) q(1) by (auto elim!: load_task_SomeE)
  moreover have "page_kept (cells (vm_pages w) a) (cells (vm_pages w') a)"
    using assms(1) wf_heap_less [OF assms(4) q(2)] by (simp add: tasks_kept_def)
  ultimately show ?thesis using q(2,3) by (fastforce simp: page_kept_def)
qed

lemma coro_run_ends:
  assumes ok: "ok w" and wf: "wf_heap (vm_pages w)" and t: "load_task (current_coro (corog w)) w = Inr t"
    and run: "coro_run eng (exec eng sys prog n) f w = Ret CORO_END w'"
  shows "cid t \<notin> used (cids w') \<and> current_coro (corog w') = None
    \<and> (\<forall>r. allocated_return_value_ptr (corog w) = Some r \<longrightarrow> cells (zvs w') r = None)"
proof -
  from run obtain h w2 where h: "modify (checkPoint w) (\<lambda>_. Some (setjmps w)) (jmps w) = Inr h"
    and w2: "(seq_c (exec eng sys prog n f) (seq_c (coro_close eng) (ret_c CORO_END))) (w\<lparr>jmps := h, setjmps := Suc (setjmps w)\<rparr>) = Ret 0 w2"
    and w': "w' = w2\<lparr>corog := (corog w2)\<lparr>require := False\<rparr>\<rparr>"
    by (auto simp: coro_run_def run_c bind_o_Ret_iff setjmp_c_def Let_def split: sum.splits outcome.splits if_splits)
  let ?w = "w\<lparr>jmps := h, setjmps := Suc (setjmps w)\<rparr>"
  from w2 obtain w1 where w1: "exec eng sys prog n f ?w = Ret () w1" and cl: "coro_close eng w1 = Ret () w2"
    by (auto simp: run_c bind_o_Ret_iff)
  have "ok ?w" using ok h by (auto simp: ok_def parked_def modify_def)
  from exec_same_coro [OF this w1] have same: "same_coro w w1" by (simp add: same_coro_def)
  have kept: "tasks_kept w w1" by (rule contract_Ret [OF exec_tasks _ w1]) (simp add: tasks_kept_def)
  from coro_close_what [OF cl] obtain t' where t': "load_task (current_coro (corog w1)) w1 = Inr t'" "cid t' \<notin> used (cids w2)"
    "\<forall>r. allocated_return_value_ptr (corog w1) = Some r \<longrightarrow> cells (zvs w2) r = None" "current_coro (corog w2) = None" by blast
  have "cid t' = cid t" using load_task_kept [OF kept t _ wf] t'(1) same by (simp add: same_coro_def)
  with t' same w' show ?thesis by (simp add: same_coro_def)
qed

lemma coro_reenter_switches:
  assumes "coro_reenter eng (Some a) retval w = Ret f w'" and "cells (ctxs w) a = Some (Some x)"
  shows "current_coro (corog w') = ctx_task x \<and> allocated_return_value_ptr (corog w') = ctx_allocated_return x
    \<and> vm_pages w' = vm_pages w \<and> checkPoint w' = checkPoint w \<and> jmps w' = jmps w \<and> ctxs w' = ctxs w
    \<and> cid_context_map w' = cid_context_map w \<and> cids w' = cids w \<and> coro_num (corog w') = coro_num (corog w)
    \<and> (\<exists>cur e z e' z'. release_frame eng cur e z = (e', z') \<and> stack_regs e = ctx_regs x \<and> stack_regs (eg w') = stack_regs e')"
proof (cases "ctx_execute_data x")
  case None
  with assms show ?thesis by (simp add: coro_reenter_def run_c load_ctx_def)
next
  case (Some cur)
  let ?e = "(eg w)\<lparr>vm_stack := ctx_vm_stack x, vm_stack_top := ctx_vm_stack_top x, vm_stack_end := ctx_vm_stack_end x\<rparr>"
  obtain e z where rel: "release_frame eng cur ?e (zend w) = (e, z)" by (metis surj_pair)
  show ?thesis
  proof (cases "prev_execute_data eng cur z")
    case None
    with assms Some rel show ?thesis by (simp add: coro_reenter_def run_c load_ctx_def)
  next
    case (Some g)
    define Q where "Q v \<longleftrightarrow> (\<exists>cur e z e' z'. release_frame eng cur e z = (e', z') \<and> stack_regs e = ctx_regs x \<and> v = stack_regs e')" for v
    have "Q (stack_regs e)"
      unfolding Q_def by (rule exI [of _ cur], rule exI [of _ ?e], rule exI [of _ "zend w"], rule exI [of _ e], rule exI [of _ z])
        (use rel in simp)
    with assms \<open>ctx_execute_data x = Some cur\<close> rel Some show ?thesis
      unfolding Q_def [symmetric] by (auto simp: coro_reenter_def run_c load_ctx_def split: if_splits option.splits)
  qed
qed

section \<open>Properties\<close>

text \<open>C6: when \<open>c_coro_create\<close> says that the coroutine has ended, the coroutine that was closed is the
  one it created, for all PHP code that does not run the event loop inside it, whatever coroutines that
  code created, resumed and waited for: the id it took is free, its return value is freed and no coroutine
  is current.\<close>

theorem created_coroutine_ends:
  assumes "ok w" and "wf_heap (vm_pages w)" and "alloc_cidmap (cids w) = Inr (c, m)"
    and "c_coro_create eng sys (exec eng sys prog n) fci argv post params w = Ret CORO_END w'"
  shows "c \<notin> used (cids w') \<and> cells (zvs w') (fresh (zvs w)) = None \<and> current_coro (corog w') = None"
proof -
  let ?w = "w\<lparr>cids := m\<rparr>"
  from assms(4) c_coro_create_alloc [OF assms(3), of eng sys "exec eng sys prog n" fci argv post params]
  obtain call w1 where e: "coro_enter eng sys fci argv post params c ?w = Ret call w1"
    and run: "coro_run eng (exec eng sys prog n) call w1 = Ret CORO_END w'"
    by (auto simp: bind_o_Ret_iff split: if_splits)
  have size: "88 \<le> uint (stack_size (corog ?w))"
    using e by (auto simp: coro_enter_def run_c c_vm_stack_init_def emalloc_def Let_def store_task_def task_cell_def page_layout
      try_upd_def split: prod.splits if_splits)
  with coro_enter_started [OF size, of eng sys fci argv post params c] e have s: "started c post params ?w w1" by auto
  have "ok w1" using assms(1) s by (simp add: started_def ok_def parked_def)
  moreover have "wf_heap (vm_pages w1)"
    using e assms(2) by (auto simp: coro_enter_def run_c c_vm_stack_init_def emalloc_def Let_def store_task_def task_cell_def
      try_upd_def wf_heap_def less_Suc_eq split: prod.splits if_splits)
  moreover obtain t where "load_task (current_coro (corog w1)) w1 = Inr t" "cid t = c" using started_task [OF s size] by blast
  ultimately show ?thesis using coro_run_ends [OF _ _ _ run] s by (auto simp: started_def)
qed

lemma demo_free_1: "free_cidmap 1 cidmap_one_used = Inr (cidmap_one_used\<lparr>page := (page cidmap_one_used)(0 := 0), nr_free := 0x8000\<rparr>)"
  by (simp add: free_cidmap_def cidmap_one_used_def cidmap_init_def clear_bit_def word_index_def bit_mask_def)

lemma demo_create_ends:
  "\<exists>w'. c_coro_create (demo_engine (\<lambda>_. []) False) (demo_system 9)
      (exec (demo_engine (\<lambda>_. []) False) (demo_system 9) demo_program 1) 1 [] None None (demo_ready []) = Ret CORO_END w'"
  apply (simp add: c_coro_create_def coro_enter_def run_c demo_alloc c_vm_stack_init_def emalloc_def Let_def demo_engine_def
      demo_ready_def demo_world_def empty_heap_def page_layout demo_system_def store_task_def task_cell_def)
  apply (simp add: coro_run_def run_c setjmp_c_def demo_program_def coro_close_def coro_drop_def coro_release_def load_task_def task_cell_def
      sizeof_task_def demo_free_1 efree_zval_def)
  done

theorem created_coroutine_ends_witness:
  "\<exists>w'. c_coro_create (demo_engine (\<lambda>_. []) False) (demo_system 9)
      (exec (demo_engine (\<lambda>_. []) False) (demo_system 9) demo_program 1) 1 [] None None (demo_ready []) = Ret CORO_END w'
    \<and> 1 \<notin> used (cids w') \<and> cells (zvs w') 0 = None"
proof -
  have "wf_heap (vm_pages (demo_ready []))" "alloc_cidmap (cids (demo_ready [])) = Inr (1, cidmap_one_used)" "fresh (zvs (demo_ready [])) = 0"
    using demo_alloc by (simp_all add: demo_defs wf_heap_def)
  with created_coroutine_ends [OF demo_ok(1) [of "[]"]] demo_create_ends show ?thesis by metis
qed

text \<open>C11: when \<open>c_coro_resume\<close> says that the coroutine has ended, the coroutine that was closed is the
  one whose context was resumed, for all PHP code that does not run the event loop inside it: its id is
  free, its return value is freed and no coroutine is current.\<close>

theorem resumed_coroutine_ends:
  assumes "ok w" and "wf_heap (vm_pages w)" and "cells (ctxs w) a = Some (Some x)" and "load_task (ctx_task x) w = Inr t"
    and "c_coro_resume eng (exec eng sys prog n) (Some a) retval w = Ret CORO_END w'"
  shows "cid t \<notin> used (cids w') \<and> current_coro (corog w') = None
    \<and> (\<forall>r. ctx_allocated_return x = Some r \<longrightarrow> cells (zvs w') r = None)"
proof -
  from assms(5) obtain f w1 where e: "coro_reenter eng (Some a) retval w = Ret f w1"
    and run: "coro_run eng (exec eng sys prog n) f w1 = Ret CORO_END w'"
    by (auto simp: c_coro_resume_def run_c bind_o_Ret_iff split: if_splits option.splits)
  have w1: "current_coro (corog w1) = ctx_task x" "allocated_return_value_ptr (corog w1) = ctx_allocated_return x"
    "vm_pages w1 = vm_pages w" "checkPoint w1 = checkPoint w" "jmps w1 = jmps w" "ctxs w1 = ctxs w" "cid_context_map w1 = cid_context_map w"
    using coro_reenter_switches [OF e assms(3)] by simp_all
  have "ok w1" using assms(1) w1 by (simp add: ok_def parked_def)
  moreover have "load_task (current_coro (corog w1)) w1 = Inr t" using assms(4) w1 load_task_pages [of w1 w] by simp
  ultimately show ?thesis using coro_run_ends [OF _ _ _ run] assms(2) w1 by auto
qed

lemma demo_resume_ends:
  "\<exists>w'. c_coro_resume (demo_engine (\<lambda>_. []) False) (exec (demo_engine (\<lambda>_. []) False) (demo_system 9) demo_program 1)
      (Some 0) None demo_parked = Ret CORO_END w'"
  unfolding demo_parked_def
  apply (simp add: demo_defs c_coro_resume_def coro_reenter_def load_ctx_def run_c)
  apply (simp add: coro_run_def run_c setjmp_c_def coro_close_def coro_drop_def coro_release_def load_task_def task_cell_def sizeof_task_def demo_free_1 efree_zval_def)
  done

theorem resumed_coroutine_ends_witness:
  "\<exists>w'. c_coro_resume (demo_engine (\<lambda>_. []) False) (exec (demo_engine (\<lambda>_. []) False) (demo_system 9) demo_program 1)
      (Some 0) None demo_parked = Ret CORO_END w' \<and> 1 \<notin> used (cids w') \<and> cells (zvs w') 0 = None"
proof -
  have f: "ok demo_parked" "wf_heap (vm_pages demo_parked)"
    by (auto simp: demo_parked_def ok_def parked_def wf_heap_def demo_defs)
  obtain x where x: "cells (ctxs demo_parked) 0 = Some (Some x)" "ctx_task x = Some (1, 48)" "ctx_allocated_return x = Some 0"
    by (simp add: demo_parked_def)
  have t: "load_task (ctx_task x) demo_parked = Inr demo_task"
    by (simp add: x demo_parked_def load_task_def task_cell_def demo_defs sizeof_task_def)
  have "cid demo_task = 1" by (simp add: demo_task_def)
  with resumed_coroutine_ends [OF f x(1) t] demo_resume_ends x show ?thesis by metis
qed

end
