(* ===== verification/Ids.thy ===== *)
theory Ids
  imports Tasks
begin

text \<open>
  The books the extension keeps about its coroutines: the ids in the tasks of the live stack pages,
  the bitmap of ids in use and the count of coroutines agree, whatever PHP code runs that leaves the event
  loop to the script, for every engine that keeps the VM stack as a stack. \<open>books\<close> holds everywhere,
  \<open>running\<close> whenever PHP code runs: after a \<open>longjmp\<close> the VM registers are those of the
  main stack while \<open>COROG.current_coro\<close> still points to the coroutine that was left.
\<close>

section \<open>Definitions\<close>

text \<open>The id in the task record at the bottom of a live page.\<close>

definition coro_ids :: "'z world \<Rightarrow> nat \<Rightarrow> int option" where
  "coro_ids w a = (case cells (vm_pages w) a of None \<Rightarrow> None | Some pg \<Rightarrow> map_option cid (pg_task pg 48))"

text \<open>
  The VM stack. \<open>S r a\<close> says that the registers \<open>r\<close> (the top page, the top slot, the end of the page)
  are those of the VM stack whose first page is \<open>a\<close>. The engine keeps the stack as a stack: pushing the
  first frame of a coroutine, with its top at slot 6 after the header of the page, the slot
  \<open>c_vm_stack_init\<close> skips and the task, starts one; initialising, running and releasing frames may extend it
  with pages of the engine and drop them, but stay on it; and when \<open>zend_execute_ex\<close> returns everything
  above the first page is gone, which is so when the first frame fits that page.
\<close>

definition stack_discipline :: "'z engine \<Rightarrow> 'z program \<Rightarrow> (ptr \<times> vmpos \<times> vmpos \<Rightarrow> addr \<Rightarrow> bool) \<Rightarrow> bool" where
  "stack_discipline eng prog S \<longleftrightarrow>
     (\<forall>f n e z call e' z' a sz. push_call_frame eng f n e z = (call, e', z') \<longrightarrow>
        stack_regs e = (Some a, Some (a, 96), Some (a, sz)) \<longrightarrow> S (stack_regs e') a)
   \<and> (\<forall>c r e z e' z' a. init_execute_data eng c r e z = (e', z') \<longrightarrow> S (stack_regs e) a \<longrightarrow> S (stack_regs e') a)
   \<and> (\<forall>c e z e' z' a. release_frame eng c e z = (e', z') \<longrightarrow> S (stack_regs e) a \<longrightarrow> S (stack_regs e') a)
   \<and> (\<forall>f e z c e' z' a. next_call prog f e z = (Some c, e', z') \<longrightarrow> S (stack_regs e) a \<longrightarrow> S (stack_regs e') a)
   \<and> (\<forall>f v e z e' z' a. after_call prog f v e z = (e', z') \<longrightarrow> S (stack_regs e) a \<longrightarrow> S (stack_regs e') a)
   \<and> (\<forall>f e z e' z' a. next_call prog f e z = (None, e', z') \<longrightarrow> S (stack_regs e) a \<longrightarrow> vm_stack e' = Some a)"

text \<open>A saved context belongs to the VM stack its task is on.\<close>

definition ctx_on_stack :: "(ptr \<times> vmpos \<times> vmpos \<Rightarrow> addr \<Rightarrow> bool) \<Rightarrow> php_context \<Rightarrow> bool" where
  "ctx_on_stack S x \<longleftrightarrow> (\<forall>a off. ctx_task x = Some (a, off) \<longrightarrow> off = 48 \<and> S (ctx_regs x) a)"

text \<open>
  Every live coroutine has an id that is in use and that no other live coroutine has, or the id \<open>-1\<close>
  it was given when there was none left; \<open>COROG.coro_num\<close> counts the live coroutines.
\<close>

definition counts :: "'z world \<Rightarrow> bool" where
  "counts w \<longleftrightarrow> wf_heap (vm_pages w) \<and> cid_inv (cids w) \<and> checkPoint w \<noteq> None
     \<and> (\<forall>a c. coro_ids w a = Some c \<longrightarrow> c = -1 \<or> c \<in> used (cids w))
     \<and> (\<forall>a b c. coro_ids w a = Some c \<longrightarrow> coro_ids w b = Some c \<longrightarrow> c \<noteq> -1 \<longrightarrow> a = b)
     \<and> coro_num (corog w) = of_nat (card (dom (coro_ids w)))"

text \<open>
  The saved contexts are those of their coroutines, except for \<open>X\<close>: contexts that nothing can resume,
  for they were never parked.
\<close>

definition contexts_ok :: "(ptr \<times> vmpos \<times> vmpos \<Rightarrow> addr \<Rightarrow> bool) \<Rightarrow> nat set \<Rightarrow> 'z world \<Rightarrow> bool" where
  "contexts_ok S X w \<longleftrightarrow> parked w \<subseteq> {..<fresh (ctxs w)} \<and> X \<subseteq> {..<fresh (ctxs w)} \<and> X \<inter> parked w = {}
     \<and> (\<forall>p x. p \<notin> X \<longrightarrow> cells (ctxs w) p = Some (Some x) \<longrightarrow> ctx_on_stack S x)"

definition books_but :: "(ptr \<times> vmpos \<times> vmpos \<Rightarrow> addr \<Rightarrow> bool) \<Rightarrow> nat set \<Rightarrow> 'z world \<Rightarrow> bool" where
  "books_but S X w \<longleftrightarrow> counts w \<and> contexts_ok S X w"

text \<open>
  The registers of the VM are on the stack of the current coroutine while it runs, and back on its
  page when it has returned from its function.
\<close>

definition on_stack :: "(ptr \<times> vmpos \<times> vmpos \<Rightarrow> addr \<Rightarrow> bool) \<Rightarrow> 'z world \<Rightarrow> bool" where
  "on_stack S w \<longleftrightarrow> (\<forall>a off. current_coro (corog w) = Some (a, off) \<longrightarrow> off = 48 \<and> S (stack_regs (eg w)) a)"

definition on_page :: "'z world \<Rightarrow> bool" where
  "on_page w \<longleftrightarrow> (\<forall>a off. current_coro (corog w) = Some (a, off) \<longrightarrow> off = 48 \<and> vm_stack (eg w) = Some a)"

definition running_but :: "(ptr \<times> vmpos \<times> vmpos \<Rightarrow> addr \<Rightarrow> bool) \<Rightarrow> nat set \<Rightarrow> 'z world \<Rightarrow> bool" where
  "running_but S X w \<longleftrightarrow> books_but S X w \<and> on_stack S w"

definition ended_but :: "(ptr \<times> vmpos \<times> vmpos \<Rightarrow> addr \<Rightarrow> bool) \<Rightarrow> nat set \<Rightarrow> 'z world \<Rightarrow> bool" where
  "ended_but S X w \<longleftrightarrow> books_but S X w \<and> on_page w"

abbreviation books :: "(ptr \<times> vmpos \<times> vmpos \<Rightarrow> addr \<Rightarrow> bool) \<Rightarrow> 'z world \<Rightarrow> bool" where "books S \<equiv> books_but S {}"
abbreviation running :: "(ptr \<times> vmpos \<times> vmpos \<Rightarrow> addr \<Rightarrow> bool) \<Rightarrow> 'z world \<Rightarrow> bool" where "running S \<equiv> running_but S {}"

text \<open>What the interpreter has to keep: it starts a frame and returns from it.\<close>

abbreviation runs_books :: "(ptr \<times> vmpos \<times> vmpos \<Rightarrow> addr \<Rightarrow> bool) \<Rightarrow> nat set \<Rightarrow> ('z, 'a) code \<Rightarrow> bool" where
  "runs_books S X m \<equiv> contract (running_but S X) m (ended_but S X) (books_but S X)"

lemmas books_defs = books_but_def counts_def contexts_ok_def

section \<open>Frames\<close>

lemma coro_ids_pages: "vm_pages w' = vm_pages w \<Longrightarrow> coro_ids w' = coro_ids w"
  by (rule ext) (simp add: coro_ids_def)

lemma finite_coro_ids: "wf_heap (vm_pages w) \<Longrightarrow> finite (dom (coro_ids w))"
  by (rule finite_subset [of _ "{..<fresh (vm_pages w)}"])
    (auto simp: coro_ids_def dom_def split: option.splits dest: wf_heap_less)

lemma parked_simps [simp]: "parked (w\<lparr>ctxs := h\<rparr>) = parked w" "parked (w\<lparr>cids := m\<rparr>) = parked w"
  by (simp_all add: parked_def)

lemma counts_frame:
  "counts w \<Longrightarrow> vm_pages w' = vm_pages w \<Longrightarrow> cids w' = cids w \<Longrightarrow> checkPoint w' \<noteq> None \<Longrightarrow> coro_num (corog w') = coro_num (corog w)
   \<Longrightarrow> counts w'"
  unfolding counts_def by (simp add: coro_ids_pages [of w' w])

lemma contexts_ok_frame:
  "contexts_ok S X w \<Longrightarrow> ctxs w' = ctxs w \<Longrightarrow> cid_context_map w' = cid_context_map w \<Longrightarrow> contexts_ok S X w'"
  by (simp add: contexts_ok_def parked_def)

lemma books_frame:
  "books_but S X w \<Longrightarrow> vm_pages w' = vm_pages w \<Longrightarrow> cids w' = cids w \<Longrightarrow> checkPoint w' \<noteq> None \<Longrightarrow> coro_num (corog w') = coro_num (corog w)
   \<Longrightarrow> contexts_ok S X w' \<Longrightarrow> books_but S X w'"
  unfolding books_but_def by (auto intro: counts_frame)

lemma books_checkPoint: "books_but S X w \<Longrightarrow> \<exists>b. checkPoint w = Some b"
  by (simp add: books_but_def counts_def)

lemma books_parts: "books_but S X w \<Longrightarrow> counts w" "books_but S X w \<Longrightarrow> contexts_ok S X w" "running_but S X w \<Longrightarrow> books_but S X w"
  by (simp_all add: books_but_def running_but_def)

lemma books_same:
  "books_but S X w \<Longrightarrow> vm_pages w' = vm_pages w \<Longrightarrow> cids w' = cids w \<Longrightarrow> checkPoint w' = checkPoint w \<Longrightarrow> coro_num (corog w') = coro_num (corog w)
   \<Longrightarrow> ctxs w' = ctxs w \<Longrightarrow> cid_context_map w' = cid_context_map w \<Longrightarrow> books_but S X w'"
  using counts_frame [of w w'] contexts_ok_frame [of S X w w'] books_checkPoint [of S X w] by (auto simp: books_but_def)

lemma books_ctx: "books_but S X w \<Longrightarrow> cells (ctxs w) p = Some (Some x) \<Longrightarrow> p \<notin> X \<Longrightarrow> ctx_on_stack S x"
  by (simp add: books_but_def contexts_ok_def)

lemma books_parked: "books_but S X w \<Longrightarrow> cid_context_map w c = Some a \<Longrightarrow> a \<notin> X \<and> a < fresh (ctxs w)"
  by (auto simp: books_but_def contexts_ok_def parked_def)

text \<open>The contexts change, and none that is not on its page becomes one to resume.\<close>

lemma contexts_ok_step:
  assumes "contexts_ok S X w" and "cid_context_map w' = cid_context_map w" and "fresh (ctxs w) \<le> fresh (ctxs w')" and "X' \<subseteq> {..<fresh (ctxs w')}"
    and "X' \<inter> parked w = {}"
    and "\<And>p x. p \<notin> X' \<Longrightarrow> cells (ctxs w') p = Some (Some x) \<Longrightarrow> p \<notin> X \<and> cells (ctxs w) p = Some (Some x) \<or> ctx_on_stack S x"
  shows "contexts_ok S X' w'"
proof -
  have "parked w' = parked w" using assms(2) by (simp add: parked_def)
  moreover have "parked w \<subseteq> {..<fresh (ctxs w')}" using assms(1,3) unfolding contexts_ok_def by auto
  ultimately show ?thesis using assms(1,4-6) unfolding contexts_ok_def by metis
qed

lemma running_ctxs:
  assumes "running_but S X w" and "fresh (ctxs w) \<le> fresh h"
    and "\<And>p x. cells h p = Some (Some x) \<Longrightarrow> cells (ctxs w) p = Some (Some x) \<or> ctx_on_stack S x"
  shows "running_but S X (w\<lparr>ctxs := h\<rparr>)"
proof -
  have "contexts_ok S X (w\<lparr>ctxs := h\<rparr>)"
    by (rule contexts_ok_step [of S X w])
      (use assms in \<open>auto simp: running_but_def books_but_def contexts_ok_def\<close>)
  then show ?thesis using assms(1) counts_frame [of w "w\<lparr>ctxs := h\<rparr>"] books_checkPoint [of S X w]
    by (auto simp: running_but_def books_but_def on_stack_def)
qed

lemma saved_on_stack: "on_stack S w \<Longrightarrow> ctx_on_stack S (saved_ctx rv w)"
  by (simp add: ctx_on_stack_def on_stack_def saved_ctx_def)

lemma books_main_stack: "running_but S X w \<Longrightarrow> books_but S X (main_stack w)"
  unfolding main_stack_def by (rule books_same [OF books_parts(3)]) simp_all

interpretation ids: quiet_contract "running_but S X" "books_but S X" for X
proof
  fix w w' :: "'a world" and rv ctx h c
  show "running_but S X w'" if "running_but S X w" "eg w' = eg w" "corog w' = corog w" "checkPoint w' = checkPoint w" "vm_pages w' = vm_pages w"
      "ctxs w' = ctxs w" "cids w' = cids w" "cid_context_map w' = cid_context_map w"
    using that books_same [of S X w w'] by (simp add: running_but_def on_stack_def)
  show "running_but S X w \<Longrightarrow> running_but S X (w\<lparr>ctxs := snd (emalloc None (ctxs w))\<rparr>)"
    by (erule running_ctxs) (auto simp: emalloc_def split: if_splits)
  show "running_but S X w \<Longrightarrow> free_cell ctx (ctxs w) = Inr h \<Longrightarrow> running_but S X (w\<lparr>ctxs := h\<rparr>)"
    by (erule running_ctxs) (auto simp: free_cell_def split: if_splits option.splits)
  show "running_but S X w'" if r: "running_but S X w" and s: "c_coro_save rv ctx w = Ret () w'"
  proof -
    from s obtain h where w': "w' = w\<lparr>ctxs := h\<rparr>" and h: "modify ctx (\<lambda>_. Some (saved_ctx rv w)) (ctxs w) = Inr h"
      by (auto simp: c_coro_save_def try_upd_def saved_ctx_def split: sum.splits)
    show ?thesis unfolding w'
      by (rule running_ctxs [OF r]) (use h saved_on_stack [of S w rv] r in \<open>auto simp: modify_def running_but_def split: if_splits option.splits\<close>)
  qed
  show "running_but S X ((saved rv w)\<lparr>cid_context_map := (cid_context_map w)(c := Some (fresh (ctxs w)))\<rparr>)" if r: "running_but S X w"
  proof -
    let ?w = "(saved rv w)\<lparr>cid_context_map := (cid_context_map w)(c := Some (fresh (ctxs w)))\<rparr>"
    have "contexts_ok S X w" "on_stack S w" "counts w" using r by (simp_all add: running_but_def books_but_def)
    moreover from this have "contexts_ok S X ?w"
      using saved_on_stack [of S w rv] unfolding contexts_ok_def by (auto simp: saved_def parked_def less_Suc_eq split: if_splits)
    moreover have "counts ?w" by (rule counts_frame [OF \<open>counts w\<close>]) (use \<open>counts w\<close> in \<open>simp_all add: saved_def counts_def\<close>)
    ultimately show ?thesis by (simp add: running_but_def books_but_def on_stack_def saved_def)
  qed
  show "running_but S X w \<Longrightarrow> books_but S X (main_stack w)" by (rule books_main_stack)
qed

section \<open>Starting a coroutine\<close>

lemma stack_disciplineD:
  assumes "stack_discipline eng prog S"
  shows "push_call_frame eng f n e z = (call, e', z') \<Longrightarrow> stack_regs e = (Some a, Some (a, 96), Some (a, sz)) \<Longrightarrow> S (stack_regs e') a"
    and "init_execute_data eng call r e z = (e', z') \<Longrightarrow> S (stack_regs e) a \<Longrightarrow> S (stack_regs e') a"
    and "release_frame eng call e z = (e', z') \<Longrightarrow> S (stack_regs e) a \<Longrightarrow> S (stack_regs e') a"
    and "next_call prog f e z = (Some c, e', z') \<Longrightarrow> S (stack_regs e) a \<Longrightarrow> S (stack_regs e') a"
    and "after_call prog f v e z = (e', z') \<Longrightarrow> S (stack_regs e) a \<Longrightarrow> S (stack_regs e') a"
    and "next_call prog f e z = (None, e', z') \<Longrightarrow> S (stack_regs e) a \<Longrightarrow> vm_stack e' = Some a"
  using assms unfolding stack_discipline_def by - (elim conjE, metis)+

lemma coro_enter_stack:
  assumes "stack_discipline eng prog S" and "coro_enter eng sys fci argv post params c w = Ret call w1"
  shows "S (stack_regs (eg w1)) (fresh (vm_pages w)) \<and> fresh (vm_pages w1) = Suc (fresh (vm_pages w))
    \<and> 88 \<le> uint (stack_size (corog w))"
proof -
  let ?p = "fresh (vm_pages w)"
  let ?e = "(eg w)\<lparr>vm_stack := Some ?p, vm_stack_end := Some (?p, uint (stack_size (corog w))), vm_stack_top := Some (?p, 96)\<rparr>"
  obtain cl e1 z1 where push: "push_call_frame eng fci (int (length argv)) ?e (zend w) = (cl, e1, z1)" by (metis prod_cases3)
  obtain e2 z2 where init: "init_execute_data eng cl (fresh (zvs w)) (e1\<lparr>current_execute_data := None\<rparr>) (set_args eng cl argv z1) = (e2, z2)"
    by (metis surj_pair)
  have "S (stack_regs e1) ?p" by (rule stack_disciplineD(1) [OF assms(1) push]) simp
  then have "S (stack_regs e2) ?p" using stack_disciplineD(2) [OF assms(1) init] by simp
  with assms(2) push init show ?thesis
    by (auto simp: coro_enter_def run_c c_vm_stack_init_def emalloc_def Let_def store_task_def task_cell_def page_layout
      try_upd_def split: if_splits)
qed

lemma started_running:
  assumes "stack_discipline eng prog S" and e: "coro_enter eng sys fci argv post params c w = Ret call w1" and b: "books_but S X w"
    and c: "c = -1 \<or> c \<in> used (cids w) \<and> (\<forall>a. coro_ids w a \<noteq> Some c)"
  shows "running_but S X w1"
proof -
  note st = coro_enter_stack [OF assms(1) e]
  with coro_enter_started [of w eng sys fci argv post params c] e have s: "started c post params w w1" by auto
  let ?p = "fresh (vm_pages w)"
  have ids: "coro_ids w1 = (coro_ids w)(?p := Some c)"
    using s by (auto simp: started_def coro_ids_def fun_eq_iff)
  have new: "coro_ids w ?p = None" using b by (simp add: books_defs coro_ids_def)
  have wf: "wf_heap (vm_pages w)" using b by (simp add: books_defs)
  have "wf_heap (vm_pages w1)" using st s wf unfolding wf_heap_def started_def by (metis less_Suc_eq)
  moreover have "card (dom (coro_ids w1)) = Suc (card (dom (coro_ids w)))"
    unfolding ids using finite_coro_ids [OF wf] new by (simp add: domIff)
  moreover have "contexts_ok S X w1"
    using contexts_ok_frame [OF books_parts(2) [OF b], of w1] s by (simp add: started_def)
  ultimately have "books_but S X w1" using b s c new unfolding books_but_def counts_def ids started_def by auto
  moreover have "on_stack S w1" using s st by (simp add: on_stack_def started_def)
  ultimately show ?thesis by (simp add: running_but_def)
qed

lemma alloc_limit_cases:
  assumes "cid_inv m" and "alloc_cidmap m = Inr (c, m')"
  shows "c = -1 \<and> m' = m \<or> c \<notin> used m \<and> used m' = insert c (used m) \<and> cid_inv m' \<and> 1 \<le> c"
proof (cases "nr_free m = 0")
  case True
  with assms(2) show ?thesis by (simp add: alloc_cidmap_def)
next
  case False
  then have "card (used m) < 32768"
    using assms(1) unat_nr_free_zero card_used [of m] by fastforce
  with cm.alloc_ok [OF assms(1)] assms(2) have "c \<notin> used m \<and> used m' = insert c (used m) \<and> cid_inv m'" by auto
  then show ?thesis using used_range [of m'] by auto
qed

section \<open>Closing a coroutine\<close>

lemma store_task_ids:
  assumes "load_task q w = Inr t" and "vm_pages w1 = vm_pages w" and "cid t' = cid t" and "store_task q t' w1 = Inr w'"
  shows "coro_ids w' = coro_ids w \<and> (wf_heap (vm_pages w) \<longrightarrow> wf_heap (vm_pages w')) \<and> cids w' = cids w1 \<and> checkPoint w' = checkPoint w1
    \<and> corog w' = corog w1 \<and> ctxs w' = ctxs w1 \<and> eg w' = eg w1 \<and> cid_context_map w' = cid_context_map w1"
proof -
  obtain a off pg where q: "q = Some (a, off)" "cells (vm_pages w) a = Some pg" "task_cell q w = Inr (a, off, pg)" "pg_task pg off = Some t"
    using assms(1) by (rule load_task_SomeE)
  have "task_cell q w1 = task_cell q w" using assms(2) q(1) by (simp add: task_cell_def)
  with assms(2,4) q(3) have "w' = w1\<lparr>vm_pages := (vm_pages w)\<lparr>cells := (cells (vm_pages w))(a := Some (pg\<lparr>pg_task := (pg_task pg)(off := Some t')\<rparr>))\<rparr>\<rparr>"
    by (auto simp: store_task_def)
  then show ?thesis using q(2,4) assms(3) by (auto simp: coro_ids_def fun_eq_iff wf_heap_def)
qed

lemma books_store:
  assumes "books_but S X w" and "load_task q w = Inr t" and "vm_pages w1 = vm_pages w" and "cid t' = cid t" and "store_task q t' w1 = Inr w'"
    and "cids w1 = cids w" and "checkPoint w1 = checkPoint w" and "corog w1 = corog w" and "ctxs w1 = ctxs w"
    and "cid_context_map w1 = cid_context_map w"
  shows "books_but S X w'"
  using store_task_ids [OF assms(2-5)] assms(1,6-10) unfolding books_defs by (simp add: parked_def)

lemma efree_zval_frame: "efree_zval eng d p w = Inr w' \<Longrightarrow> vm_pages w' = vm_pages w \<and> cids w' = cids w \<and> checkPoint w' = checkPoint w
    \<and> corog w' = corog w \<and> ctxs w' = ctxs w \<and> eg w' = eg w \<and> cid_context_map w' = cid_context_map w"
  by (auto simp: efree_zval_def)

lemma keep_callback_books: "contract (books_but S X) (keep_callback eng cb) (books_but S X) (books_but S X)"
proof (rule contract_calm [OF _ keep_callback_calm])
  fix w :: "'a world" and x w'
  assume b: "books_but S X w" and k: "keep_callback eng cb w = Ret x w'"
  show "books_but S X w'"
  proof (cases "current_coro (corog w) = None")
    case True
    with k have "efree_zval eng True cb w = Inr w'" by (auto simp: keep_callback_def try_upd_def c_zval_free_def split: sum.splits)
    then show ?thesis using books_same [OF b, of w'] efree_zval_frame [of eng True cb w w'] by simp
  next
    case False
    with k obtain t where "load_task (current_coro (corog w)) w = Inr t"
      "store_task (current_coro (corog w)) (t\<lparr>task_function := cb\<rparr>) w = Inr w'"
      by (auto simp: keep_callback_def try_upd_def split: sum.splits)
    with books_store [OF b this(1) refl _ this(2)] show ?thesis by simp
  qed
qed

lemma coro_close_running: "contract (ended_but S X) (coro_close eng) (running_but S X) (books_but S X)"
proof (rule contract_calm [OF _ coro_close_calm])
  fix w :: "'a world" and u w'
  assume r: "ended_but S X w" and "coro_close eng w = Ret u w'"
  then have cl: "coro_close eng w = Ret () w'" by simp
  let ?q = "current_coro (corog w)"
  obtain t w1 where t: "load_task ?q w = Inr t" and w1: "coro_drop eng t w = Ret () w1"
    and rest: "coro_release eng (cid t) w1 = Ret () w'"
    using coro_closeE [OF cl] by blast
  obtain p off pg where q: "?q = Some (p, off)" "cells (vm_pages w) p = Some pg" "pg_task pg off = Some t"
    using t by (rule load_task_SomeE)
  have p: "off = 48" "vm_stack (eg w) = Some p" using r q(1) by (simp_all add: ended_but_def on_page_def)
  have b: "books_but S X w" using r by (simp add: ended_but_def)
  have w1: "coro_ids w1 = coro_ids w \<and> wf_heap (vm_pages w1) \<and> cids w1 = cids w \<and> checkPoint w1 = checkPoint w
      \<and> corog w1 = corog w \<and> ctxs w1 = ctxs w \<and> eg w1 = eg w \<and> cid_context_map w1 = cid_context_map w"
  proof (cases "task_function t = None")
    case True
    with w1 b show ?thesis by (simp add: coro_drop_def ret_c_run books_defs)
  next
    case False
    with w1 obtain w2 where w2: "efree_zval eng True (task_function t) w = Inr w2"
      "store_task ?q (t\<lparr>task_function := None\<rparr>) w2 = Inr w1"
      by (auto simp: coro_drop_def try_upd_def c_zval_free_def split: sum.splits)
    note f = efree_zval_frame [OF w2(1)]
    from store_task_ids [OF t, of w2 "t\<lparr>task_function := None\<rparr>" w1] w2(2) f b show ?thesis by (simp add: books_defs)
  qed
  obtain m h where rel: "free_cidmap (cid t) (cids w1) = Inr m" "free_cell (vm_stack (eg w1)) (vm_pages w1) = Inr h"
    "cids w' = m" "vm_pages w' = h" "ctxs w' = ctxs w1" "checkPoint w' = checkPoint w1"
    "corog w' = (corog w1)\<lparr>coro_num := coro_num (corog w1) - 1, current_coro := None\<rparr>" "cid_context_map w' = cid_context_map w1"
    using rest by (rule coro_releaseE) blast
  have m: "free_cidmap (cid t) (cids w) = Inr m" using rel(1) w1 by simp
  have "free_cell (Some p) (vm_pages w1) = Inr h" using rel(2) w1 p(2) by simp
  then have h: "cells h = (cells (vm_pages w1))(p := None)" "fresh h = fresh (vm_pages w1)"
    by (auto simp: free_cell_def split: option.splits)
  have w': "cells (vm_pages w') = (cells (vm_pages w1))(p := None)" "fresh (vm_pages w') = fresh (vm_pages w1)"
      "cids w' = m" "corog w' = (corog w)\<lparr>coro_num := coro_num (corog w) - 1, current_coro := None\<rparr>" "ctxs w' = ctxs w"
      "checkPoint w' = checkPoint w" "parked w' = parked w"
    using rel h w1 by (simp_all add: parked_def)
  have ids: "coro_ids w p = Some (cid t)" using q p(1) by (simp add: coro_ids_def)
  have ids': "coro_ids w' = (coro_ids w)(p := None)"
    using w1 w'(1) by (auto simp: coro_ids_def fun_eq_iff)
  have inv: "cid_inv (cids w)" using b by (simp add: books_defs)
  have "cid t \<noteq> -1" using m by (auto simp: free_cidmap_def clear_bit_def word_index_def drop_bit_eq_div Let_def)
  then have "cid t \<in> used (cids w)" using b ids by (auto simp: books_defs)
  from cm.release_ok [OF inv this] m have m2: "used m = used (cids w) - {cid t}" "cid_inv m" by simp_all
  have fin: "finite (dom (coro_ids w))" by (rule finite_coro_ids) (use b in \<open>simp add: books_defs\<close>)
  then have "card (dom (coro_ids w)) = Suc (card (dom (coro_ids w')))"
    using card_Suc_Diff1 [OF fin, of p] ids unfolding ids' by (simp add: domIff)
  moreover have "wf_heap (vm_pages w')" using w1 w' by (simp add: wf_heap_def)
  ultimately have "books_but S X w'"
    using b m2 ids \<open>cid t \<noteq> -1\<close> unfolding books_defs ids' w' by (auto split: if_splits)
  then show "running_but S X w'" by (simp add: running_but_def on_stack_def w')
qed

section \<open>Creating and resuming\<close>

lemma coro_run_books:
  assumes "\<And>f. runs_books S X (ex f)"
  shows "contract (running_but S X) (coro_run eng ex f) (books_but S X) (books_but S X)"
proof -
  have run: "contract (running_but S X) (setjmp_c (seq_c (ex f) (seq_c (coro_close eng) (ret_c CORO_END))) (ret_c CORO_YIELD)) (books_but S X) (books_but S X)"
  proof (rule contract_setjmp)
    show "running_but S X w \<Longrightarrow> running_but S X (w\<lparr>jmps := h, setjmps := n\<rparr>)" for w :: "'a world" and h n
      by (erule ids.frame) simp_all
    show "contract (running_but S X) (seq_c (ex f) (seq_c (coro_close eng) (ret_c CORO_END))) (books_but S X) (books_but S X)"
      by (rule contract_weaken [OF contract_seq [OF assms contract_seq [OF coro_close_running contract_pure(1)]]])
        (simp_all add: running_but_def)
  qed (rule contract_pure)
  show ?thesis
    unfolding coro_run_def
    by (rule contract_bind [OF run]) (intro contract_seq [OF contract_upd contract_pure(1)], auto intro: books_same)
qed

lemma c_coro_create_books:
  assumes engine: "stack_discipline eng prog S" and ex: "\<And>f. runs_books S X (ex f)"
  shows "contract (books_but S X) (c_coro_create eng sys ex fci argv post params) (books_but S X) (books_but S X)"
proof (rule contractI)
  fix w :: "'a world"
  assume b: "books_but S X w"
  show "meets (books_but S X) (books_but S X) (c_coro_create eng sys ex fci argv post params w)"
  proof (cases "alloc_cidmap (cids w)")
    case (Inl e)
    then show ?thesis by (simp add: c_coro_create_def run_c)
  next
    case (Inr cm)
    then obtain c m where a: "alloc_cidmap (cids w) = Inr (c, m)" by (cases cm) auto
    let ?w = "w\<lparr>cids := m\<rparr>"
    note new = alloc_limit_cases [OF _ a]
    have inv: "cid_inv (cids w)" using b by (simp add: books_defs)
    have ids: "coro_ids ?w = coro_ids w" by (rule coro_ids_pages) simp
    have bm: "books_but S X ?w" using b new [OF inv] unfolding books_defs ids by auto blast
    have c: "c = -1 \<or> c \<in> used (cids ?w) \<and> (\<forall>a. coro_ids ?w a \<noteq> Some c)"
      using b new [OF inv] unfolding books_defs ids by auto
    have "meets (books_but S X) (books_but S X) (bind_o (coro_enter eng sys fci argv post params c ?w) (coro_run eng ex))"
    proof (rule meets_bind [where B = "running_but S X"])
      show "meets (running_but S X) (books_but S X) (coro_enter eng sys fci argv post params c ?w)"
        using started_running [OF engine _ bm c] coro_enter_calm [of eng sys fci argv post params c]
        by (cases "coro_enter eng sys fci argv post params c ?w") (auto simp: calm_def)
    qed (rule contractD [OF coro_run_books [OF ex]])
    then show ?thesis using c_coro_create_alloc [OF a, of eng sys ex] bm by simp
  qed
qed

lemma coro_run_status: "coro_run eng ex f w = Ret s w' \<Longrightarrow> 0 \<le> s"
  by (auto simp: coro_run_def run_c setjmp_c_def bind_o_Ret_iff Let_def split: sum.splits if_splits outcome.splits)

lemma c_coro_create_status:
  assumes "c_coro_create eng sys ex fci argv post params w = Ret s w'"
  shows "0 \<le> s"
proof (cases "alloc_cidmap (cids w)")
  case (Inl e)
  with assms show ?thesis by (simp add: c_coro_create_def run_c)
next
  case (Inr cm)
  then obtain c m where "alloc_cidmap (cids w) = Inr (c, m)" by (cases cm) auto
  with assms c_coro_create_alloc [OF this, of eng sys ex fci argv post params] show ?thesis
    by (auto simp: bind_o_Ret_iff dest: coro_run_status split: if_splits)
qed

lemma books_ctxs:
  assumes "books_but S X w" and "fresh (ctxs w) \<le> fresh h" and "X' \<subseteq> {..<fresh h}" and "X' \<inter> parked w = {}"
    and "\<And>p x. p \<notin> X' \<Longrightarrow> cells h p = Some (Some x) \<Longrightarrow> p \<notin> X \<and> cells (ctxs w) p = Some (Some x) \<or> ctx_on_stack S x"
  shows "books_but S X' (w\<lparr>ctxs := h\<rparr>)"
proof -
  have "contexts_ok S X' (w\<lparr>ctxs := h\<rparr>)"
    by (rule contexts_ok_step [OF books_parts(2) [OF assms(1)]]) (use assms(2-5) in simp_all)
  then show ?thesis using assms(1) counts_frame [of w "w\<lparr>ctxs := h\<rparr>"] books_checkPoint [of S X w]
    by (auto simp: books_but_def)
qed

lemma books_exempt: "books_but S X w \<Longrightarrow> X \<subseteq> {..<fresh (ctxs w)}" "books_but S X w \<Longrightarrow> X \<inter> parked w = {}"
  by (simp_all add: books_but_def contexts_ok_def)

lemma efree_books: "contract (books_but S X) (efree_ctx ctx) (books_but S X) (books_but S X)"
    "contract (books_but S X) efree_checkpoint (books_but S X) (books_but S X)"
    "contract (books_but S {a}) (efree_ctx (Some a)) (books S) E"
proof -
  show "contract (books_but S X) (efree_ctx ctx) (books_but S X) (books_but S X)"
    unfolding efree_ctx_def
    by (rule contract_try_upd)
      (auto intro!: books_ctxs [where X = X] dest: subsetD [OF books_exempt(1)] books_exempt(2) simp: free_cell_def split: if_splits option.splits)
  show "contract (books_but S X) efree_checkpoint (books_but S X) (books_but S X)"
    unfolding efree_checkpoint_def by (rule contract_try_upd) (auto intro: books_same)
  show "contract (books_but S {a}) (efree_ctx (Some a)) (books S) E"
    unfolding efree_ctx_def
    by (rule contract_try_upd) (auto intro!: books_ctxs simp: free_cell_def split: if_splits option.splits)
qed

lemma resume_parent_what:
  assumes b: "books_but S X w" and r: "c_coro_resume_parent ctx w = Ret s w'"
  shows "books_but S X w'" and "ctx = Some a \<Longrightarrow> a \<notin> X \<Longrightarrow> running_but S X w'"
proof -
  from r obtain p x where x: "ctx = Some p" "cells (ctxs w) p = Some (Some x)"
    "w' = w\<lparr>eg := (eg w)\<lparr>vm_stack := ctx_vm_stack x, vm_stack_top := ctx_vm_stack_top x,
          vm_stack_end := ctx_vm_stack_end x, current_execute_data := ctx_execute_data x\<rparr>,
        corog := (corog w)\<lparr>current_coro := ctx_task x, allocated_return_value_ptr := ctx_allocated_return x\<rparr>\<rparr>"
    by (auto simp: c_coro_resume_parent_def run_c load_ctx_def try_c_def bind_o_Ret_iff load_Inr_iff split: sum.splits option.splits)
  show books: "books_but S X w'" by (rule books_same [OF b]) (simp_all add: x)
  show "running_but S X w'" if "ctx = Some a" "a \<notin> X"
    using books_ctx [OF b x(2)] books that by (simp add: running_but_def on_stack_def ctx_on_stack_def x(1,3))
qed

lemma resume_parent_calm: "calm (c_coro_resume_parent ctx)"
  by (auto simp: c_coro_resume_parent_def load_ctx_def intro!: calm_intros)

lemma resume_parent_books: "contract (books_but S X) (c_coro_resume_parent ctx) (books_but S X) (books_but S X)"
    "a \<notin> X \<Longrightarrow> contract (books_but S X) (c_coro_resume_parent (Some a)) (running_but S X) (books_but S X)"
  by (rule contract_calm [OF _ resume_parent_calm], erule (1) resume_parent_what)
    (rule contract_calm [OF _ resume_parent_calm], erule (1) resume_parent_what, simp_all)

lemma scoped_ok:
  assumes "books_but S X w" and "X' \<subseteq> {..fresh (ctxs w)}" and "X' \<inter> parked w = {}" and "X \<subseteq> X'" and "fresh (ctxs w) \<in> X' \<or> on_stack S w"
  shows "books_but S X' (scoped rv w)"
proof -
  have "books_but S X' (w\<lparr>ctxs := ctxs (scoped rv w)\<rparr>)"
    by (rule books_ctxs [OF assms(1)])
      (use assms saved_on_stack [of S w rv] in \<open>auto simp: scoped_def less_Suc_eq_le split: if_splits\<close>)
  note b = this
  have "contexts_ok S X' (scoped rv w)" by (rule contexts_ok_frame [OF books_parts(2) [OF b]]) (simp_all add: scoped_def)
  with b show ?thesis by (intro books_frame [OF b]) (simp_all add: scoped_def)
qed

lemma scoped_running:
  assumes "running_but S X w"
  shows "books_but S X (scoped rv w)" and "fresh (ctxs w) \<notin> X"
proof -
  have b: "books_but S X w" "on_stack S w" using assms by (simp_all add: running_but_def)
  then have X: "X \<subseteq> {..<fresh (ctxs w)}" "X \<inter> parked w = {}" by (simp_all add: books_but_def contexts_ok_def)
  show "books_but S X (scoped rv w)" by (rule scoped_ok [OF b(1)]) (use b(2) X in auto)
  show "fresh (ctxs w) \<notin> X" using X by auto
qed

text \<open>The code after \<open>c_coro_create\<close> and \<open>c_coro_resume\<close>: \<open>B\<close> holds once the caller is back, \<open>C\<close> when its
  context is freed.\<close>

lemma finish_rule:
  assumes parent: "contract (books_but S X) (c_coro_resume_parent ctx) B (books_but S X)" and free: "contract B (efree_ctx ctx) C (books_but S X)"
    and req: "\<And>w. B w \<Longrightarrow> B (w\<lparr>corog := (corog w)\<lparr>require := required\<rparr>\<rparr>)" and prev: "prev \<noteq> None"
    and rest: "contract C m C (books_but S X)"
  shows "contract (books_but S X) (seq_c efree_checkpoint (seq_c (upd_c (\<lambda>w. w\<lparr>checkPoint := prev\<rparr>))
       (bind_c (c_coro_resume_parent ctx) (\<lambda>_.
       seq_c (upd_c (\<lambda>w. w\<lparr>corog := (corog w)\<lparr>require := required\<rparr>\<rparr>)) (seq_c (efree_ctx ctx) m))))) C (books_but S X)"
proof (intro contract_seq contract_bind)
  show "contract (books_but S X) efree_checkpoint (books_but S X) (books_but S X)" by (rule efree_books)
  show "contract (books_but S X) (upd_c (\<lambda>w. w\<lparr>checkPoint := prev\<rparr>)) (books_but S X) (books_but S X)"
    by (rule contract_upd, rule books_frame) (use prev in \<open>auto intro: contexts_ok_frame [OF books_parts(2)]\<close>)
  show "contract B (upd_c (\<lambda>w. w\<lparr>corog := (corog w)\<lparr>require := required\<rparr>\<rparr>)) B (books_but S X)"
    by (rule contract_upd) (rule req)
qed (rule parent free rest)+

lemma create_finish_rule:
  assumes "contract (books_but S X) (c_coro_resume_parent ctx) B (books_but S X)" and "contract B (efree_ctx ctx) C (books_but S X)"
    and "\<And>w. B w \<Longrightarrow> B (w\<lparr>corog := (corog w)\<lparr>require := required\<rparr>\<rparr>)" and "prev \<noteq> None" and "0 \<le> ret"
  shows "contract (books_but S X) (create_finish eng func_cache cb prev ctx required ret) C (books_but S X)"
proof -
  have cache: "contract (books_but S X) (try_upd (\<lambda>w. bind_res (free_cell func_cache (fcaches w)) (\<lambda>h. Inr (w\<lparr>fcaches := h\<rparr>))))
      (books_but S X) (books_but S X)"
    by (rule contract_try_upd) (auto intro: books_same)
  have "contract C (seq_c (try_upd (\<lambda>w. if exception (eg w) then Inl ProcessExit else Inr w)) (ret_c (ZBool True))) C (books_but S X)"
    by (rule contract_seq [OF contract_try_upd contract_pure(1)]) (auto split: if_splits)
  from contract_seq [OF keep_callback_books contract_seq [OF cache finish_rule [OF assms(1-4) this]]] assms(5)
  show ?thesis by (simp add: create_finish_def)
qed

lemma resume_finish_rule:
  assumes "contract (books_but S X) (c_coro_resume_parent ctx) B (books_but S X)" and "contract B (efree_ctx ctx) C (books_but S X)"
    and "\<And>w. B w \<Longrightarrow> B (w\<lparr>corog := (corog w)\<lparr>require := required\<rparr>\<rparr>)" and "prev \<noteq> None"
  shows "contract (books_but S X) (resume_finish ctx1 prev ctx required) C (books_but S X)"
  unfolding resume_finish_def
  by (rule contract_seq [OF efree_books(1) finish_rule [OF assms contract_pure(1)]])

text \<open>Inside a coroutine the context of the caller is on its page, and the caller runs on.\<close>

lemma running_require: "running_but S X w \<Longrightarrow> running_but S X (w\<lparr>corog := (corog w)\<lparr>require := r\<rparr>\<rparr>)"
  by (auto simp: running_but_def on_stack_def intro: books_same)

lemma nested_finish:
  assumes "a \<notin> X" and "prev \<noteq> None"
  shows "0 \<le> ret \<Longrightarrow> contract (books_but S X) (create_finish eng fc cb prev (Some a) required ret) (running_but S X) (books_but S X)"
    and "contract (books_but S X) (resume_finish c1 prev (Some a) required) (running_but S X) (books_but S X)"
  by (rule create_finish_rule resume_finish_rule, rule resume_parent_books(2) [OF assms(1)], rule ids.context_met(1),
      erule running_require, rule assms(2), assumption?)+

lemma coroutine_create_rule:
  fixes w :: "'z world"
  assumes engine: "stack_discipline eng prog S" and ex: "\<And>f. runs_books S X (ex f)"
    and cp: "checkPoint w \<noteq> None"
    and enter: "\<And>w' :: 'z world. vm_pages w' = vm_pages w \<Longrightarrow> cids w' = cids w \<Longrightarrow> checkPoint w' = checkPoint w \<Longrightarrow> corog w' = corog w \<Longrightarrow> ctxs w' = ctxs w
        \<Longrightarrow> cid_context_map w' = cid_context_map w \<Longrightarrow> eg w' = eg w \<Longrightarrow> books_but S X (scoped rv w')"
    and finish: "\<And>fc cb ret. 0 \<le> ret \<Longrightarrow>
        contract (books_but S X) (create_finish eng fc cb (checkPoint w) (Some (fresh (ctxs w))) (require (corog w)) ret) C (books_but S X)"
  shows "meets C (books_but S X) (coroutine_create eng sys ex func rv w)"
proof (cases "callable eng func (zend w)")
  case None
  then show ?thesis by (simp add: coroutine_create_def run_c emalloc_def Let_def)
next
  case (Some f)
  define wp where "wp = w\<lparr>fcaches := (fcaches w)\<lparr>fresh := Suc (fresh (fcaches w)), cells := (cells (fcaches w))(fresh (fcaches w) := Some f)\<rparr>,
      zvs := snd (emalloc func (zvs w)), zend := zval_add_ref eng func (zend w)\<rparr>"
  have eq: "coroutine_create eng sys ex func rv w = bind_o (c_coro_create eng sys ex f [] None None (scoped rv wp))
      (create_finish eng (Some (fresh (fcaches w))) (Some (fresh (zvs w))) (checkPoint w) (Some (fresh (ctxs w))) (require (corog w)))"
    using coroutine_create_unfold [OF Some cp, of sys ex rv] by (simp add: Let_def wp_def)
  have "books_but S X (scoped rv wp)" by (rule enter) (simp_all add: wp_def)
  then have run: "meets (books_but S X) (books_but S X) (c_coro_create eng sys ex f [] None None (scoped rv wp))"
    by (rule contractD [OF c_coro_create_books [OF engine ex]])
  show ?thesis
  proof (cases "c_coro_create eng sys ex f [] None None (scoped rv wp)")
    case (Ret s w1)
    with run have "books_but S X w1" by simp
    with contractD [OF finish] c_coro_create_status [OF Ret] Ret eq show ?thesis by fastforce
  qed (use eq run in simp_all)
qed

lemma coroutine_create_running:
  assumes "stack_discipline eng prog S" and "\<And>f. runs_books S X (ex f)"
  shows "contract (running_but S X) (coroutine_create eng sys ex func rv) (running_but S X) (books_but S X)"
proof (rule contractI)
  fix w :: "'a world"
  assume r: "running_but S X w"
  then have cp: "checkPoint w \<noteq> None" using books_checkPoint books_parts(3) by fastforce
  show "meets (running_but S X) (books_but S X) (coroutine_create eng sys ex func rv w)"
  proof (rule coroutine_create_rule [OF assms cp])
    show "books_but S X (scoped rv w')" if "vm_pages w' = vm_pages w" "cids w' = cids w" "checkPoint w' = checkPoint w" "corog w' = corog w"
        "ctxs w' = ctxs w" "cid_context_map w' = cid_context_map w" "eg w' = eg w" for w' :: "'a world"
      by (rule scoped_running(1) [OF ids.frame [OF r]]) (use that in simp_all)
  qed (rule nested_finish(1) [OF scoped_running(2) [OF r] cp])
qed

lemma coro_reenter_running:
  assumes "stack_discipline eng prog S" and "ctx = Some a" and "a \<notin> X"
  shows "contract (books_but S X) (coro_reenter eng ctx retval) (running_but S X) (books_but S X)"
proof (rule contract_calm [OF _ coro_reenter_calm])
  fix w :: "'a world" and f w'
  assume b: "books_but S X w" and e: "coro_reenter eng ctx retval w = Ret f w'"
  then obtain x where ctx: "cells (ctxs w) a = Some (Some x)"
    by (auto simp: assms(2) coro_reenter_def run_c load_ctx_def try_c_def bind_o_Ret_iff load_Inr_iff split: sum.splits option.splits)
  from e have e': "coro_reenter eng (Some a) retval w = Ret f w'" by (simp add: assms(2))
  note sw = coro_reenter_switches [OF e' ctx]
  then obtain cur e1 z1 e2 z2 where rel: "release_frame eng cur e1 z1 = (e2, z2)" "stack_regs e1 = ctx_regs x"
      "stack_regs (eg w') = stack_regs e2" by blast
  have "S (stack_regs (eg w')) b" if "S (ctx_regs x) b" for b
    using stack_disciplineD(3) [OF assms(1) rel(1)] that unfolding rel(2,3) .
  with sw books_ctx [OF b ctx assms(3)] have "on_stack S w'" by (simp add: on_stack_def ctx_on_stack_def)
  moreover have "books_but S X w'" by (rule books_same [OF b]) (use sw in simp_all)
  ultimately show "running_but S X w'" by (simp add: running_but_def)
qed

lemma c_coro_resume_books:
  assumes engine: "stack_discipline eng prog S" and ex: "\<And>f. runs_books S X (ex f)" and a: "a \<notin> X"
  shows "contract (books_but S X) (c_coro_resume eng ex (Some a) retval) (books_but S X) (books_but S X)"
proof -
  have "contract (books_but S X) (\<lambda>w. if s = CORO_END \<and> exception (eg w)
       then (case retval of None \<Rightarrow> Fault NullDeref | Some z \<Rightarrow> Fault ProcessExit) else Ret s w) (books_but S X) (books_but S X)" for s
    by (rule contractI) (simp split: option.splits)
  with contract_bind [OF coro_reenter_running [OF engine refl a] coro_run_books [OF ex]] show ?thesis
    unfolding c_coro_resume_def by (rule contract_bind)
qed

lemma resume_rule:
  assumes engine: "stack_discipline eng prog S" and ex: "\<And>f. runs_books S X (ex f)"
    and w: "C w" and enter: "books_but S X (scoped rv w)"
    and finish: "\<And>c1. contract (books_but S X) (resume_finish c1 (checkPoint w) (Some (fresh (ctxs w))) (require (corog w))) C (books_but S X)"
  shows "meets C (books_but S X) (resume eng ex arg rv w)"
proof (cases "parse_long eng arg")
  case None
  with w show ?thesis by (simp add: resume_def run_c)
next
  case (Some n)
  show ?thesis
  proof (cases "cid_in_range (to_cint n) \<and> cid_context_map w (to_cint n) \<noteq> None")
    case False
    with w Some show ?thesis by (auto simp: resume_def run_c try_c_def)
  next
    case True
    then obtain a where a: "cid_in_range (to_cint n)" "cid_context_map w (to_cint n) = Some a" by blast
    have eq: "resume eng ex arg rv w = bind_o (c_coro_resume eng ex (Some a) None (scoped rv w))
        (\<lambda>ret. resume_finish (Some a) (checkPoint w) (Some (fresh (ctxs w))) (require (corog w)))"
      using Some a unfolding resume_def scope_enter_require by (simp add: run_c)
    have "a \<notin> X" using books_parked [OF enter, of "to_cint n" a] a(2) by (simp add: scoped_def)
    from meets_bind [OF contractD [OF c_coro_resume_books [OF engine ex this] enter] contractD [OF finish]]
    show ?thesis unfolding eq .
  qed
qed

lemma resume_running:
  assumes "stack_discipline eng prog S" and "\<And>f. runs_books S X (ex f)"
  shows "contract (running_but S X) (resume eng ex arg rv) (running_but S X) (books_but S X)"
proof (rule contractI)
  fix w :: "'a world"
  assume r: "running_but S X w"
  then have "checkPoint w \<noteq> None" using books_checkPoint books_parts(3) by fastforce
  note nested_finish(2) [OF scoped_running(2) [OF r] this]
  then show "meets (running_but S X) (books_but S X) (resume eng ex arg rv w)"
    by (rule resume_rule [where X = X and C = "running_but S X", OF assms r scoped_running(1) [OF r]])
qed

lemma running_registers: "running_but S X w \<Longrightarrow> (\<And>a. S (stack_regs (eg w)) a \<Longrightarrow> S (stack_regs e) a) \<Longrightarrow> running_but S X (w\<lparr>eg := e, zend := z\<rparr>)"
  unfolding running_but_def on_stack_def by (auto intro: books_same)

lemma exec_running:
  assumes engine: "stack_discipline eng prog S"
  shows "runs_books S X (exec eng sys prog n f)"
proof (rule contract_exec)
  show "contract (running_but S X) (api eng sys ex c rv) (running_but S X) (books_but S X)" if "\<And>f. runs_books S X (ex f)" for ex c rv
    using that unfolding api_def
    by (cases c) (simp_all add: coroutine_create_running [OF engine] resume_running [OF engine] ids.methods_met)
  show "running_but S X (w\<lparr>eg := e, zend := z\<rparr>)" if "running_but S X w" "next_call prog f (eg w) (zend w) = (Some c, e, z)"
    for w :: "'a world" and f c e z
    using running_registers [OF that(1)] stack_disciplineD(4) [OF engine that(2)] by blast
  show "running_but S X (w\<lparr>eg := e, zend := z\<rparr>)" if "running_but S X w" "after_call prog f v (eg w) (zend w) = (e, z)"
    for w :: "'a world" and f v e z
    using running_registers [OF that(1)] stack_disciplineD(5) [OF engine that(2)] by blast
  show "ended_but S X (w\<lparr>eg := e, zend := z\<rparr>)" if "running_but S X w" "next_call prog f (eg w) (zend w) = (None, e, z)"
    for w :: "'a world" and f e z
    using that stack_disciplineD(6) [OF engine that(2)] unfolding ended_but_def running_but_def on_page_def on_stack_def
    by (auto intro: books_same)
qed

section \<open>Properties\<close>

text \<open>C3: for every engine that keeps the VM stack as a stack (it may extend it as it likes) and all PHP
  code that does not run the event loop inside a coroutine, however coroutines create, resume and wait
  for each other and wherever they stop, the books stay right: every live coroutine has an id that is
  in use and that no other live coroutine has (or the \<open>-1\<close> of an exhausted allocator), the free count
  of the allocator matches its bitmap, \<open>coro_num\<close> is the number of live coroutines, and every saved
  context is on the VM stack of its task. When the code returns, the VM stack is cut back to the page
  of the current coroutine, the one \<open>coro_close\<close> frees.\<close>

theorem coroutine_books:
  assumes "stack_discipline eng prog S" and "running S w"
  shows "case exec eng sys prog n f w of
      Ret x w' \<Rightarrow> books S w' \<and> on_page w'
    | Jump t w' \<Rightarrow> books S w'
    | _ \<Rightarrow> True"
  using contractD [OF exec_running [OF assms(1)] assms(2), of sys n f]
  by (cases "exec eng sys prog n f w") (simp_all add: ended_but_def)

text \<open>The small engine never extends the stack.\<close>

definition demo_stack :: "ptr \<times> vmpos \<times> vmpos \<Rightarrow> addr \<Rightarrow> bool" where
  "demo_stack r a \<longleftrightarrow> fst r = Some a"

lemma demo_discipline: "stack_discipline (demo_engine fs b) demo_program demo_stack"
  by (auto simp: stack_discipline_def demo_stack_def demo_engine_def demo_program_def split: list.splits)

text \<open>The same programs on an engine that puts a page on the stack for every call of the extension.\<close>

definition extending_program :: "demo program" where
  "extending_program = demo_program\<lparr>next_call := (\<lambda>f e z. case next_call demo_program f e z of
       (Some c, e', z') \<Rightarrow> (Some c, e'\<lparr>vm_stack := map_option Suc (vm_stack e')\<rparr>, z')
     | (None, e', z') \<Rightarrow> (None, e'\<lparr>vm_stack := map_option fst (vm_stack_end e')\<rparr>, z'))\<rparr>"

definition extending_stack :: "ptr \<times> vmpos \<times> vmpos \<Rightarrow> addr \<Rightarrow> bool" where
  "extending_stack r a \<longleftrightarrow> map_option fst (snd (snd r)) = Some a"

lemma extending_discipline: "stack_discipline (demo_engine fs b) extending_program extending_stack"
  by (auto simp: stack_discipline_def extending_stack_def extending_program_def demo_engine_def demo_program_def split: list.splits)

lemma demo_running: "running extending_stack (demo_coro calls)"
proof -
  have "coro_ids (demo_coro calls) = (\<lambda>_. None)(1 := Some 1)"
    by (auto simp: coro_ids_def demo_defs fun_eq_iff)
  moreover have "cid_inv (cids (demo_coro calls))" "used (cids (demo_coro calls)) = {1}"
    using demo_ids by (simp_all add: demo_coro_def)
  ultimately have "books extending_stack (demo_coro calls)"
    unfolding books_defs by (simp add: demo_coro_def demo_ready_def demo_world_def wf_heap_def empty_heap_def parked_def)
  moreover have "on_stack extending_stack (demo_coro calls)" by (simp add: on_stack_def extending_stack_def demo_coro_def)
  ultimately show ?thesis by (simp add: running_but_def)
qed

theorem coroutine_books_witness:
  "running extending_stack (demo_coro [Yield])
   \<and> (\<exists>w'. exec (demo_engine (\<lambda>_. []) False) (demo_system 9) extending_program 1 1 (demo_coro [Yield]) = Jump 0 w' \<and> books extending_stack w')"
proof -
  have "\<exists>w'. exec (demo_engine (\<lambda>_. []) False) (demo_system 9) extending_program 1 1 (demo_coro [Yield]) = Jump 0 w'"
    by (simp add: extending_program_def demo_defs api_def yield_def emalloc_save run_c saved_def load_task_def task_cell_def sizeof_task_def
        try_upd_def cid_in_range_def coro_yield_def longjmp_c_def)
  then show ?thesis
    using demo_running coroutine_books [OF extending_discipline demo_running, of "\<lambda>_. []" False "demo_system 9" 1 1 "[Yield]"] by auto
qed

end
