(* ===== verification/Sessions.thy ===== *)
theory Sessions
  imports Ids Invariants
begin

text \<open>
  The books over a whole request: the script calls the functions of the extension and runs the event
  loop, the event loop runs coroutines, and coroutines run other coroutines (but no event loop). After an event loop the
  script is left with the task of the coroutine that ran last as \<open>COROG.current_coro\<close>, with the
  registers of the main stack: what it then saves of itself is no context of a coroutine, and the
  books hold because nothing ever resumes it (\<open>books_but\<close>).
\<close>

section \<open>Definitions\<close>

text \<open>A process in which no coroutine was ever created.\<close>

definition fresh_process :: "'z world \<Rightarrow> bool" where
  "fresh_process w \<longleftrightarrow> wf_heap (vm_pages w) \<and> (\<forall>a. coro_ids w a = None) \<and> cid_inv (cids w) \<and> parked w = {}
     \<and> (\<forall>p. cells (ctxs w) p = None)"

text \<open>
  The states of a script between its calls. The script may call everything in the tables of the
  extension, coroutines everything but the event loop. Between two calls the engine changes its own
  state as it likes.
\<close>

inductive main_session :: "'z engine \<Rightarrow> 'z system \<Rightarrow> 'z pdo_host \<Rightarrow> 'z program \<Rightarrow> 'z world \<Rightarrow> bool"
  for eng sys host prog where
  init: "fresh_process w \<Longrightarrow> coro_init sys w = Ret u w' \<Longrightarrow> main_session eng sys host prog w'"
| call: "main_session eng sys host prog w \<Longrightarrow> request_api eng sys host (exec eng sys prog n) k c rv w = Ret v w'
    \<Longrightarrow> main_session eng sys host prog w'"
| engine: "main_session eng sys host prog w \<Longrightarrow> main_session eng sys host prog (w\<lparr>eg := e, zend := z\<rparr>)"

section \<open>The script\<close>

lemma coro_init_books:
  assumes "fresh_process w" and "coro_init sys w = Ret u w'"
  shows "books S w'"
proof -
  have w': "vm_pages w' = vm_pages w" "cids w' = cids w" "ctxs w' = ctxs w" "cid_context_map w' = cid_context_map w"
    "checkPoint w' \<noteq> None" "coro_num (corog w') = 0"
    using assms(2) by (auto simp: coro_init_def run_c emalloc_def Let_def split: prod.splits)
  have "coro_ids w' = (\<lambda>_. None)" using coro_ids_pages [OF w'(1)] assms(1) by (auto simp: fresh_process_def)
  then show ?thesis
    using assms(1) w' by (simp add: books_defs fresh_process_def parked_def)
qed

text \<open>A call that jumps out of the script does not come back to it.\<close>

lemma contract_jumps: "contract A m B E \<Longrightarrow> contract A m B (\<lambda>_. True)"
  by (auto simp: contract_def meets_def split: outcome.splits)

interpretation script: waiting_contract "books S" "\<lambda>_. True" for S
proof
  fix w w' :: "'a world" and ctx h
  show "books S w \<Longrightarrow> eg w' = eg w \<Longrightarrow> corog w' = corog w \<Longrightarrow> checkPoint w' = checkPoint w \<Longrightarrow> vm_pages w' = vm_pages w
      \<Longrightarrow> ctxs w' = ctxs w \<Longrightarrow> cids w' = cids w \<Longrightarrow> cid_context_map w' = cid_context_map w \<Longrightarrow> books S w'"
    by (rule books_same) simp_all
  show "books S w \<Longrightarrow> books S (w\<lparr>ctxs := snd (emalloc None (ctxs w))\<rparr>)"
    by (rule books_ctxs [where X = "{}"]) (auto simp: emalloc_def split: if_splits)
  show "books S w \<Longrightarrow> free_cell ctx (ctxs w) = Inr h \<Longrightarrow> books S (w\<lparr>ctxs := h\<rparr>)"
    by (rule books_ctxs [where X = "{}"]) (auto simp: free_cell_def split: if_splits option.splits)
qed simp_all

text \<open>The context of the script, which may not be on the page of the task it names, is \<open>a\<close>.\<close>

lemma script_finish:
  assumes "prev \<noteq> None"
  shows "0 \<le> ret \<Longrightarrow> contract (books_but S {a}) (create_finish eng fc cb prev (Some a) required ret) (books S) (books_but S {a})"
    and "contract (books_but S {a}) (resume_finish c1 prev (Some a) required) (books S) (books_but S {a})"
proof -
  have req: "books_but S {a} w \<Longrightarrow> books_but S {a} (w\<lparr>corog := (corog w)\<lparr>require := required\<rparr>\<rparr>)" for w :: "'b world"
    by (erule books_same) simp_all
  show "0 \<le> ret \<Longrightarrow> contract (books_but S {a}) (create_finish eng fc cb prev (Some a) required ret) (books S) (books_but S {a})"
    by (rule create_finish_rule [OF resume_parent_books(1) efree_books(3) _ assms]) (auto intro: books_same)
  show "contract (books_but S {a}) (resume_finish c1 prev (Some a) required) (books S) (books_but S {a})"
    by (rule resume_finish_rule [OF resume_parent_books(1) efree_books(3) _ assms]) (auto intro: books_same)
qed

lemma script_scoped:
  assumes "books S w"
  shows "books_but S {fresh (ctxs w)} (scoped rv w)"
proof (rule scoped_ok [OF assms])
  show "{fresh (ctxs w)} \<inter> parked w = {}" using assms by (auto simp: books_defs)
qed simp_all

lemma script_create:
  assumes "stack_discipline eng prog S" and ex: "\<And>X f. runs_books S X (ex f)"
  shows "contract (books S) (coroutine_create eng sys ex func rv) (books S) (\<lambda>_. True)"
proof (rule contractI)
  fix w :: "'a world"
  assume b: "books S w"
  then have cp: "checkPoint w \<noteq> None" using books_checkPoint by fastforce
  have "meets (books S) (books_but S {fresh (ctxs w)}) (coroutine_create eng sys ex func rv w)"
  proof (rule coroutine_create_rule [OF assms(1) ex cp _ script_finish(1) [OF cp]])
    show "books_but S {fresh (ctxs w)} (scoped rv w')" if "vm_pages w' = vm_pages w" "cids w' = cids w" "checkPoint w' = checkPoint w"
        "corog w' = corog w" "ctxs w' = ctxs w" "cid_context_map w' = cid_context_map w" "eg w' = eg w" for w' :: "'a world"
      using script_scoped [OF script.frame [OF b], of w'] that by simp
  qed
  then show "meets (books S) (\<lambda>_. True) (coroutine_create eng sys ex func rv w)" by (auto simp: meets_def split: outcome.splits)
qed

lemma script_resume:
  assumes "stack_discipline eng prog S" and ex: "\<And>X f. runs_books S X (ex f)"
  shows "contract (books S) (resume eng ex arg rv) (books S) (\<lambda>_. True)"
proof (rule contractI)
  fix w :: "'a world"
  assume b: "books S w"
  then have "checkPoint w \<noteq> None" using books_checkPoint by fastforce
  then have "meets (books S) (books_but S {fresh (ctxs w)}) (resume eng ex arg rv w)"
    by (intro resume_rule [where C = "books S" and X = "{fresh (ctxs w)}", OF assms(1) ex b script_scoped [OF b]] script_finish(2))
  then show "meets (books S) (\<lambda>_. True) (resume eng ex arg rv w)" by (auto simp: meets_def split: outcome.splits)
qed

lemma script_api:
  assumes "stack_discipline eng prog S" and "\<And>X f. runs_books S X (ex f)"
  shows "contract (books S) (api eng sys ex c rv) (books S) (\<lambda>_. True)"
  unfolding api_def
  by (cases c) (simp_all add: script_create [OF assms] script_resume [OF assms] script.methods_met)

section \<open>The event loop\<close>

lemma delayed_call_books: "contract (books S) (delayed_call eng wrap v) (books S) E"
proof (rule contract_calm [OF _ calm_delayed])
  fix w :: "'a world" and x w'
  assume "books S w" and "delayed_call eng wrap v w = Ret x w'"
  with delayed_call_other [of eng wrap v w x w'] show "books S w'"
    by (auto simp: same_but_def intro: books_same)
qed

lemma state_books:
  assumes "\<And>w x w'. m w = Ret x w' \<Longrightarrow> eg w' = eg w \<and> corog w' = corog w \<and> checkPoint w' = checkPoint w
      \<and> vm_pages w' = vm_pages w \<and> ctxs w' = ctxs w \<and> cids w' = cids w \<and> cid_context_map w' = cid_context_map w" and "calm m"
  shows "contract (books S) m (books S) E"
  by (rule contract_calm [OF _ assms(2)]) (drule assms(1), erule books_same, simp_all)

lemma invoke_books:
  assumes "stack_discipline eng prog S" and ex: "\<And>X f. runs_books S X (ex f)"
  shows "contract (books S) (aio_invoke eng wrap ex ev) (books S) (books S)" and "contract (books S) (invoke_fd eng wrap ex fd) (books S) (books S)"
proof -
  have resume: "contract (books S) (if ctx = None then ret_c () else bind_c (c_coro_resume eng ex ctx (Some result)) (\<lambda>_. efree_ctx ctx)) (books S) (books S)"
    for ctx result
    by (cases ctx)
      (simp_all add: contract_pure contract_bind [OF c_coro_resume_books [OF assms(1) ex] efree_books(1)])
  have free: "contract (books S) (rg_c (aio_event_free ev)) (books S) (books S)" for ev by (rule contract_rg) (erule books_same, simp_all)
  have drop: "contract (books S) (upd_c (\<lambda>w. w\<lparr>zend := zval_ptr_dtor eng result (zend w)\<rparr>)) (books S) (books S)" for result
    by (rule contract_upd) (erule books_same, simp_all)
  show inv: "contract (books S) (aio_invoke eng wrap ex ev) (books S) (books S)" for ev
    unfolding aio_invoke_def
    by (intro contract_if contract_pure(1) contract_bind [OF contract_pure(3)] contract_bind [OF delayed_call_books]
        contract_bind [OF free] contract_seq [OF resume] drop)
  show "contract (books S) (invoke_fd eng wrap ex fd) (books S) (books S)"
    unfolding invoke_fd_def by (intro contract_bind [OF contract_pure(3)] inv)
qed

lemma exec_books: "stack_discipline eng prog S \<Longrightarrow> runs_books S X (exec eng sys prog n f)"
  by (rule exec_running)

text \<open>The event loop, for engines that keep the VM stack as a stack.\<close>

interpretation books_loop: loop_contract "\<lambda>w. stack_discipline eng prog S \<longrightarrow> books S w" "\<lambda>w. stack_discipline eng prog S \<longrightarrow> books S w" eng sys wrap "exec eng sys prog n"
  for S eng sys wrap prog n
proof
  show "contract (\<lambda>w. stack_discipline eng prog S \<longrightarrow> books S w) (invoke_fd eng wrap (exec eng sys prog n) fd) (\<lambda>w. stack_discipline eng prog S \<longrightarrow> books S w)
      (\<lambda>w. stack_discipline eng prog S \<longrightarrow> books S w)" for fd
  proof (cases "stack_discipline eng prog S")
    case True
    with invoke_books(2) [OF True exec_running [OF True]] show ?thesis by simp
  qed (simp add: contract_def meets_def split: outcome.splits)
qed (auto intro: books_same)

lemma event_loop_books:
  "stack_discipline eng prog S \<Longrightarrow> contract (books S) (event_loop eng sys wrap (exec eng sys prog n) k) (books S) (\<lambda>_. True)"
  using books_loop.event_loop_met [where S = S and eng = eng and prog = prog and sys = sys and wrap = wrap and n = k and na = n] by (auto intro: contract_jumps)

lemma request_books:
  assumes "stack_discipline eng prog S"
  shows "contract (books S) (request_api eng sys host (exec eng sys prog n) k c rv) (books S) (\<lambda>_. True)"
proof -
  have destroy: "contract (books S) (upd_c (\<lambda>w. w\<lparr>zend := f (zend w)\<rparr>)) (books S) (\<lambda>_. True)" for f :: "'a \<Rightarrow> 'a"
    by (rule contract_upd) (erule books_same, simp_all)
  have "contract (books S) (co_pdo_construct eng new set args) (books S) (\<lambda>_. True)" for new set args
    unfolding co_pdo_construct_def
    by (intro keep_rules(1,2,7) contract_pure script.get_arguments_met destroy;
        ((rule script.try_state_met; auto; fail) | (rule script.state_met; auto simp: calm_def split: prod.splits; fail))?)
  then show ?thesis
    using script_api [OF assms exec_running [OF assms]] event_loop_books [OF assms] destroy contract_seq [OF destroy contract_pure(1)]
    unfolding request_api_def co_pdo_destruct_def co_pdo_statement_destruct_def
    by (cases c) simp_all
qed

section \<open>Properties\<close>

text \<open>C4: for every engine that keeps the VM stack as a stack, the books are right in every state of a
  request: the script calls what it likes in any order, event loops included, and its coroutines call
  everything but the event loop. Every live coroutine has an id that is in use and that no other live
  coroutine has (or the \<open>-1\<close> of an exhausted allocator), \<open>coro_num\<close> is the number of live coroutines,
  and every saved context is on the VM stack of its task.\<close>

theorem session_books:
  assumes "stack_discipline eng prog S" and "main_session eng sys host prog w"
  shows "books S w"
  using assms(2)
proof (induction rule: main_session.induct)
  case (init w u w')
  then show ?case by (rule coro_init_books)
next
  case (call w n k c rv v w')
  from contract_Ret [OF request_books [OF assms(1)] call.IH call.hyps(2)] show ?case .
next
  case (engine w e z)
  show ?case by (rule books_same [OF engine.IH]) simp_all
qed

lemma demo_fresh: "fresh_process (demo_world main)"
  by (simp add: fresh_process_def coro_ids_def demo_world_def parked_def empty_heap_def wf_heap_def)

theorem session_books_witness:
  "\<exists>w. event_loop (demo_engine (\<lambda>_. []) False) (demo_system 9) Pair
      (exec (demo_engine (\<lambda>_. []) False) (demo_system 9) demo_program 1) 7 (demo_ready []) = Ret ZNull w \<and> books demo_stack w"
proof -
  obtain w where w: "event_loop (demo_engine (\<lambda>_. []) False) (demo_system 9) Pair
      (exec (demo_engine (\<lambda>_. []) False) (demo_system 9) demo_program 1) 7 (demo_ready []) = Ret ZNull w"
    using demo_loop_returns by blast
  have "main_session (demo_engine (\<lambda>_. []) False) (demo_system 9) demo_host demo_program (demo_ready [])"
    by (rule main_session.init [OF demo_fresh]) (rule demo_init)
  then have "main_session (demo_engine (\<lambda>_. []) False) (demo_system 9) demo_host demo_program w"
    by (rule main_session.call [where c = EventLoop and n = 1 and k = 7 and rv = None and v = ZNull])
      (use w in \<open>simp add: request_api_def demo_host_def\<close>)
  from session_books [OF demo_discipline this] w show ?thesis by blast
qed

end
