(* ===== verification/Balance.thy ===== *)
theory Balance
  imports Ids
begin

text \<open>
  What creating a coroutine costs: when its function ends and has called nothing of the extension, everything that was
  allocated for it is free again when \<open>coroutine_create\<close> returns.
\<close>

section \<open>Definitions\<close>

text \<open>A call of function \<open>f\<close> with \<open>args\<close> ends without calling the extension and without an exception.\<close>

definition leaf :: "'z engine \<Rightarrow> 'z program \<Rightarrow> nat \<Rightarrow> zval list \<Rightarrow> bool" where
  "leaf eng prog f args \<longleftrightarrow> (\<forall>e z r call e1 z1 e2 z2.
     push_call_frame eng f (int (length args)) e z = (call, e1, z1) \<longrightarrow>
     init_execute_data eng call r (e1\<lparr>current_execute_data := None\<rparr>) (set_args eng call args z1) = (e2, z2) \<longrightarrow>
     (\<exists>e3 z3. next_call prog call e2 z2 = (None, e3, z3) \<and> exception e3 = exception e))"

text \<open>The memory of the extension, the ids and the registrations; the state of the engine may differ.\<close>

definition balanced :: "'z world \<Rightarrow> 'z world \<Rightarrow> bool" where
  "balanced w w' \<longleftrightarrow> cells (vm_pages w') = cells (vm_pages w) \<and> cells (zvs w') = cells (zvs w) \<and> cells (ctxs w') = cells (ctxs w)
     \<and> cells (jmps w') = cells (jmps w) \<and> cells (fcaches w') = cells (fcaches w)
     \<and> used (cids w') = used (cids w) \<and> cid_inv (cids w') \<and> coro_num (corog w') = coro_num (corog w)
     \<and> checkPoint w' = checkPoint w \<and> cid_context_map w' = cid_context_map w \<and> rg w' = rg w"

definition heaps_ok :: "'z world \<Rightarrow> bool" where
  "heaps_ok w \<longleftrightarrow> wf_heap (vm_pages w) \<and> wf_heap (zvs w) \<and> wf_heap (ctxs w) \<and> wf_heap (jmps w) \<and> wf_heap (fcaches w)"

section \<open>Lemmas\<close>

lemma coro_close_plain:
  assumes cl: "closable t p r w" and "task_function t = None"
  obtains m where "coro_close eng w = Ret () (closed p r m w)" and "used m = used (cids w) - {cid t}" and "cid_inv m"
proof -
  have c: "cid_inv (cids w)" "cid t \<in> used (cids w)" using cl by (simp_all add: closable_def)
  obtain m where m: "free_cidmap (cid t) (cids w) = Inr m" "used m = used (cids w) - {cid t}" "cid_inv m"
    using cm.release_ok [OF c] by blast
  have "coro_release eng (cid t) w = Ret () (closed p r m w)"
    by (rule close_rest) (use cl m in \<open>auto simp: closable_def\<close>)
  with cl assms(2) have "coro_close eng w = Ret () (closed p r m w)"
    by (simp add: coro_close_def coro_drop_def closable_def bind_c_run try_c_run seq_c_run ret_c_run)
  then show thesis using that m by blast
qed

text \<open>Running a leaf function in a new coroutine.\<close>

lemma create_leaf:
  assumes engine: "stack_discipline eng prog S" "leaf eng prog fci argv" "\<not> exception (eg w)" and cp: "checkPoint w = Some b" "cells (jmps w) b \<noteq> None"
    and ids: "cid_inv (cids w)" "nr_free (cids w) \<noteq> 0" and room: "coro_num (corog w) < max_coro_num (corog w)"
    and wf: "wf_heap (vm_pages w)" "wf_heap (zvs w)" and size: "88 \<le> uint (stack_size (corog w))"
  obtains w' where "c_coro_create eng sys (exec eng sys prog (Suc n)) fci argv post params w = Ret CORO_END w'"
    and "cells (vm_pages w') = cells (vm_pages w)" and "cells (zvs w') = cells (zvs w)" and "ctxs w' = ctxs w"
    and "cells (jmps w') = (cells (jmps w))(b := Some (Some (setjmps w)))" and "fcaches w' = fcaches w"
    and "used (cids w') = used (cids w)" and "cid_inv (cids w')" and "coro_num (corog w') = coro_num (corog w)"
    and "checkPoint w' = Some b" and "cid_context_map w' = cid_context_map w" and "rg w' = rg w"
    and "current_coro (corog w') = None" and "\<not> exception (eg w')"
proof -
  have "card (used (cids w)) < 32768"
    using ids unat_nr_free_zero card_used [of "cids w"] by fastforce
  then obtain c m where a: "alloc_cidmap (cids w) = Inr (c, m)" "c \<notin> used (cids w)" "used m = insert c (used (cids w))"
    "cid_inv m" using cm.alloc_ok [OF ids(1)] by auto
  let ?w = "w\<lparr>cids := m\<rparr>"
  obtain call w1 where e: "coro_enter eng sys fci argv post params c ?w = Ret call w1" and s: "started c post params ?w w1"
    using coro_enter_started [of ?w eng sys fci argv post params c] size by auto
  have create: "c_coro_create eng sys ex fci argv post params w = coro_run eng ex call w1" for ex
    using c_coro_create_alloc [OF a(1), of eng sys ex] e room by (simp add: not_le [symmetric])
  let ?p = "fresh (vm_pages w)" and ?r = "fresh (zvs w)"
  let ?s = "w1\<lparr>jmps := (jmps w1)\<lparr>cells := (cells (jmps w1))(b := Some (Some (setjmps w1)))\<rparr>, setjmps := Suc (setjmps w1)\<rparr>"
  obtain o1 e1 z1 where nc: "next_call prog call (eg w1) (zend w1) = (o1, e1, z1)" by (metis prod_cases3)
  have "88 \<le> uint (stack_size (corog ?w))" using size by simp
  from coro_enter_frame [OF e this] obtain e0 z0 where er:
      "push_call_frame eng fci (int (length argv)) (fresh_stack ?w) (zend ?w) = (call, e0, z0)"
      "init_execute_data eng call (fresh (zvs ?w)) (e0\<lparr>current_execute_data := None\<rparr>) (set_args eng call argv z0) = (eg w1, zend w1)"
      "fcaches w1 = fcaches ?w" by blast
  then have fc: "fcaches w1 = fcaches w" by simp
  from engine(2) [unfolded leaf_def, rule_format, OF er(1,2)] obtain e3 z3 where "next_call prog call (eg w1) (zend w1) = (None, e3, z3)" "exception e3 = exception (eg w)"
    by auto
  with nc engine(3) have leaf: "o1 = None" "\<not> exception e1" by simp_all
  let ?f = "?s\<lparr>eg := e1, zend := z1\<rparr>"
  have ex: "exec eng sys prog (Suc n) call ?s = Ret () ?f" using nc leaf(1) by simp
  have st1: "vm_stack e1 = Some ?p"
    using stack_disciplineD(6) [OF engine(1)] nc leaf(1) coro_enter_stack [OF engine(1) e] by simp
  obtain t where t: "load_task (current_coro (corog w1)) w1 = Inr t" "cid t = c" "task_function t = None"
    using started_task [OF s] size by auto
  have cl: "closable t ?p ?r ?f"
    using s t st1 a load_task_pages [of ?f w1] unfolding closable_def started_def by auto
  obtain m2 where cls: "coro_close eng ?f = Ret () (closed ?p ?r m2 ?f)" and m2: "used m2 = used m - {c}" "cid_inv m2"
    using coro_close_plain [OF cl t(3), of eng] s t(2) by (auto simp: started_def)
  let ?w' = "(closed ?p ?r m2 ?f)\<lparr>corog := (corog (closed ?p ?r m2 ?f))\<lparr>require := False\<rparr>\<rparr>"
  have cp1: "checkPoint w1 = Some b" "cells (jmps w1) b \<noteq> None" using s cp by (simp_all add: started_def)
  have run: "c_coro_create eng sys (exec eng sys prog (Suc n)) fci argv post params w = Ret CORO_END ?w'"
    unfolding create using ex cls by (simp add: coro_run_def bind_c_run setjmp_c_live [OF cp1] seq_c_run ret_c_run upd_c_run del: exec.simps)
  have new: "cells (vm_pages w) ?p = None" "cells (zvs w) ?r = None" using wf by simp_all
  have pages: "cells (vm_pages ?w') = cells (vm_pages w)" "cells (zvs ?w') = cells (zvs w)"
    using s new by (auto simp: closed_def started_def fun_eq_iff)
  show thesis
    by (rule that [OF run pages]) (use s fc m2 a cp leaf in \<open>auto simp: closed_def started_def\<close>)
qed

text \<open>The end of \<open>coroutine_create\<close> for a coroutine that has ended.\<close>

definition created :: "'z engine \<Rightarrow> addr \<Rightarrow> zval \<Rightarrow> addr \<Rightarrow> 'z world \<Rightarrow> 'z world" where
  "created eng fc func cb w = w\<lparr>zvs := (zvs w)\<lparr>cells := (cells (zvs w))(cb := None)\<rparr>, zend := zval_ptr_dtor eng func (zend w),
     fcaches := (fcaches w)\<lparr>cells := (cells (fcaches w))(fc := None)\<rparr>\<rparr>"

lemma create_finish_end:
  assumes "current_coro (corog w) = None" and "\<not> exception (eg w)" and "cells (zvs w) cb = Some func" and "cells (fcaches w) fc \<noteq> None"
    and "checkPoint w = Some b" and "cells (jmps w) b \<noteq> None" and "cells (ctxs w) x = Some (Some sc)"
  shows "create_finish eng (Some fc) (Some cb) cp (Some x) req CORO_END w = Ret (ZBool True) (left b cp x sc req (created eng fc func cb w))"
proof -
  have "create_finish eng (Some fc) (Some cb) cp (Some x) req CORO_END w =
    seq_c efree_checkpoint (seq_c (upd_c (\<lambda>w2. w2\<lparr>checkPoint := cp\<rparr>))
     (bind_c (c_coro_resume_parent (Some x)) (\<lambda>_.
     seq_c (upd_c (\<lambda>w2. w2\<lparr>corog := (corog w2)\<lparr>require := req\<rparr>\<rparr>))
     (seq_c (efree_ctx (Some x))
     (seq_c (try_upd (\<lambda>w. if exception (eg w) then Inl ProcessExit else Inr w))
     (ret_c (ZBool True))))))) (created eng fc func cb w)"
    using assms by (auto simp: create_finish_def seq_c_run keep_callback_def c_zval_free_def efree_zval_def try_upd_def created_def)
  also have "\<dots> = seq_c (try_upd (\<lambda>w. if exception (eg w) then Inl ProcessExit else Inr w)) (ret_c (ZBool True))
      (left b cp x sc req (created eng fc func cb w))"
    by (rule scope_leave) (use assms in \<open>simp_all add: created_def\<close>)
  also have "\<dots> = Ret (ZBool True) (left b cp x sc req (created eng fc func cb w))"
    using assms(2) by (simp add: seq_c_run try_upd_def left_def ret_c_run created_def)
  finally show ?thesis .
qed

section \<open>Properties\<close>

text \<open>C12: nothing leaks when a coroutine runs a function that calls nothing of the extension: for an
  engine that keeps the VM stack as a stack, and a function whose frames end without a call of the
  extension and without an exception (\<open>leaf\<close>), below the limit and with an id to give,
  \<open>coroutine_create\<close> returns \<open>TRUE\<close> and exactly the stack pages, values, contexts, jump buffers and
  function caches that were allocated before are allocated, with the contents they had, the same ids are
  in use, and the count of coroutines, the checkpoint, the parked contexts and the registrations are as
  they were.\<close>

theorem coroutine_create_balanced:
  assumes "stack_discipline eng prog S" and "callable eng func (zend w) = Some f" and "leaf eng prog f []" and "\<not> exception (eg w)"
    and "checkPoint w \<noteq> None" and "heaps_ok w" and "cid_inv (cids w)" and "nr_free (cids w) \<noteq> 0"
    and "coro_num (corog w) < max_coro_num (corog w)" and "88 \<le> uint (stack_size (corog w))"
  shows "\<exists>w'. coroutine_create eng sys (exec eng sys prog (Suc n)) func rv w = Ret (ZBool True) w' \<and> balanced w w'"
proof -
  let ?ex = "exec eng sys prog (Suc n)" and ?fc = "fresh (fcaches w)" and ?cb = "fresh (zvs w)"
  define wp where "wp = w\<lparr>fcaches := (fcaches w)\<lparr>fresh := Suc ?fc, cells := (cells (fcaches w))(?fc := Some f)\<rparr>,
      zvs := snd (emalloc func (zvs w)), zend := zval_add_ref eng func (zend w)\<rparr>"
  have eq: "coroutine_create eng sys ?ex func rv w = bind_o (c_coro_create eng sys ?ex f [] None None (scoped rv wp))
      (create_finish eng (Some ?fc) (Some ?cb) (checkPoint w) (Some (fresh (ctxs w))) (require (corog w)))"
    using coroutine_create_unfold [OF assms(2,5)] by (simp add: Let_def wp_def)
  let ?s = "scoped rv wp" and ?b = "fresh (jmps w)" and ?x = "fresh (ctxs w)"
  have s: "checkPoint ?s = Some ?b" "cells (jmps ?s) ?b \<noteq> None" "cells (jmps ?s) = (cells (jmps w))(?b := Some None)"
    "cells (ctxs ?s) = (cells (ctxs w))(?x := Some (Some (saved_ctx rv wp)))"
    "cells (zvs ?s) = (cells (zvs w))(?cb := Some func)" "cells (fcaches ?s) = (cells (fcaches w))(?fc := Some f)"
    by (simp_all add: scoped_def wp_def emalloc_def)
  have old: "cids ?s = cids w" "corog ?s = corog w" "vm_pages ?s = vm_pages w" "cid_context_map ?s = cid_context_map w" "rg ?s = rg w"
    by (simp_all add: wp_def)
  have wp: "cids wp = cids w" "corog wp = corog w" "vm_pages wp = vm_pages w" "cid_context_map wp = cid_context_map w" "rg wp = rg w"
    "cells (zvs wp) = (cells (zvs w))(?cb := Some func)" "cells (fcaches wp) = (cells (fcaches w))(?fc := Some f)"
    by (simp_all add: wp_def emalloc_def)
  have wf: "wf_heap (zvs ?s)" using assms(6) by (auto simp: heaps_ok_def wf_heap_def wp_def emalloc_def less_Suc_eq)
  have wf2: "wf_heap (vm_pages ?s)" using assms(6) unfolding old by (simp add: heaps_ok_def)
  obtain w1 where w1: "c_coro_create eng sys ?ex f [] None None ?s = Ret CORO_END w1"
    and c: "cells (vm_pages w1) = cells (vm_pages ?s)" "cells (zvs w1) = cells (zvs ?s)" "ctxs w1 = ctxs ?s"
      "cells (jmps w1) = (cells (jmps ?s))(?b := Some (Some (setjmps ?s)))" "fcaches w1 = fcaches ?s"
      "used (cids w1) = used (cids ?s)" "cid_inv (cids w1)" "coro_num (corog w1) = coro_num (corog ?s)"
      "checkPoint w1 = Some ?b" "cid_context_map w1 = cid_context_map ?s" "rg w1 = rg ?s"
      "current_coro (corog w1) = None" "\<not> exception (eg w1)"
    by (rule create_leaf [OF assms(1,3) _ s(1,2), of sys n None None]) (use assms(4,7-10) wf wf2 in \<open>simp_all add: old\<close>, simp_all add: wp_def)
  let ?w' = "left ?b (checkPoint w) ?x (saved_ctx rv wp) (require (corog w)) (created eng ?fc func ?cb w1)"
  have fin: "create_finish eng (Some ?fc) (Some ?cb) (checkPoint w) (Some ?x) (require (corog w)) CORO_END w1 = Ret (ZBool True) ?w'"
    by (rule create_finish_end) (use c s in simp_all)
  have new: "cells (zvs w) ?cb = None" "cells (ctxs w) ?x = None" "cells (jmps w) ?b = None" "cells (fcaches w) ?fc = None"
    using assms(6) by (simp_all add: heaps_ok_def)
  have "balanced w ?w'"
    unfolding balanced_def
    using c(1-11) new by (simp add: left_def created_def s wp fun_eq_iff)
  then show ?thesis using eq w1 fin by auto
qed

lemma demo_leaf: "leaf (demo_engine (\<lambda>_. []) False) demo_program f args"
  by (simp add: leaf_def demo_engine_def demo_program_def)

theorem coroutine_create_balanced_witness:
  "\<exists>w'. coroutine_create (demo_engine (\<lambda>_. []) False) (demo_system 9)
      (exec (demo_engine (\<lambda>_. []) False) (demo_system 9) demo_program (Suc 0)) (ZLong 1) None (demo_ready []) = Ret (ZBool True) w'
    \<and> cells (zvs w') 0 = None \<and> cells (vm_pages w') 1 = None \<and> used (cids w') = {}"
proof -
  let ?w = "demo_ready []"
  have "callable (demo_engine (\<lambda>_. []) False) (ZLong 1) (zend ?w) = Some 1" "\<not> exception (eg ?w)" "checkPoint ?w \<noteq> None"
    "heaps_ok ?w" "cid_inv (cids ?w)" "nr_free (cids ?w) \<noteq> 0" "coro_num (corog ?w) < max_coro_num (corog ?w)"
    "88 \<le> uint (stack_size (corog ?w))" "cells (zvs ?w) 0 = None" "cells (vm_pages ?w) 1 = None" "used (cids ?w) = {}"
    by (simp_all add: demo_defs heaps_ok_def wf_heap_def) (simp add: cidmap_init_def)
  with coroutine_create_balanced [OF demo_discipline this(1) demo_leaf this(2-8), of "demo_system 9" 0 None]
  show ?thesis by (auto simp: balanced_def)
qed

end
