(* ===== verification/Wakeup.thy ===== *)
theory Wakeup
  imports Invariants
begin

text \<open>
  Sleeping and waking: what \<open>sleep\<close> leaves behind, and the poll that finds its timer descriptor
  ready. The event loop frees the registration and executes the frame that called \<open>sleep\<close> at its
  next instruction, with the coroutine, the stack and the return value of before.
\<close>

section \<open>Lemmas\<close>

text \<open>The world in which a coroutine goes on that was saved in \<open>w\<close>, in the frame above \<open>cur\<close>, with
  \<open>res\<close> as the result of the call.\<close>

definition awake :: "'z engine \<Rightarrow> ptr \<Rightarrow> 'z world \<Rightarrow> addr \<Rightarrow> addr \<Rightarrow> zval \<Rightarrow> 'z world \<Rightarrow> 'z world" where
  "awake eng rv w cur f res w2 =
     (let (e, z) = release_frame eng cur ((eg w2)\<lparr>vm_stack := vm_stack (eg w), vm_stack_top := vm_stack_top (eg w),
            vm_stack_end := vm_stack_end (eg w)\<rparr>) (zend w2)
      in w2\<lparr>eg := e\<lparr>current_execute_data := Some f\<rparr>,
            zend := opline_inc eng f (if result_used eng f z then zval_copy eng (the rv) res z else z),
            corog := (corog w2)\<lparr>current_coro := current_coro (corog w), require := True,
              allocated_return_value_ptr := allocated_return_value_ptr (corog w)\<rparr>\<rparr>)"

definition wakes_at :: "'z engine \<Rightarrow> ptr \<Rightarrow> 'z world \<Rightarrow> addr \<Rightarrow> addr \<Rightarrow> 'z world \<Rightarrow> bool" where
  "wakes_at eng rv w cur f w2 \<longleftrightarrow>
     (let (e, z) = release_frame eng cur ((eg w2)\<lparr>vm_stack := vm_stack (eg w), vm_stack_top := vm_stack_top (eg w),
            vm_stack_end := vm_stack_end (eg w)\<rparr>) (zend w2)
      in prev_execute_data eng cur z = Some f \<and> (result_used eng f z \<longrightarrow> rv \<noteq> None))"

lemma coro_reenter_saved:
  assumes "cells (ctxs w2) a = Some (Some (saved_ctx rv w))" and "current_execute_data (eg w) = Some cur"
    and "wakes_at eng rv w cur f w2"
  shows "coro_reenter eng (Some a) (Some res) w2 = Ret f (awake eng rv w cur f res w2)"
  using assms
  by (auto simp: coro_reenter_def run_c load_ctx_def saved_ctx_def wakes_at_def awake_def Let_def split: prod.splits)

text \<open>The event handler on an event without a delayed call, and what it does after the resumption.\<close>

definition after_resume :: "'z engine \<Rightarrow> addr \<Rightarrow> addr \<Rightarrow> int \<Rightarrow> ('z, unit) code" where
  "after_resume eng c ev ret = seq_c (efree_ctx (Some c)) (bind_c (try_c (\<lambda>w. load (Some ev) (evs (rg w)))) (\<lambda>v1.
     if function_name v1 \<noteq> None then upd_c (\<lambda>w. w\<lparr>zend := zval_ptr_dtor eng ZNull (zend w)\<rparr>) else ret_c ()))"

lemma aio_invoke_plain:
  assumes inv: "reg_inv (rg w)" and fd: "fd_in_range fd" and ev: "event_of (rg w) fd = Some (v, e)"
    and v: "php_context v = Some c" "object v = None" "function_name v = None"
  obtains r' a where "invoke_fd eng wrap ex fd w = bind_o (c_coro_resume eng ex (Some c) (Some ZNull) (w\<lparr>rg := r'\<rparr>)) (after_resume eng c a)"
    and "reg_inv r'" and "waiting r' fd = None" and "interest (kern r') fd = None" and "touch (rg w) r' fd" and "cells (evs r') a \<noteq> None"
    and "cells (argvs r') = (\<lambda>p. if holds_argv (rg w) fd p then None else cells (argvs (rg w)) p)"
    and "cells (timers r') = (\<lambda>p. if holds_timer (rg w) fd p then None else cells (timers (rg w)) p)"
    and "timeout_fd_link r' = timeout_fd_link (rg w)" and "elems r' = elems (rg w)"
proof -
  from ev obtain a where a: "aio_event_fds (rg w) fd = Some a" "cells (evs (rg w)) a = Some v" by (rule event_of_SomeE)
  obtain r' where r': "aio_event_free (aio_event_fds (rg w) fd) (rg w) = Inr (C_OK, r')" "reg_inv r'" "touch (rg w) r' fd"
    "waiting r' fd = None" "interest (kern r') fd = None" "aio_event_fds r' = aio_event_fds (rg w)"
    "cells (argvs r') = (\<lambda>p. if holds_argv (rg w) fd p then None else cells (argvs (rg w)) p)"
    "cells (timers r') = (\<lambda>p. if holds_timer (rg w) fd p then None else cells (timers (rg w)) p)"
    "timeout_fd_link r' = timeout_fd_link (rg w)" "elems r' = elems (rg w)" by (rule aio_event_free_slot [OF inv fd])
  have "aio_invoke eng wrap ex (Some a) w = bind_o (c_coro_resume eng ex (Some c) (Some ZNull) (w\<lparr>rg := r'\<rparr>)) (after_resume eng c a)"
    using a v r'(1)
    by (simp add: aio_invoke_def bind_c_run seq_c_run try_c_run rg_c_run bind_o_assoc delayed_call_def ret_c_run)
      (intro arg_cong [where f = "bind_o _"] ext, simp add: after_resume_def seq_c_run)
  moreover have "invoke_fd eng wrap ex fd w = aio_invoke eng wrap ex (Some a) w"
    using fd a(1) by (simp add: invoke_fd_def run_c event_slot_def)
  moreover have "cells (evs r') a \<noteq> None"
    using reg_invD [OF r'(2) fd] a(1) r'(6) by (auto elim: slot_ok_cases)
  ultimately show thesis using that [OF _ r'(2,4,5,3) _ r'(7-10)] by auto
qed

text \<open>What \<open>sleep\<close> leaves behind.\<close>

lemma sleep_arms:
  assumes arg: "parse_long eng arg = Some n" "0 < n"
    and os: "sys_timerfd_create sys (zend w) = (tfd, z)" "0 \<le> tfd" "sys_clock_gettime sys z = (Some (sec, nsec), z1)"
      "time_add sec n = Inr due"
    and mem: "\<not> oom (timers (rg w)) (fresh (timers (rg w)))" "slot_room (rg w) tfd"
    and reg: "registry_ok (rg w)" "fd_in_range tfd" "waiting (rg w) tfd = None"
    and k: "tok_at w (checkPoint w) = Some k"
  obtains w' v where "sleep eng sys arg rv w = Jump k w'" and "registry_ok (rg w')"
    and "cells (ctxs w') (fresh (ctxs w)) = Some (Some (saved_ctx rv w))"
    and "event_of (rg w') tfd = Some (v, \<lparr>ep_events = EPOLLIN, ep_data_fd = tfd\<rparr>)"
    and "php_context v = Some (fresh (ctxs w))" and "object v = None" and "function_name v = None"
    and "interest (kern (rg w')) tfd = Some EPOLLIN" and "zend w' = z1"
proof -
  let ?p = "fresh (timers (rg w))"
  define spec where "spec = \<lparr>value_sec = 0, value_nsec = 0, interval_sec = 0, interval_nsec = 0\<rparr>"
  define h where "h = (timers (rg w))\<lparr>cells := (cells (timers (rg w)))(?p := Some spec), fresh := Suc ?p\<rparr>"
  have ml: "malloc spec (timers (rg w)) = (Some ?p, h)" using mem(1) by (simp add: malloc_def h_def)
  note new = registry_new_timer [OF reg(1) ml]
  define kn where "kn = (kern (rg w))\<lparr>can_poll := (can_poll (kern (rg w)))(tfd := True),
             interest := (interest (kern (rg w)))(tfd := None), fl_flags := (fl_flags (kern (rg w)))(tfd := Some 2)\<rparr>"
  define its where "its = spec\<lparr>value_sec := due\<rparr>"
  define r where "r = (rg w)\<lparr>kern := kn, timers := h\<lparr>cells := (cells h)(?p := Some its)\<rparr>\<rparr>"
  have fewer: "fewer_polled (kern ((rg w)\<lparr>timers := h\<rparr>)) kn" by (simp add: fewer_polled_def kn_def)
  have live: "cells h ?p = Some spec" by (simp add: h_def)
  have r: "registry_ok r" "unowned r None (Some ?p)"
    using registry_set_timer(2) [OF new fewer refl, of its] live by (simp_all add: r_def)
  have inv: "reg_inv r" using r(1) by (simp add: registry_ok_def)
  have ev: "event_of r = event_of (rg w)" by (rule ext) (simp add: r_def event_of_def cong: option.case_cong)
  have room: "slot_room r tfd" using mem(2) by (simp add: slot_room_def reg_room_def r_def)
  have wait: "waiting r tfd = None" using reg(3) by (simp add: waiting_def ev)
  have poll: "can_poll (kern r) tfd" by (simp add: r_def kn_def)
  let ?w = "w\<lparr>rg := r, zend := z1\<rparr>" and ?c = "fresh (ctxs w)"
  obtain rg' v where st: "aio_event_store tfd FD_TYPE_TIMMER (Some ?c) (Some 0) EPOLLIN (Some ?p) None None None None 0 r = Inr (C_OK, rg')"
    and rg': "interest (kern rg') tfd = Some EPOLLIN"
      "event_of rg' tfd = Some (stored_event v FD_TYPE_TIMMER (Some ?c) (Some 0) (Some ?p) None None None None 0,
           \<lparr>ep_events = EPOLLIN, ep_data_fd = tfd\<rparr>)"
    by (rule aio_event_store_fresh [OF inv reg(2) room wait r(2) poll, of FD_TYPE_TIMMER EPOLLIN "Some ?c" "Some 0" None None None 0]) auto
  have ok': "registry_ok rg'" by (rule registry_store [OF r _ _ _ st]) simp_all
  let ?s = "saved rv (w\<lparr>zend := z1, rg := rg'\<rparr>)"
  let ?w' = "?s\<lparr>eg := (eg w)\<lparr>vm_stack := origin_vm_stack (corog w),
        vm_stack_top := origin_vm_stack_top (corog w), vm_stack_end := origin_vm_stack_end (corog w)\<rparr>\<rparr>"
  have ot: "open_timer sys (Some ?p) n (w\<lparr>rg := (rg w)\<lparr>timers := h\<rparr>\<rparr>) = Ret tfd ?w"
    using os live by (simp add: open_timer_def create_timerfd_def Let_def r_def its_def kn_def spec_def)
  have "sleep eng sys arg rv w = wait_fd tfd FD_TYPE_TIMMER EPOLLIN (Some ?p) None None None None 0 rv ?w"
    using arg ml ot by (simp add: sleep_def bind_c_run spec_def)
  also have "\<dots> = coro_yield ?s"
    using st by (simp add: wait_fd_def run_c emalloc_ctx_def emalloc_def c_coro_save_live saved_def saved_ctx_def)
  also have "\<dots> = longjmp_c ?w'" by (simp add: coro_yield_def run_c saved_def)
  also have "\<dots> = Jump k ?w'" using k tok_at_jmps [of ?w' w] unfolding longjmp_c_tok by (simp add: saved_def)
  finally have sl: "sleep eng sys arg rv w = Jump k ?w'" .
  show thesis
    by (rule that [OF sl, of "stored_event v FD_TYPE_TIMMER (Some ?c) (Some 0) (Some ?p) None None None None 0"]) (use ok' rg' in \<open>simp_all add: saved_def saved_ctx_def\<close>)
qed

section \<open>Properties\<close>

text \<open>C10: a coroutine that sleeps wakes up: \<open>sleep\<close> leaves its timer descriptor polled and jumps to the
  scheduler, and when a poll finds the descriptor readable, in any later world in which the
  registration and the saved context are as they were left, the event loop first frees the
  registration, then executes the frame that called \<open>sleep\<close> at its next instruction, with the task, the
  VM stack and the return value of the sleeper current again.\<close>

theorem sleep_wakes:
  assumes "parse_long eng arg = Some n" and "0 < n"
    and "sys_timerfd_create sys (zend w) = (tfd, z)" and "0 \<le> tfd" and "sys_clock_gettime sys z = (Some (sec, nsec), z1)"
    and "time_add sec n = Inr due"
    and "\<not> oom (timers (rg w)) (fresh (timers (rg w)))" and "slot_room (rg w) tfd"
    and "registry_ok (rg w)" and "fd_in_range tfd" and "waiting (rg w) tfd = None"
    and "tok_at w (checkPoint w) = Some k" and "current_execute_data (eg w) = Some cur"
  shows "\<exists>w' a. sleep eng sys arg rv w = Jump k w' \<and> interest (kern (rg w')) tfd = Some EPOLLIN
    \<and> (\<forall>w2 f. reg_inv (rg w2) \<longrightarrow> event_of (rg w2) tfd = event_of (rg w') tfd \<longrightarrow> cells (ctxs w2) a = cells (ctxs w') a \<longrightarrow>
          wakes_at eng rv w cur f w2 \<longrightarrow>
          (\<exists>r' k. waiting r' tfd = None \<and> interest (kern r') tfd = None \<and>
             dispatch eng wrap ex [\<lparr>ep_events = EPOLLIN, ep_data_fd = tfd\<rparr>] w2 =
               bind_o (coro_run eng ex f (awake eng rv w cur f ZNull (w2\<lparr>rg := r'\<rparr>))) k))"
proof -
  obtain w' v where sl: "sleep eng sys arg rv w = Jump k w'" "interest (kern (rg w')) tfd = Some EPOLLIN"
    and ctx: "cells (ctxs w') (fresh (ctxs w)) = Some (Some (saved_ctx rv w))"
    and ev: "event_of (rg w') tfd = Some (v, \<lparr>ep_events = EPOLLIN, ep_data_fd = tfd\<rparr>)"
    and v: "php_context v = Some (fresh (ctxs w))" "object v = None" "function_name v = None"
    by (rule sleep_arms [OF assms(1-12)])
  have "\<exists>r' k. waiting r' tfd = None \<and> interest (kern r') tfd = None \<and>
             dispatch eng wrap ex [\<lparr>ep_events = EPOLLIN, ep_data_fd = tfd\<rparr>] w2 =
               bind_o (coro_run eng ex f (awake eng rv w cur f ZNull (w2\<lparr>rg := r'\<rparr>))) k"
    if w2: "reg_inv (rg w2)" "event_of (rg w2) tfd = event_of (rg w') tfd" "cells (ctxs w2) (fresh (ctxs w)) = cells (ctxs w') (fresh (ctxs w))"
      and f: "wakes_at eng rv w cur f w2" for w2 f
  proof -
    have "event_of (rg w2) tfd = Some (v, \<lparr>ep_events = EPOLLIN, ep_data_fd = tfd\<rparr>)" using ev w2(2) by simp
    from aio_invoke_plain [OF w2(1) assms(10) this v] obtain r' k where
      inv: "invoke_fd eng wrap ex tfd w2 = bind_o (c_coro_resume eng ex (Some (fresh (ctxs w))) (Some ZNull) (w2\<lparr>rg := r'\<rparr>)) k"
      and r': "waiting r' tfd = None" "interest (kern r') tfd = None" by blast
    have "coro_reenter eng (Some (fresh (ctxs w))) (Some ZNull) (w2\<lparr>rg := r'\<rparr>) = Ret f (awake eng rv w cur f ZNull (w2\<lparr>rg := r'\<rparr>))"
      by (rule coro_reenter_saved) (use ctx w2(3) assms(13) f in \<open>simp_all add: wakes_at_def\<close>)
    then have "\<exists>k. invoke_fd eng wrap ex tfd w2 = bind_o (coro_run eng ex f (awake eng rv w cur f ZNull (w2\<lparr>rg := r'\<rparr>))) k"
      unfolding inv by (simp add: c_coro_resume_def bind_c_run bind_o_assoc) blast
    then have "\<exists>k. dispatch eng wrap ex [\<lparr>ep_events = EPOLLIN, ep_data_fd = tfd\<rparr>] w2 =
        bind_o (coro_run eng ex f (awake eng rv w cur f ZNull (w2\<lparr>rg := r'\<rparr>))) k"
      by (auto simp: seq_c_run bind_o_assoc)
    with r' show ?thesis by blast
  qed
  with sl show ?thesis by blast
qed

theorem sleep_wakes_witness:
  "\<exists>w' r' k. sleep (demo_engine (\<lambda>_. []) False) (demo_system 9) (ZLong 2) None (demo_coro []) = Jump 0 w'
    \<and> interest (kern (rg w')) 9 = Some EPOLLIN
    \<and> dispatch (demo_engine (\<lambda>_. []) False) Pair (\<lambda>f. ret_c ()) [\<lparr>ep_events = EPOLLIN, ep_data_fd = 9\<rparr>] w' =
        bind_o (coro_run (demo_engine (\<lambda>_. []) False) (\<lambda>f. ret_c ()) 1
          (awake (demo_engine (\<lambda>_. []) False) None (demo_coro []) 2 1 ZNull (w'\<lparr>rg := r'\<rparr>))) k
    \<and> waiting r' 9 = None"
proof -
  let ?w = "demo_coro []" and ?e = "demo_engine (\<lambda>_. []) False" and ?s = "demo_system 9"
  have rg: "rg ?w = reg_none" by (simp add: demo_defs)
  have reg: "registry_ok (rg ?w)" "slot_room (rg ?w) 9" "waiting (rg ?w) 9 = None" "fd_in_range 9"
    using reg_none_ok by (simp_all add: rg registry_ok_def reg_none_def fd_in_range_def empty_heap_def wf_heap_def)
  have os: "parse_long ?e (ZLong 2) = Some 2" "sys_timerfd_create ?s (zend ?w) = (9, zend ?w)"
    "sys_clock_gettime ?s (zend ?w) = (Some (100, 0), zend ?w)" "time_add 100 2 = Inr 102"
    "\<not> oom (timers (rg ?w)) (fresh (timers (rg ?w)))" "tok_at ?w (checkPoint ?w) = Some 0" "current_execute_data (eg ?w) = Some 2"
    by (simp_all add: demo_defs time_add_def reg_none_def empty_heap_def tok_at_def)
  obtain w' v where sl: "sleep ?e ?s (ZLong 2) None ?w = Jump 0 w'" "registry_ok (rg w')" "zend w' = zend ?w"
    by (rule sleep_arms [OF os(1) _ os(2) _ os(3,4,5) reg(2,1,4,3) os(6)]) simp_all
  have "below (zend w') 2 = Some 1" unfolding sl(3) by (simp add: demo_coro_def)
  then have "wakes_at ?e None ?w 2 1 w'" by (simp add: wakes_at_def demo_engine_def)
  with sleep_wakes [OF os(1) _ os(2) _ os(3,4,5) reg(2,1,4,3) os(6,7), where wrap = Pair and ex = "\<lambda>f. ret_c ()" and rv = None] sl
  show ?thesis by (fastforce simp: registry_ok_def)
qed

end
