(* ===== verification/Drain.thy ===== *)
theory Drain
  imports Wakeup
begin

text \<open>
  Draining a poll: when \<open>epoll_wait\<close> reports sleeping coroutines whose code has nothing left to wait
  for, the event loop runs each of them to its end, in the order reported, and everything they held is
  free again.
\<close>

section \<open>Sleeping coroutines\<close>

text \<open>
  A coroutine that sleeps: its descriptor, its saved context, its stack page, the saved registers of its
  VM stack, its return value, the frame of the call it sleeps in, the frame that made the call, its id and
  its callback.
\<close>

record sleeper =
  s_fd :: int
  s_ctx :: addr
  s_page :: addr
  s_regs :: "ptr \<times> vmpos \<times> vmpos"
  s_ret :: addr
  s_frame :: addr
  s_caller :: addr
  s_id :: int
  s_callback :: ptr

definition suspended :: "sleeper \<Rightarrow> 'z world \<Rightarrow> bool" where
  "suspended s w \<longleftrightarrow>
     (\<exists>x. cells (ctxs w) (s_ctx s) = Some (Some x) \<and> ctx_execute_data x = Some (s_frame s) \<and> ctx_regs x = s_regs s
          \<and> ctx_task x = Some (s_page s, 48) \<and> ctx_allocated_return x = Some (s_ret s))
     \<and> (\<exists>pg t. cells (vm_pages w) (s_page s) = Some pg \<and> 88 \<le> pg_size pg \<and> pg_task pg 48 = Some t
          \<and> cid t = s_id s \<and> task_function t = s_callback s)
     \<and> cells (zvs w) (s_ret s) \<noteq> None \<and> (\<forall>g. s_callback s = Some g \<longrightarrow> cells (zvs w) g \<noteq> None)
     \<and> s_id s \<in> used (cids w)"

definition asleep :: "sleeper \<Rightarrow> 'z world \<Rightarrow> bool" where
  "asleep s w \<longleftrightarrow> suspended s w \<and> fd_in_range (s_fd s)
     \<and> (\<exists>v e. event_of (rg w) (s_fd s) = Some (v, e) \<and> php_context v = Some (s_ctx s) \<and> object v = None \<and> function_name v = None)"

text \<open>The values a sleeper owns.\<close>

definition s_values :: "sleeper \<Rightarrow> addr list" where
  "s_values s = s_ret s # (case s_callback s of None \<Rightarrow> [] | Some g \<Rightarrow> [g])"

text \<open>
  What is left of the code of \<open>s\<close> ends: in every engine state that satisfies \<open>Z\<close>, with the registers
  of \<open>s\<close>, leaving the frame of the call leads to the caller, which does not use the result, and running
  the caller from its next instruction on finishes on the page of \<open>s\<close>, without a call of the extension
  and without an exception. \<open>Z\<close> is what the engine state says of the suspended frames; running a coroutine
  and destroying a value keep it.
\<close>

definition sleeper_ends :: "'z engine \<Rightarrow> 'z program \<Rightarrow> ('z \<Rightarrow> bool) \<Rightarrow> sleeper \<Rightarrow> bool" where
  "sleeper_ends eng prog Z s \<longleftrightarrow> (\<forall>e z e1 z1. Z z \<longrightarrow> stack_regs e = s_regs s \<longrightarrow> release_frame eng (s_frame s) e z = (e1, z1) \<longrightarrow>
     exception e1 = exception e
     \<and> prev_execute_data eng (s_frame s) z1 = Some (s_caller s) \<and> \<not> result_used eng (s_caller s) z1
     \<and> (\<exists>e3 z3. next_call prog (s_caller s) (e1\<lparr>current_execute_data := Some (s_caller s)\<rparr>) (opline_inc eng (s_caller s) z1) = (None, e3, z3)
          \<and> vm_stack e3 = Some (s_page s) \<and> exception e3 = exception e \<and> Z z3))"

definition destroy_ok :: "'z engine \<Rightarrow> ('z \<Rightarrow> bool) \<Rightarrow> bool" where
  "destroy_ok eng Z \<longleftrightarrow> (\<forall>v z. Z z \<longrightarrow> Z (zval_ptr_dtor eng v z))"

text \<open>The scheduler: a checkpoint, no exception and a consistent registry and id map.\<close>

definition scheduling :: "('z \<Rightarrow> bool) \<Rightarrow> 'z world \<Rightarrow> bool" where
  "scheduling Z w \<longleftrightarrow> reg_inv (rg w) \<and> cid_inv (cids w) \<and> \<not> exception (eg w) \<and> Z (zend w)
     \<and> (\<exists>b. checkPoint w = Some b \<and> cells (jmps w) b \<noteq> None)"

text \<open>
  What running coroutines to their end leaves alone: the parked contexts, the function caches, the
  checkpoint and every jump buffer but its own, which the resumptions write, and the socket timeouts.
\<close>

definition left_alone :: "'z world \<Rightarrow> 'z world \<Rightarrow> bool" where
  "left_alone w w' \<longleftrightarrow> cid_context_map w' = cid_context_map w \<and> fcaches w' = fcaches w \<and> checkPoint w' = checkPoint w
     \<and> (\<forall>j. Some j \<noteq> checkPoint w \<longrightarrow> cells (jmps w') j = cells (jmps w) j)
     \<and> timeout_fd_link (rg w') = timeout_fd_link (rg w) \<and> elems (rg w') = elems (rg w)
     \<and> max_coro_num (corog w') = max_coro_num (corog w) \<and> origin_vm_stack (corog w') = origin_vm_stack (corog w)"

lemma left_alone_refl [simp]: "left_alone w w"
  by (simp add: left_alone_def)

lemma left_alone_trans: "left_alone w w1 \<Longrightarrow> left_alone w1 w2 \<Longrightarrow> left_alone w w2"
  by (simp add: left_alone_def)

text \<open>What one woken coroutine changes.\<close>

definition gone :: "sleeper \<Rightarrow> 'z world \<Rightarrow> 'z world \<Rightarrow> bool" where
  "gone s w w' \<longleftrightarrow> cells (vm_pages w') = (cells (vm_pages w))(s_page s := None)
     \<and> cells (ctxs w') = (cells (ctxs w))(s_ctx s := None)
     \<and> cells (zvs w') = (\<lambda>a. if a \<in> set (s_values s) then None else cells (zvs w) a)
     \<and> used (cids w') = used (cids w) - {s_id s} \<and> coro_num (corog w') = coro_num (corog w) - 1
     \<and> (\<forall>g. fd_in_range g \<longrightarrow> g \<noteq> s_fd s \<longrightarrow> event_of (rg w') g = event_of (rg w) g \<and> interest (kern (rg w')) g = interest (kern (rg w)) g)
     \<and> waiting (rg w') (s_fd s) = None \<and> interest (kern (rg w')) (s_fd s) = None
     \<and> cells (argvs (rg w')) = (\<lambda>p. if holds_argv (rg w) (s_fd s) p then None else cells (argvs (rg w)) p)
     \<and> cells (timers (rg w')) = (\<lambda>p. if holds_timer (rg w) (s_fd s) p then None else cells (timers (rg w)) p)
     \<and> left_alone w w' \<and> current_coro (corog w') = None \<and> vm_stack (eg w') = origin_vm_stack (corog w)"

section \<open>One coroutine\<close>

lemma resume_sleeper:
  assumes ends: "sleeper_ends eng prog Z s" and destroy: "destroy_ok eng Z" and w: "suspended s w" and Z: "Z (zend w)"
    and ids: "cid_inv (cids w)" and cp: "checkPoint w = Some b" "cells (jmps w) b \<noteq> None" and ex: "\<not> exception (eg w)"
    and own: "distinct (s_values s)"
  obtains w' where "c_coro_resume eng (exec eng sys prog (Suc n)) (Some (s_ctx s)) (Some ZNull) w = Ret CORO_END w'"
    and "cells (vm_pages w') = (cells (vm_pages w))(s_page s := None)" and "ctxs w' = ctxs w"
    and "cells (zvs w') = (\<lambda>a. if a \<in> set (s_values s) then None else cells (zvs w) a)"
    and "used (cids w') = used (cids w) - {s_id s}" and "cid_inv (cids w')" and "coro_num (corog w') = coro_num (corog w) - 1"
    and "rg w' = rg w" and "\<not> exception (eg w')" and "Z (zend w')" and "checkPoint w' = Some b" and "cells (jmps w') b \<noteq> None"
    and "left_alone w w'" and "current_coro (corog w') = None" and "vm_stack (eg w') = origin_vm_stack (corog w)"
proof -
  obtain x where x: "cells (ctxs w) (s_ctx s) = Some (Some x)" "ctx_execute_data x = Some (s_frame s)" "ctx_regs x = s_regs s"
    "ctx_task x = Some (s_page s, 48)" "ctx_allocated_return x = Some (s_ret s)" using w by (auto simp: suspended_def)
  obtain pg t where pg: "cells (vm_pages w) (s_page s) = Some pg" "88 \<le> pg_size pg" "pg_task pg 48 = Some t" "cid t = s_id s"
    "task_function t = s_callback s" using w by (auto simp: suspended_def)
  let ?e = "(eg w)\<lparr>vm_stack := ctx_vm_stack x, vm_stack_top := ctx_vm_stack_top x, vm_stack_end := ctx_vm_stack_end x\<rparr>"
  obtain e1 z1 where rel: "release_frame eng (s_frame s) ?e (zend w) = (e1, z1)" by (metis surj_pair)
  have "stack_regs ?e = s_regs s" using x(3) by simp
  note s = ends [unfolded sleeper_ends_def, rule_format, OF Z this rel]
  let ?f = "s_caller s"
  let ?w1 = "w\<lparr>eg := e1\<lparr>current_execute_data := Some ?f\<rparr>, zend := opline_inc eng ?f z1,
      corog := (corog w)\<lparr>current_coro := Some (s_page s, 48), require := True, allocated_return_value_ptr := Some (s_ret s)\<rparr>\<rparr>"
  have enter: "coro_reenter eng (Some (s_ctx s)) (Some ZNull) w = Ret ?f ?w1"
    using x rel s by (simp add: coro_reenter_def run_c load_ctx_def)
  let ?w2 = "?w1\<lparr>jmps := (jmps w)\<lparr>cells := (cells (jmps w))(b := Some (Some (setjmps w)))\<rparr>, setjmps := Suc (setjmps w)\<rparr>"
  obtain e3 z3 where nc: "next_call prog ?f (eg ?w2) (zend ?w2) = (None, e3, z3)" "vm_stack e3 = Some (s_page s)"
    "exception e3 = exception (eg w)" "Z z3"
  proof -
    obtain e3 z3 where "next_call prog ?f (e1\<lparr>current_execute_data := Some ?f\<rparr>) (opline_inc eng ?f z1) = (None, e3, z3)"
      "vm_stack e3 = Some (s_page s)" "exception e3 = exception ?e" "Z z3" using s by blast
    then show thesis using that by simp
  qed
  let ?w3 = "?w2\<lparr>eg := e3, zend := z3\<rparr>"
  have run: "exec eng sys prog (Suc n) ?f ?w2 = Ret () ?w3" using nc(1) by simp
  have lt: "load_task (current_coro (corog ?w3)) ?w3 = Inr t"
    using pg by (simp add: load_task_def task_cell_def sizeof_task_def)
  have st: "vm_stack (eg ?w3) = Some (s_page s)" "\<not> exception (eg ?w3)" using nc(2,3) s ex by simp_all
  have vals: "cells (zvs w) (s_ret s) \<noteq> None" "\<forall>g. task_function t = Some g \<longrightarrow> g \<noteq> s_ret s \<and> cells (zvs w) g \<noteq> None"
    using w own pg(5) by (auto simp: suspended_def s_values_def)
  have cl: "closable t (s_page s) (s_ret s) ?w3"
    unfolding closable_def using lt st vals pg ids w by (simp add: suspended_def)
  obtain w' m where close: "coro_close eng ?w3 = Ret () w'" and m: "free_cidmap (cid t) (cids ?w3) = Inr m" "cids w' = m"
    and w': "cells (vm_pages w') (s_page s) = None" "cells (zvs w') (s_ret s) = None"
      "\<forall>g. task_function t = Some g \<longrightarrow> cells (zvs w') g = None"
      "\<forall>a. a \<noteq> s_ret s \<longrightarrow> task_function t \<noteq> Some a \<longrightarrow> cells (zvs w') a = cells (zvs ?w3) a"
      "\<forall>a. a \<noteq> s_page s \<longrightarrow> a \<noteq> fst (the (current_coro (corog ?w3))) \<longrightarrow> cells (vm_pages w') a = cells (vm_pages ?w3) a"
      "corog w' = (corog ?w3)\<lparr>coro_num := coro_num (corog ?w3) - 1, current_coro := None\<rparr>"
      "eg w' = (eg ?w3)\<lparr>vm_stack := origin_vm_stack (corog ?w3), vm_stack_top := origin_vm_stack_top (corog ?w3),
           vm_stack_end := origin_vm_stack_end (corog ?w3)\<rparr>"
      "ctxs w' = ctxs ?w3" "jmps w' = jmps ?w3" "checkPoint w' = checkPoint ?w3" "rg w' = rg ?w3"
      "fcaches w' = fcaches ?w3" "cid_context_map w' = cid_context_map ?w3"
      "zend w' = zend ?w3 \<or> (\<exists>v. zend w' = zval_ptr_dtor eng v (zend ?w3))"
    by (rule coro_close_ok [OF cl, of eng])
  let ?w' = "w'\<lparr>corog := (corog w')\<lparr>require := False\<rparr>\<rparr>"
  have cp1: "checkPoint ?w1 = Some b" "cells (jmps ?w1) b \<noteq> None" using cp by simp_all
  have "coro_run eng (exec eng sys prog (Suc n)) ?f ?w1 = Ret CORO_END ?w'"
    using run close by (simp add: coro_run_def bind_c_run setjmp_c_live [OF cp1] seq_c_run ret_c_run upd_c_run del: exec.simps)
  moreover have "\<not> exception (eg w')" using w'(7) st(2) by simp
  ultimately have "c_coro_resume eng (exec eng sys prog (Suc n)) (Some (s_ctx s)) (Some ZNull) w = Ret CORO_END ?w'"
    using enter by (simp add: c_coro_resume_def bind_c_run del: exec.simps)
  moreover have "used m = used (cids w) - {s_id s}" "cid_inv m"
    using cm.release_ok [of "cids w" "cid t"] m(1) ids pg(4) w by (auto simp: suspended_def)
  moreover have "cells (vm_pages w') = (cells (vm_pages w))(s_page s := None)" using w'(1,5) by (auto simp: fun_eq_iff)
  moreover have "cells (zvs w') = (\<lambda>a. if a \<in> set (s_values s) then None else cells (zvs w) a)"
    using w'(2-4) pg(5) by (auto simp: fun_eq_iff s_values_def split: option.splits)
  moreover have "Z (zend w')" using w'(14) nc(4) destroy by (auto simp: destroy_ok_def)
  moreover have "left_alone w ?w'" using w' cp(1) by (simp add: left_alone_def)
  ultimately show thesis using that [of ?w'] w' \<open>\<not> exception (eg w')\<close> m(2) cp by simp
qed

text \<open>The event handler on its descriptor.\<close>

lemma invoke_sleeper:
  assumes ends: "sleeper_ends eng prog Z s" and destroy: "destroy_ok eng Z" and w: "asleep s w" and sch: "scheduling Z w"
    and own: "distinct (s_values s)"
  obtains w' where "invoke_fd eng wrap (exec eng sys prog (Suc n)) (s_fd s) w = Ret () w'" and "scheduling Z w'" and "gone s w w'"
proof -
  have inv: "reg_inv (rg w)" and ids: "cid_inv (cids w)" and ex: "\<not> exception (eg w)" and Z: "Z (zend w)"
    using sch by (simp_all add: scheduling_def)
  obtain b where cp: "checkPoint w = Some b" "cells (jmps w) b \<noteq> None" using sch by (auto simp: scheduling_def)
  have fd: "fd_in_range (s_fd s)" using w by (simp add: asleep_def)
  obtain v e where v: "event_of (rg w) (s_fd s) = Some (v, e)" "php_context v = Some (s_ctx s)" "object v = None" "function_name v = None"
    using w by (auto simp: asleep_def)
  obtain r' a where iv: "invoke_fd eng wrap (exec eng sys prog (Suc n)) (s_fd s) w =
      bind_o (c_coro_resume eng (exec eng sys prog (Suc n)) (Some (s_ctx s)) (Some ZNull) (w\<lparr>rg := r'\<rparr>)) (after_resume eng (s_ctx s) a)"
    and r': "reg_inv r'" "waiting r' (s_fd s) = None" "interest (kern r') (s_fd s) = None" "touch (rg w) r' (s_fd s)" "cells (evs r') a \<noteq> None"
    "cells (argvs r') = (\<lambda>p. if holds_argv (rg w) (s_fd s) p then None else cells (argvs (rg w)) p)"
    "cells (timers r') = (\<lambda>p. if holds_timer (rg w) (s_fd s) p then None else cells (timers (rg w)) p)"
    "timeout_fd_link r' = timeout_fd_link (rg w)" "elems r' = elems (rg w)"
    by (rule aio_invoke_plain [OF inv fd v])
  have ev: "event_of r' g = event_of (rg w) g \<and> interest (kern r') g = interest (kern (rg w)) g" if "fd_in_range g" "g \<noteq> s_fd s" for g
    using touch_event_of(1) [OF r'(4) _ that(2)] reg_invD [OF inv that(1)] r'(4) that(2) by (simp add: touch_def)
  let ?w = "w\<lparr>rg := r'\<rparr>"
  have sl: "suspended s ?w" and y: "cells (ctxs w) (s_ctx s) \<noteq> None" using w by (auto simp: asleep_def suspended_def)
  obtain w1 where w1: "c_coro_resume eng (exec eng sys prog (Suc n)) (Some (s_ctx s)) (Some ZNull) ?w = Ret CORO_END w1"
    and c: "cells (vm_pages w1) = (cells (vm_pages ?w))(s_page s := None)" "ctxs w1 = ctxs ?w"
      "cells (zvs w1) = (\<lambda>a. if a \<in> set (s_values s) then None else cells (zvs ?w) a)"
      "used (cids w1) = used (cids ?w) - {s_id s}" "cid_inv (cids w1)" "coro_num (corog w1) = coro_num (corog ?w) - 1"
      "rg w1 = rg ?w" "\<not> exception (eg w1)" "Z (zend w1)" "checkPoint w1 = Some b" "cells (jmps w1) b \<noteq> None"
      "left_alone ?w w1" "current_coro (corog w1) = None" "vm_stack (eg w1) = origin_vm_stack (corog ?w)"
    by (rule resume_sleeper [OF ends destroy sl, where b = b and sys = sys and n = n]) (use Z ids cp ex own in simp_all)
  let ?w2 = "\<lambda>z. w1\<lparr>ctxs := (ctxs w1)\<lparr>cells := (cells (ctxs w1))(s_ctx s := None)\<rparr>, zend := z\<rparr>"
  obtain z2 where w2: "after_resume eng (s_ctx s) a CORO_END w1 = Ret () (?w2 z2)" and z2: "Z z2"
  proof -
    have "efree_ctx (Some (s_ctx s)) w1 = Ret () (w1\<lparr>ctxs := (ctxs w1)\<lparr>cells := (cells (ctxs w1))(s_ctx s := None)\<rparr>\<rparr>)"
      using c(2) y by (auto simp: efree_ctx_def try_upd_def)
    moreover obtain v1 where "load (Some a) (evs (rg w1)) = Inr v1" using r'(5) c(7) by auto
    ultimately have "after_resume eng (s_ctx s) a CORO_END w1 =
        Ret () (?w2 (if function_name v1 = None then zend w1 else zval_ptr_dtor eng ZNull (zend w1)))"
      by (simp add: after_resume_def seq_c_run bind_c_run try_c_run upd_c_run ret_c_run)
    then show thesis by (rule that) (use c(9) destroy in \<open>simp add: destroy_ok_def\<close>)
  qed
  show thesis
  proof (rule that)
    show "invoke_fd eng wrap (exec eng sys prog (Suc n)) (s_fd s) w = Ret () (?w2 z2)" using iv w1 w2 by simp
    show "scheduling Z (?w2 z2)" using c z2 r'(1) by (simp add: scheduling_def)
    have "left_alone w (?w2 z2)" using c(7,12) r'(8,9) by (simp add: left_alone_def)
    then show "gone s w (?w2 z2)" using c r' ev by (simp add: gone_def cong: if_cong)
  qed
qed

text \<open>The other sleepers do not notice.\<close>

definition apart :: "sleeper \<Rightarrow> sleeper \<Rightarrow> bool" where
  "apart s s2 \<longleftrightarrow> s_fd s2 \<noteq> s_fd s \<and> s_ctx s2 \<noteq> s_ctx s \<and> s_page s2 \<noteq> s_page s \<and> s_id s2 \<noteq> s_id s
     \<and> set (s_values s2) \<inter> set (s_values s) = {}"

lemma asleep_apart:
  assumes g: "gone s w w'" and w: "asleep s2 w" and a: "apart s s2"
  shows "asleep s2 w'"
proof -
  have c: "cells (ctxs w') (s_ctx s2) = cells (ctxs w) (s_ctx s2)" "cells (vm_pages w') (s_page s2) = cells (vm_pages w) (s_page s2)"
    "s_id s2 \<in> used (cids w') \<longleftrightarrow> s_id s2 \<in> used (cids w)"
    using g a by (simp_all add: gone_def apart_def)
  have "\<forall>x\<in>set (s_values s2). cells (zvs w') x = cells (zvs w) x" using g a by (auto simp: gone_def apart_def)
  then have v: "cells (zvs w') (s_ret s2) = cells (zvs w) (s_ret s2)"
    "\<forall>h. s_callback s2 = Some h \<longrightarrow> cells (zvs w') h = cells (zvs w) h" by (auto simp: s_values_def split: option.splits)
  have e: "event_of (rg w') (s_fd s2) = event_of (rg w) (s_fd s2)" if "fd_in_range (s_fd s2)"
    using g a that by (simp add: gone_def apart_def)
  have s: "suspended s2 w'" using w v(2) unfolding asleep_def suspended_def c v(1) by simp
  show ?thesis using w s e by (simp add: asleep_def)
qed

section \<open>A whole poll\<close>

text \<open>What the world looks like when the coroutines of \<open>ss\<close> have ended.\<close>

definition drained :: "sleeper list \<Rightarrow> 'z world \<Rightarrow> 'z world \<Rightarrow> bool" where
  "drained ss w w' \<longleftrightarrow> cells (vm_pages w') = (\<lambda>p. if p \<in> s_page ` set ss then None else cells (vm_pages w) p)
     \<and> cells (ctxs w') = (\<lambda>c. if c \<in> s_ctx ` set ss then None else cells (ctxs w) c)
     \<and> cells (zvs w') = (\<lambda>a. if a \<in> set (concat (map s_values ss)) then None else cells (zvs w) a)
     \<and> used (cids w') = used (cids w) - s_id ` set ss \<and> coro_num (corog w') = coro_num (corog w) - of_nat (length ss)
     \<and> (\<forall>g. fd_in_range g \<longrightarrow> g \<notin> s_fd ` set ss \<longrightarrow> event_of (rg w') g = event_of (rg w) g
          \<and> interest (kern (rg w')) g = interest (kern (rg w)) g)
     \<and> (\<forall>s\<in>set ss. waiting (rg w') (s_fd s) = None \<and> interest (kern (rg w')) (s_fd s) = None)
     \<and> cells (argvs (rg w')) = (\<lambda>p. if \<exists>s\<in>set ss. holds_argv (rg w) (s_fd s) p then None else cells (argvs (rg w)) p)
     \<and> cells (timers (rg w')) = (\<lambda>p. if \<exists>s\<in>set ss. holds_timer (rg w) (s_fd s) p then None else cells (timers (rg w)) p)
     \<and> left_alone w w'
     \<and> current_coro (corog w') = (if ss = [] then current_coro (corog w) else None)
     \<and> vm_stack (eg w') = (if ss = [] then vm_stack (eg w) else origin_vm_stack (corog w))"

lemma drained_step:
  assumes g: "gone s w w1" and d: "drained ss w1 w'" and fd: "fd_in_range (s_fd s)" "s_fd s \<notin> s_fd ` set ss"
    and fds: "\<forall>t\<in>set ss. fd_in_range (s_fd t)"
  shows "drained (s # ss) w w'"
proof -
  have "waiting (rg w') (s_fd s) = None \<and> interest (kern (rg w')) (s_fd s) = None"
    using g d fd by (simp add: gone_def drained_def waiting_def)
  moreover have "event_of (rg w1) (s_fd t) = event_of (rg w) (s_fd t)" if "t \<in> set ss" for t
  proof -
    have "s_fd t \<noteq> s_fd s" using fd(2) imageI [OF that, of s_fd] by auto
    with g fds that show ?thesis by (simp add: gone_def)
  qed
  then have "(\<exists>t\<in>set ss. holds_argv (rg w1) (s_fd t) p) \<longleftrightarrow> (\<exists>t\<in>set ss. holds_argv (rg w) (s_fd t) p)"
    "(\<exists>t\<in>set ss. holds_timer (rg w1) (s_fd t) p) \<longleftrightarrow> (\<exists>t\<in>set ss. holds_timer (rg w) (s_fd t) p)" for p
    by (simp_all add: holds_argv_def holds_timer_def)
  moreover have "left_alone w w'" using g d by (auto simp: gone_def drained_def intro: left_alone_trans)
  moreover have "current_coro (corog w') = None \<and> vm_stack (eg w') = origin_vm_stack (corog w)"
    using g d by (cases ss) (auto simp: gone_def drained_def left_alone_def)
  ultimately show ?thesis using g d unfolding drained_def gone_def
    by (intro conjI) (auto simp: fun_eq_iff algebra_simps)
qed

text \<open>C5: a poll that reports sleeping coroutines, each of which has nothing left to do but to return,
  runs every one of them to its end, and the scheduler is ready for the next round. Afterwards exactly
  their stack pages, contexts, return values, callbacks, argument arrays, timers and ids are free, as many
  coroutines fewer are counted, none of their descriptors is polled or waited for, no coroutine is current
  and the VM is on the main stack. The events and the polling of all other descriptors, the parked contexts,
  the function caches, the socket timeouts, the checkpoint and every jump buffer but the checkpoint's own,
  which each resumption writes, are as they were.\<close>

theorem poll_drains:
  assumes "\<forall>s\<in>set ss. asleep s w \<and> sleeper_ends eng prog Z s" and "destroy_ok eng Z" and "scheduling Z w"
    and "map ep_data_fd es = map s_fd ss" and "\<forall>e\<in>set es. ep_events e AND EPOLLIN \<noteq> 0 \<or> ep_events e AND EPOLLOUT \<noteq> 0"
    and "distinct (map s_fd ss)" and "distinct (map s_ctx ss)" and "distinct (map s_page ss)" and "distinct (map s_id ss)"
    and "distinct (concat (map s_values ss))"
  shows "\<exists>w'. dispatch eng wrap (exec eng sys prog (Suc n)) es w = Ret () w' \<and> scheduling Z w' \<and> drained ss w w'"
  using assms
proof (induction ss arbitrary: es w)
  case Nil
  then show ?case by (simp add: ret_c_run drained_def)
next
  case (Cons s ss)
  from Cons.prems(4) obtain e fs where es: "es = e # fs" "ep_data_fd e = s_fd s" "map ep_data_fd fs = map s_fd ss"
    by (cases es) auto
  have own: "distinct (s_values s)" and s: "asleep s w" "sleeper_ends eng prog Z s" using Cons.prems(1,10) by simp_all
  obtain w1 where iv: "invoke_fd eng wrap (exec eng sys prog (Suc n)) (s_fd s) w = Ret () w1"
    and w1: "scheduling Z w1" "gone s w w1"
    by (rule invoke_sleeper [OF s(2) Cons.prems(2) s(1) Cons.prems(3) own])
  have rest: "asleep t w1" if t: "t \<in> set ss" for t
  proof (rule asleep_apart [OF w1(2)])
    show "asleep t w" using t Cons.prems(1) by simp
    show "apart s t" using t Cons.prems(6-10) by (simp add: apart_def disjoint_iff) (metis imageI)
  qed
  have "\<exists>w'. dispatch eng wrap (exec eng sys prog (Suc n)) fs w1 = Ret () w' \<and> scheduling Z w' \<and> drained ss w1 w'"
    by (rule Cons.IH [OF _ Cons.prems(2) w1(1) es(3)]) (use rest Cons.prems es in auto)
  then obtain w' where w': "dispatch eng wrap (exec eng sys prog (Suc n)) fs w1 = Ret () w'" "scheduling Z w'" "drained ss w1 w'"
    by blast
  have "dispatch eng wrap (exec eng sys prog (Suc n)) es w = Ret () w'"
    using iv w'(1) Cons.prems(5) es(1,2) by (auto simp: seq_c_run simp del: exec.simps)
  moreover have "drained (s # ss) w w'"
    by (rule drained_step [OF w1(2) w'(3)]) (use s(1) Cons.prems(1,6) in \<open>auto simp: asleep_def\<close>)
  ultimately show ?case using w'(2) by blast
qed

text \<open>One sleeper of the small engine.\<close>

definition demo_nap :: sleeper where
  "demo_nap = \<lparr>s_fd = 7, s_ctx = 4, s_page = 1, s_regs = (Some 1, Some (1, 96), Some (1, 8192)), s_ret = 0, s_frame = 2, s_caller = 1, s_id = 1, s_callback = None\<rparr>"

lemma demo_nap_facts:
  "asleep demo_nap demo_sleeper" (is ?a)
  "sleeper_ends (demo_engine (\<lambda>_. []) False) demo_program (\<lambda>z. below z 2 = Some 1 \<and> length (todo z 1) \<le> 1) demo_nap" (is ?b)
  "destroy_ok (demo_engine (\<lambda>_. []) False) Z"
  "scheduling (\<lambda>z. below z 2 = Some 1 \<and> length (todo z 1) \<le> 1) demo_sleeper" (is ?c)
proof -
  have s: "suspended demo_nap demo_sleeper"
    using demo_ids by (simp add: suspended_def demo_nap_def demo_sleeper_def demo_parked_def demo_defs)
  have r: "rg demo_sleeper = reg_timer" by (simp add: demo_sleeper_def)
  show ?a using s reg_timer_ok reg_none_ok(5) by (simp add: asleep_def r) (simp add: demo_nap_def zero_event_def)
  have tl: "tl xs = []" if "length xs \<le> Suc 0" for xs :: "php_call list" using that by (cases xs) simp_all
  show ?b by (auto simp: sleeper_ends_def demo_nap_def demo_engine_def demo_program_def tl)
  show "destroy_ok (demo_engine (\<lambda>_. []) False) Z" by (simp add: destroy_ok_def demo_engine_def)
  show ?c using reg_timer_ok(1) demo_ids(1)
    by (simp add: scheduling_def r) (simp add: demo_sleeper_def demo_parked_def demo_defs)
qed

theorem poll_drains_witness:
  "\<exists>w'. dispatch (demo_engine (\<lambda>_. []) False) Pair (exec (demo_engine (\<lambda>_. []) False) (demo_system 9) demo_program 1)
       [\<lparr>ep_events = EPOLLIN, ep_data_fd = 7\<rparr>] demo_sleeper = Ret () w'
     \<and> cells (vm_pages w') 1 = None \<and> used (cids w') = {} \<and> interest (kern (rg w')) 7 = None"
proof -
  have "\<exists>w'. dispatch (demo_engine (\<lambda>_. []) False) Pair (exec (demo_engine (\<lambda>_. []) False) (demo_system 9) demo_program (Suc 0))
       [\<lparr>ep_events = EPOLLIN, ep_data_fd = 7\<rparr>] demo_sleeper = Ret () w'
     \<and> scheduling (\<lambda>z. below z 2 = Some 1 \<and> length (todo z 1) \<le> 1) w' \<and> drained [demo_nap] demo_sleeper w'"
    by (rule poll_drains) (use demo_nap_facts in \<open>simp_all add: s_values_def demo_nap_def\<close>)
  moreover have "used (cids demo_sleeper) = {1}" using demo_ids by (simp add: demo_sleeper_def demo_parked_def demo_defs)
  ultimately show ?thesis by (auto simp: drained_def demo_nap_def)
qed

end
