(* ===== verification/Macros.thy ===== *)
theory Macros
  imports Wrapper Coroutine
begin

text \<open>
  The macros of \<open>php7_wrapper.h\<close> that do more than rename a function of the engine, in both branches,
  and the functions of the branch for PHP 5. A macro runs in the block of its caller: \<open>stk\<close> holds the
  variables of that block, \<open>strs\<close> the strings the caller has allocated.
\<close>

section \<open>Values\<close>

text \<open>\<open>emalloc\<close> and \<open>bzero\<close>: type 0 is \<open>IS_UNDEF\<close>.\<close>

definition C_ALLOC_INIT_ZVAL :: "('z, ptr) code" where
  "C_ALLOC_INIT_ZVAL w = (let (p, h) = emalloc ZUndef (zvs w) in Ret (Some p) (w\<lparr>zvs := h\<rparr>))"

text \<open>Both macros make \<open>p\<close> point to a copy on the stack, in a new variable or in the variable \<open>b\<close>.\<close>

definition C_SEPARATE_ZVAL :: "ptr \<Rightarrow> zval heap \<Rightarrow> zval heap \<Rightarrow> (ptr \<times> zval heap) res" where
  "C_SEPARATE_ZVAL p h stk = bind_res (load p h) (\<lambda>v. let (q, s) = emalloc v stk in Inr (Some q, s))"

definition c_copy_to_stack :: "ptr \<Rightarrow> addr \<Rightarrow> zval heap \<Rightarrow> zval heap \<Rightarrow> (ptr \<times> zval heap) res" where
  "c_copy_to_stack a b h stk = bind_res (load a h) (\<lambda>v. bind_res (modify (Some b) (\<lambda>_. v) stk) (\<lambda>s. Inr (Some b, s)))"

text \<open>The branch for PHP 5 does not copy: \<open>c_zval_dup(val)\<close> is \<open>val\<close>. \<open>dtor\<close> is \<open>zval_ptr_dtor\<close>.\<close>

definition c_zval_dup_php5 :: "ptr \<Rightarrow> ptr" where
  "c_zval_dup_php5 val = val"

definition c_zval_free_php5 :: "(ptr \<Rightarrow> 'z \<Rightarrow> 'z) \<Rightarrow> ptr \<Rightarrow> 'z \<Rightarrow> 'z" where
  "c_zval_free_php5 dtor val z = dtor val z"

text \<open>
  The type of a value of PHP 5, where \<open>TRUE\<close> and \<open>FALSE\<close> have one type, \<open>is_bool\<close>, and share the value
  field of integers: the macro \<open>IS_TRUE\<close> of the header is 1.
\<close>

record zval5 =
  z5_type :: int
  z5_lval :: int

definition C_Z_TYPE_P_php5 :: "int \<Rightarrow> zval5 \<Rightarrow> int" where
  "C_Z_TYPE_P_php5 is_bool z =
     (if z5_type z = is_bool then (if unat (word_of_int (z5_lval z) :: 8 word) = 1 then 1 else 0) else z5_type z)"

section \<open>Strings\<close>

text \<open>
  \<open>RETVAL_STRINGL\<close> and \<open>RETVAL_STRING\<close> copy the bytes; with \<open>dup = 0\<close> the macros free the string, which
  PHP 5 would have kept as the value. \<open>C_RETURN_STRING\<close> ignores its second parameter.
\<close>

definition give_up :: "ptr \<Rightarrow> int \<Rightarrow> string heap \<Rightarrow> string heap res" where
  "give_up s dup strs = (if dup = 0 then free_cell s strs else Inr strs)"

definition C_RETVAL_STRINGL :: "ptr \<Rightarrow> u64 \<Rightarrow> int \<Rightarrow> string heap \<Rightarrow> (zval \<times> string heap) res" where
  "C_RETVAL_STRINGL s l dup strs =
     bind_res (load s strs) (\<lambda>b. bind_res (key_bytes b l) (\<lambda>v. bind_res (give_up s dup strs) (\<lambda>h. Inr (ZString v, h))))"

definition read_string :: "ptr \<Rightarrow> string heap \<Rightarrow> string res" where
  "read_string s strs = bind_res (load s strs) (\<lambda>b. if CHR 0x00 \<in> set b then Inr (c_str b) else Inl OutOfBounds)"

definition C_RETVAL_STRING :: "ptr \<Rightarrow> int \<Rightarrow> string heap \<Rightarrow> (zval \<times> string heap) res" where
  "C_RETVAL_STRING s dup strs = bind_res (read_string s strs) (\<lambda>v. bind_res (give_up s dup strs) (\<lambda>h. Inr (ZString v, h)))"

definition C_RETURN_STRINGL :: "ptr \<Rightarrow> u64 \<Rightarrow> int \<Rightarrow> string heap \<Rightarrow> (zval \<times> string heap) res" where
  "C_RETURN_STRINGL s l dup strs =
     bind_res (load s strs) (\<lambda>b. bind_res (key_bytes b l) (\<lambda>v. bind_res (give_up s dup strs) (\<lambda>h. Inr (ZString v, h))))"

definition C_RETURN_STRING :: "ptr \<Rightarrow> int \<Rightarrow> string heap \<Rightarrow> (zval \<times> string heap) res" where
  "C_RETURN_STRING val duplicate strs = bind_res (read_string val strs) (\<lambda>v. Inr (ZString v, strs))"

section \<open>Arrays\<close>

text \<open>\<open>add\<close> is \<open>add_assoc_stringl_ex\<close>, which does not count the NUL of the key.\<close>

definition c_add_assoc_stringl ::
    "(string \<Rightarrow> string \<Rightarrow> 'h \<Rightarrow> int \<times> 'h) \<Rightarrow> 'h \<Rightarrow> string \<Rightarrow> string \<Rightarrow> u64 \<Rightarrow> int \<Rightarrow> (int \<times> 'h) res" where
  "c_add_assoc_stringl add arg key str len duplicate =
     (if CHR 0x00 \<in> set key then bind_res (key_bytes str len) (\<lambda>s. Inr (add (c_str key) s arg)) else Inl OutOfBounds)"

text \<open>\<open>str\<close> is a literal, an array of \<open>sizeof(str)\<close> characters with its NUL.\<close>

definition ZEND_SET_SYMBOL :: "'h zend_hash \<Rightarrow> (zval \<Rightarrow> 'z \<Rightarrow> 'z) \<Rightarrow> 'h \<Rightarrow> string \<Rightarrow> zval \<Rightarrow> 'z \<Rightarrow> ('h \<times> 'z) res" where
  "ZEND_SET_SYMBOL H add_ref ht str arr z =
     bind_res (key_bytes str (of_nat (length str) - 1)) (\<lambda>k. Inr (snd (str_update H k arr ht), add_ref arr z))"

text \<open>
  The loops over a table give their body, in turn, a value, or a key, its length, its type and a value.
  In PHP 7 an entry with an integer key has no key, length 0 and type 0.
\<close>

datatype hkey = StrKey string | IntKey nat

definition C_HASHTABLE_FOREACH_START :: "(hkey \<times> zval) list \<Rightarrow> zval list" where
  "C_HASHTABLE_FOREACH_START ht = map snd ht"

definition C_HASHTABLE_FOREACH_START2 :: "(hkey \<times> zval) list \<Rightarrow> (string option \<times> u32 \<times> int \<times> zval) list" where
  "C_HASHTABLE_FOREACH_START2 ht = map (\<lambda>(key, v). case key of
      StrKey s \<Rightarrow> (Some s, of_nat (length s), 1, v)
    | IntKey i \<Rightarrow> (None, 0, 0, v)) ht"

text \<open>
  In PHP 5 the loop steps the internal pointer. \<open>zend_hash_get_current_key_ex\<close> sets the key and its
  length, with the NUL, for a string key only, and \<open>klen --\<close> is done for every entry. The data of an
  entry are \<open>None\<close> when \<open>zend_hash_get_current_data\<close> fails.
\<close>

definition C_HASHTABLE_FOREACH_START_php5 :: "(hkey \<times> zval option) list \<Rightarrow> zval list" where
  "C_HASHTABLE_FOREACH_START_php5 ht = concat (map (\<lambda>(key, dt). case dt of None \<Rightarrow> [] | Some v \<Rightarrow> [v]) ht)"

fun C_HASHTABLE_FOREACH_START2_php5 :: "string option \<Rightarrow> u32 \<Rightarrow> (hkey \<times> zval option) list \<Rightarrow> (string option \<times> u32 \<times> int \<times> zval) list" where
  "C_HASHTABLE_FOREACH_START2_php5 k klen [] = []"
| "C_HASHTABLE_FOREACH_START2_php5 k klen ((key, dt) # ht) =
     (let (k', n, ktype) = (case key of StrKey s \<Rightarrow> (Some s, of_nat (length s + 1), 1) | IntKey i \<Rightarrow> (k, klen, 2)) in
      case dt of
        None \<Rightarrow> C_HASHTABLE_FOREACH_START2_php5 k' n ht
      | Some v \<Rightarrow> (k', n - 1, ktype, v) # C_HASHTABLE_FOREACH_START2_php5 k' (n - 1) ht)"

section \<open>Calls\<close>

text \<open>
  The engine stores the result of the method in \<open>__retval\<close>, a variable of the caller's block;
  \<open>*(retval)\<close> becomes its address, or \<open>NULL\<close> for the value \<open>NULL\<close>.
\<close>

definition method_result :: "zval \<times> 'z \<Rightarrow> zval heap \<Rightarrow> ptr \<times> zval heap \<times> 'z" where
  "method_result r stk = (let (p, s) = emalloc (fst r) stk in (if fst r = ZNull then None else Some p, s, snd r))"

definition c_zend_call_method_with_0_params :: "(zval \<Rightarrow> string \<Rightarrow> zval list \<Rightarrow> 'z \<Rightarrow> zval \<times> 'z) \<Rightarrow> zval \<Rightarrow> string
    \<Rightarrow> zval heap \<Rightarrow> 'z \<Rightarrow> ptr \<times> zval heap \<times> 'z" where
  "c_zend_call_method_with_0_params call ob method stk z = method_result (call ob method [] z) stk"

definition c_zend_call_method_with_1_params :: "(zval \<Rightarrow> string \<Rightarrow> zval list \<Rightarrow> 'z \<Rightarrow> zval \<times> 'z) \<Rightarrow> zval \<Rightarrow> string
    \<Rightarrow> zval \<Rightarrow> zval heap \<Rightarrow> 'z \<Rightarrow> ptr \<times> zval heap \<times> 'z" where
  "c_zend_call_method_with_1_params call ob method v1 stk z = method_result (call ob method [v1] z) stk"

definition c_zend_call_method_with_2_params :: "(zval \<Rightarrow> string \<Rightarrow> zval list \<Rightarrow> 'z \<Rightarrow> zval \<times> 'z) \<Rightarrow> zval \<Rightarrow> string
    \<Rightarrow> zval \<Rightarrow> zval \<Rightarrow> zval heap \<Rightarrow> 'z \<Rightarrow> ptr \<times> zval heap \<times> 'z" where
  "c_zend_call_method_with_2_params call ob method v1 v2 stk z = method_result (call ob method [v1, v2] z) stk"

text \<open>In PHP 5 the caller's pointer to the result and its array of parameters are passed on as they are.\<close>

record fcall_info5 =
  fci5_object :: "zval option"
  fci5_function_name :: zval
  fci5_retval :: ptr
  fci5_param_count :: nat
  fci5_params :: "zval list"
  fci5_no_separation :: int

definition c_call_user_function_fast_php5 ::
    "(fcall_info5 \<Rightarrow> nat \<Rightarrow> 'z \<Rightarrow> int \<times> 'z) \<Rightarrow> zval \<Rightarrow> nat \<Rightarrow> ptr \<Rightarrow> u32 \<Rightarrow> zval list \<Rightarrow> 'z \<Rightarrow> int \<times> 'z" where
  "c_call_user_function_fast_php5 call fname fci_cache retval param_count params z =
     call \<lparr>fci5_object = None, fci5_function_name = fname, fci5_retval = retval,
       fci5_param_count = unat param_count, fci5_params = params, fci5_no_separation = 0\<rparr> fci_cache z"

section \<open>Lemmas\<close>

text \<open>\<open>c_zval_dup\<close> is an allocation and a copy.\<close>

lemma c_zval_dup_steps:
  "c_zval_dup v = bind_c C_ALLOC_INIT_ZVAL (\<lambda>p. seq_c (try_upd (\<lambda>w.
     bind_res (modify p (\<lambda>_. v) (zvs w)) (\<lambda>h. Inr (w\<lparr>zvs := h\<rparr>)))) (ret_c p))"
  by (rule ext) (simp add: c_zval_dup_def C_ALLOC_INIT_ZVAL_def emalloc_def run_c try_upd_def modify_def load_def)

text \<open>The copies on the stack: the new pointer leads to the value, and no other variable changes.\<close>

lemma copies_on_stack:
  assumes "cells h a = Some v"
  shows "C_SEPARATE_ZVAL (Some a) h stk = Inr (q, s) \<Longrightarrow> load q s = Inr v \<and> (\<forall>x < fresh stk. cells s x = cells stk x)"
    and "c_copy_to_stack (Some a) b h stk = Inr (q, s) \<Longrightarrow> load q s = Inr v \<and> (\<forall>x. x \<noteq> b \<longrightarrow> cells s x = cells stk x)"
  using assms by (auto simp: C_SEPARATE_ZVAL_def c_copy_to_stack_def emalloc_def load_def modify_def split: option.splits)

text \<open>
  Returning a string: the value has the bytes of the string, which is freed exactly when \<open>dup\<close> is zero,
  and with a length both ways of giving it are the same. \<open>C_RETURN_STRING\<close> never frees it.
\<close>

lemma strings_returned:
  assumes s: "cells strs p = Some (v @ [CHR 0x00])" and v: "CHR 0x00 \<notin> set v" and len: "length v < 2 ^ 64"
  shows "C_RETVAL_STRINGL (Some p) (of_nat (length v)) dup strs = C_RETVAL_STRING (Some p) dup strs"
    and "C_RETVAL_STRING (Some p) dup strs = Inr (ZString v, if dup = 0 then strs\<lparr>cells := (cells strs)(p := None)\<rparr> else strs)"
    and "C_RETURN_STRINGL (Some p) l dup strs = C_RETVAL_STRINGL (Some p) l dup strs"
    and "C_RETURN_STRING (Some p) dup strs = Inr (ZString v, strs)"
proof -
  have n: "unat (of_nat (length v) :: u64) = length v" using len by (simp add: unsigned_of_nat take_bit_nat_eq_self)
  have c: "c_str (v @ [CHR 0x00]) = v" using v by (auto simp: c_str_def takeWhile_append)
  show "C_RETVAL_STRING (Some p) dup strs = Inr (ZString v, if dup = 0 then strs\<lparr>cells := (cells strs)(p := None)\<rparr> else strs)"
    using s c by (simp add: C_RETVAL_STRING_def read_string_def load_def give_up_def free_cell_def)
  then show "C_RETVAL_STRINGL (Some p) (of_nat (length v)) dup strs = C_RETVAL_STRING (Some p) dup strs"
    using s n by (simp add: C_RETVAL_STRINGL_def key_bytes_def load_def give_up_def free_cell_def)
  show "C_RETURN_STRINGL (Some p) l dup strs = C_RETVAL_STRINGL (Some p) l dup strs"
    by (simp add: C_RETURN_STRINGL_def C_RETVAL_STRINGL_def)
  show "C_RETURN_STRING (Some p) dup strs = Inr (ZString v, strs)"
    using s c by (simp add: C_RETURN_STRING_def read_string_def load_def)
qed

text \<open>The short form of \<open>add_assoc_stringl\<close> is the long one with the NUL counted.\<close>

lemma add_assoc_stringl_short:
  assumes "CHR 0x00 \<notin> set k" and "length k < 2 ^ 63"
  shows "c_add_assoc_stringl add arg (k @ [CHR 0x00]) str len dup =
    c_add_assoc_stringl_ex add arg (k @ [CHR 0x00]) (of_nat (length k) + 1) str len dup"
proof -
  have "unat (of_nat (length k) :: u64) = length k" using assms(2) by (simp add: unsigned_of_nat take_bit_nat_eq_self)
  moreover have "c_str (k @ [CHR 0x00]) = k" using assms(1) by (auto simp: c_str_def takeWhile_append)
  ultimately show ?thesis
    by (simp add: c_add_assoc_stringl_def c_add_assoc_stringl_ex_def assoc_key_def key_bytes_def)
qed

text \<open>
  The two versions of the loops visit the same on tables whose keys are strings; the loop for PHP 5 gives
  an integer key the key of before and a length that has been lowered once more, from 0 to the largest
  one.
\<close>

lemma foreach_versions:
  assumes "\<forall>(key, v) \<in> set ht. \<exists>s. key = StrKey s"
  shows "C_HASHTABLE_FOREACH_START2_php5 k n (map (\<lambda>(key, v). (key, Some v)) ht) = C_HASHTABLE_FOREACH_START2 ht"
  using assms
proof (induction ht arbitrary: k n)
  case (Cons e ht)
  obtain s v where e: "e = (StrKey s, v)" using Cons.prems by (cases e) auto
  from Cons.IH Cons.prems e show ?case by (simp add: C_HASHTABLE_FOREACH_START2_def)
qed (simp add: C_HASHTABLE_FOREACH_START2_def)

lemma foreach_integer_keys:
  "C_HASHTABLE_FOREACH_START2_php5 k n [(IntKey i, Some v)] = [(k, n - 1, 2, v)]"
  "C_HASHTABLE_FOREACH_START2_php5 k 0 [(IntKey i, Some v)] = [(k, 0xFFFFFFFF, 2, v)]"
  "C_HASHTABLE_FOREACH_START2 [(IntKey i, v)] = [(None, 0, 0, v)]"
  by (simp_all add: C_HASHTABLE_FOREACH_START2_def)

lemma foreach_values: "C_HASHTABLE_FOREACH_START_php5 (map (\<lambda>(key, v). (key, Some v)) ht) = C_HASHTABLE_FOREACH_START ht"
  by (induction ht) (auto simp: C_HASHTABLE_FOREACH_START_php5_def C_HASHTABLE_FOREACH_START_def)

text \<open>A method's result is \<open>NULL\<close> exactly for \<open>NULL\<close>, and otherwise readable for the rest of the block.\<close>

lemma method_result_ptr:
  assumes "method_result r stk = (p, s, z)"
  shows "p = None \<longleftrightarrow> fst r = ZNull" and "p \<noteq> None \<Longrightarrow> load p s = Inr (fst r)" and "z = snd r"
  using assms by (auto simp: method_result_def emalloc_def load_def split: if_splits)

text \<open>In PHP 5 a value has the type \<open>IS_TRUE\<close> when it is a true boolean, or when 1 is its own type.\<close>

lemma type_true_php5:
  assumes "is_bool \<noteq> 1"
  shows "C_Z_TYPE_P_php5 is_bool z = 1 \<longleftrightarrow> z5_type z = is_bool \<and> z5_lval z mod 256 = 1 \<or> z5_type z = 1"
proof -
  have "unat (word_of_int (z5_lval z) :: 8 word) = 1 \<longleftrightarrow> z5_lval z mod 256 = 1"
    by (simp add: unat_eq_nat_uint uint_word_of_int nat_eq_iff)
  with assms show ?thesis by (auto simp: C_Z_TYPE_P_php5_def)
qed

text \<open>
  The two versions of \<open>c_call_user_function_fast\<close> make the same call: for up to 20 parameters they pass
  the same function, the same number of parameters and the same values of them, and no object.
\<close>

lemma call_fast_versions:
  assumes "length params = unat n" and "unat n \<le> C_PHP_MAX_PARAMS_NUM"
  shows "c_call_user_function_fast (\<lambda>fci cache z. (0, ZNull, Some (fci_function_name fci, fci_object fci, fci_param_count fci,
        take (fci_param_count fci) (fci_params fci), fci_no_separation fci, cache))) f cache n params stk z
     = Inr (0, Some (fresh stk), stk\<lparr>cells := (cells stk)(fresh stk := None), fresh := Suc (fresh stk)\<rparr>,
         snd (c_call_user_function_fast_php5 (\<lambda>fci cache z. (0, Some (fci5_function_name fci, fci5_object fci, fci5_param_count fci,
           take (fci5_param_count fci) (fci5_params fci), fci5_no_separation fci, cache))) f cache r n params z))"
  using assms
  by (simp add: c_call_user_function_fast_def c_call_user_function_fast_php5_def copy_params_all [unfolded C_PHP_MAX_PARAMS_NUM_def] emalloc_def modify_def load_def
      free_cell_def C_PHP_MAX_PARAMS_NUM_def)

end
