(* ===== verification/Module.thy ===== *)
theory Module
  imports Sessions Wrapper
begin

text \<open>
  The module as PHP runs it: \<open>coroutine_module_entry\<close> with its hooks, the registration of the classes,
  and the requests a process serves one after the other. The globals of the extension live as long as the
  process, what it allocated with \<open>emalloc\<close> only as long as the request.
\<close>

section \<open>Definitions\<close>

text \<open>The functions of the Zend engine that register classes; a class is an index into its class table.\<close>

record 'z class_host =
  register_internal_class :: "string \<Rightarrow> function_entry list \<Rightarrow> 'z \<Rightarrow> nat \<times> 'z"
  register_class_alias :: "string \<Rightarrow> nat \<Rightarrow> 'z \<Rightarrow> 'z"
  declare_property_null :: "nat \<Rightarrow> string \<Rightarrow> access \<Rightarrow> 'z \<Rightarrow> 'z"

record class_entries =
  coroutine_util_class_entry :: nat
  co_pdo_class_entry :: nat
  co_pdo_statement_class_entry :: nat

definition minit_classes :: "'z class_host \<Rightarrow> 'z \<Rightarrow> class_entries \<times> 'z" where
  "minit_classes H z =
     (let (util, z1) = register_internal_class H ''coroutine'' coroutine_method z;
          z2 = register_class_alias H ''Co'' util z1;
          (pdo, z3) = register_internal_class H (''Co'' @ CHR 0x5C # ''PDO'') co_pdo_method z2;
          z4 = declare_property_null H pdo ''origin'' ACC_PUBLIC z3;
          (stmt, z5) = register_internal_class H (''Co'' @ CHR 0x5C # ''PDOStatement'') co_pdo_statement_method z4;
          z6 = declare_property_null H stmt ''origin'' ACC_PUBLIC z5
      in (\<lparr>coroutine_util_class_entry = util, co_pdo_class_entry = pdo, co_pdo_statement_class_entry = stmt\<rparr>, z6))"

text \<open>\<open>mem\<close> says whether the allocation of the timeout queue succeeds.\<close>

definition PHP_MINIT :: "'z class_host \<Rightarrow> bool \<Rightarrow> ('z, class_entries \<times> int) code" where
  "PHP_MINIT H mem w =
     (let (cs, z) = minit_classes H (zend w) in seq_c (minit mem) (ret_c (cs, SUCCESS)) (w\<lparr>zend := z\<rparr>))"

definition PHP_RSHUTDOWN :: "('z, int) code" where
  "PHP_RSHUTDOWN = seq_c rshutdown (ret_c SUCCESS)"

definition PHP_MSHUTDOWN :: "('z, int) code" where
  "PHP_MSHUTDOWN = ret_c SUCCESS"

record 'z module_entry =
  entry_module_name :: string
  module_functions :: "function_entry list"
  module_startup :: "('z, class_entries \<times> int) code"
  module_shutdown :: "('z, int) code"
  request_startup :: "('z, int) code option"
  request_shutdown :: "('z, int) code option"
  module_info :: "('z, int) code option"
  module_version :: string

definition coroutine_module_entry :: "'z class_host \<Rightarrow> bool \<Rightarrow> 'z module_entry" where
  "coroutine_module_entry H mem =
     \<lparr>entry_module_name = ''coroutine'', module_functions = coroutine_function, module_startup = PHP_MINIT H mem,
      module_shutdown = PHP_MSHUTDOWN, request_startup = None, request_shutdown = Some PHP_RSHUTDOWN,
      module_info = None, module_version = ''0.1''\<rparr>"

text \<open>
  The mutex that processes of one server would share, which no code of the extension locks: anonymous
  shared memory (\<open>None\<close> is \<open>MAP_FAILED\<close>), and a mutex in it with the attribute
  \<open>PTHREAD_PROCESS_SHARED\<close>. The status of \<open>pthread_mutex_init\<close> is not looked at.
\<close>

record 'z mutex_os =
  mmap_shared :: "'z \<Rightarrow> ptr \<times> 'z"
  attr_init :: "'z \<Rightarrow> 'z"
  attr_setpshared :: "'z \<Rightarrow> int \<times> 'z"
  mutex_init :: "addr \<Rightarrow> 'z \<Rightarrow> int \<times> 'z"

definition initMutex :: "'z mutex_os \<Rightarrow> 'z \<Rightarrow> (addr \<times> 'z) res" where
  "initMutex os z =
     (case mmap_shared os z of
        (None, z1) \<Rightarrow> Inl ProcessExit
      | (Some inner_server_mutex, z1) \<Rightarrow>
          (let (ret, z2) = attr_setpshared os (attr_init os z1) in
           if ret \<noteq> 0 then Inl ProcessExit else Inr (inner_server_mutex, snd (mutex_init os inner_server_mutex z2))))"

text \<open>
  The start of the next request: the globals of the extension are those the last request left, all
  request memory of before is gone, and no address of before is given out again.
\<close>

definition next_start :: "'z world \<Rightarrow> 'z world \<Rightarrow> bool" where
  "next_start w w0 \<longleftrightarrow> checkPoint w0 = checkPoint w \<and> cid_context_map w0 = cid_context_map w
     \<and> fresh (jmps w) \<le> fresh (jmps w0) \<and> fresh (ctxs w) \<le> fresh (ctxs w0)
     \<and> (\<forall>b < fresh (jmps w). cells (jmps w0) b = None)"

text \<open>The states of a script that starts in \<open>w0\<close>, between its calls.\<close>

inductive script_from :: "'z engine \<Rightarrow> 'z system \<Rightarrow> 'z pdo_host \<Rightarrow> 'z program \<Rightarrow> 'z world \<Rightarrow> 'z world \<Rightarrow> bool"
  for eng sys host prog w0 where
  start: "script_from eng sys host prog w0 w0"
| call: "script_from eng sys host prog w0 w \<Longrightarrow> request_api eng sys host (exec eng sys prog n) k c rv w = Ret v w'
    \<Longrightarrow> script_from eng sys host prog w0 w'"
| engine: "script_from eng sys host prog w0 w \<Longrightarrow> script_from eng sys host prog w0 (w\<lparr>eg := e, zend := z\<rparr>)"

section \<open>Classes\<close>

text \<open>
  What the engine promises of its class table: \<open>table z n\<close> are the methods of the class with the name
  \<open>n\<close>, up to case, and \<open>methods z c\<close> those of the class \<open>c\<close>.
\<close>

definition class_laws :: "'z class_host \<Rightarrow> ('z \<Rightarrow> string \<Rightarrow> function_entry list option) \<Rightarrow> ('z \<Rightarrow> nat \<Rightarrow> function_entry list option) \<Rightarrow> bool" where
  "class_laws H table methods \<longleftrightarrow>
     (\<forall>n t z c z'. register_internal_class H n t z = (c, z') \<longrightarrow> methods z' c = Some t
        \<and> (\<forall>m. table z' m = (if lower m = lower n then Some t else table z m)))
   \<and> (\<forall>n c z m. table (register_class_alias H n c z) m = (if lower m = lower n then methods z c else table z m))
   \<and> (\<forall>c p a z. table (declare_property_null H c p a z) = table z)"

lemma class_names:
  "lower ''coroutine'' \<noteq> lower ''Co''" "lower ''coroutine'' \<noteq> lower (''Co'' @ CHR 0x5C # ''PDO'')"
  "lower ''coroutine'' \<noteq> lower (''Co'' @ CHR 0x5C # ''PDOStatement'')" "lower ''Co'' \<noteq> lower (''Co'' @ CHR 0x5C # ''PDO'')"
  "lower ''Co'' \<noteq> lower (''Co'' @ CHR 0x5C # ''PDOStatement'')"
  "lower (''Co'' @ CHR 0x5C # ''PDO'') \<noteq> lower (''Co'' @ CHR 0x5C # ''PDOStatement'')"
  by code_simp+

text \<open>\<open>PHP_MINIT\<close> makes the classes of \<open>resolve\<close>.\<close>

lemma minit_resolves:
  assumes laws: "class_laws H table methods" and none: "\<And>m. table (zend w) m = None"
    and start: "module_startup (coroutine_module_entry H mem) w = Ret (cs, s) w'"
  shows "s = SUCCESS" and "table (zend w') c = map_option snd (find (\<lambda>(k, t). lower k = lower c) module_classes)"
    and "resolve (Some c) n = (case table (zend w') c of None \<Rightarrow> None | Some t \<Rightarrow> entry t n)"
proof -
  obtain cs' z where mc: "minit_classes H (zend w) = (cs', z)" by (metis surj_pair)
  have st: "s = SUCCESS" "zend w' = z"
    using start mc by (auto simp: coroutine_module_entry_def PHP_MINIT_def seq_c_run ret_c_run minit_def try_upd_def split: sum.splits)
  have reg: "methods z' c = Some t" "table z' m = (if lower m = lower n then Some t else table z m)"
    if "register_internal_class H n t z = (c, z')" for n t z c z' m using laws that by (simp_all add: class_laws_def)
  have other: "table (register_class_alias H n c z) m = (if lower m = lower n then methods z c else table z m)"
    "table (declare_property_null H c p a z) = table z" for n c z m p a using laws by (simp_all add: class_laws_def)
  show tab: "table (zend w') c = map_option snd (find (\<lambda>(k, t). lower k = lower c) module_classes)" for c
    using mc none class_names unfolding st
    by (auto simp: minit_classes_def module_classes_def Let_def reg other split: prod.splits)
  show "resolve (Some c) n = (case table (zend w') c of None \<Rightarrow> None | Some t \<Rightarrow> entry t n)"
    unfolding tab by (auto simp: resolve_def split: option.splits)
  show "s = SUCCESS" by (rule st)
qed

text \<open>A class table that keeps the promises: the methods under each name in lower case, and those of each class.\<close>

type_synonym class_table = "(string \<Rightarrow> function_entry list option) \<times> function_entry list list"

definition list_host :: "class_table class_host" where
  "list_host = \<lparr>register_internal_class = (\<lambda>n t (names, cs). (length cs, (names(lower n \<mapsto> t), cs @ [t]))),
     register_class_alias = (\<lambda>n c (names, cs). (names(lower n := if c < length cs then Some (cs ! c) else None), cs)),
     declare_property_null = (\<lambda>c p a z. z)\<rparr>"

lemma list_host_laws:
  "class_laws list_host (\<lambda>z m. fst z (lower m)) (\<lambda>z c. if c < length (snd z) then Some (snd z ! c) else None)"
  by (auto simp: class_laws_def list_host_def split: if_splits)

text \<open>\<open>initMutex\<close> ends the process unless the memory is mapped and the attribute set.\<close>

lemma initMutex_exits:
  "(\<exists>m z'. initMutex os z = Inr (m, z')) \<longleftrightarrow> fst (mmap_shared os z) \<noteq> None \<and> fst (attr_setpshared os (attr_init os (snd (mmap_shared os z)))) = 0"
  "initMutex os z = Inl e \<Longrightarrow> e = ProcessExit"
  "initMutex os z = Inr (m, z') \<Longrightarrow> fst (mmap_shared os z) = Some m"
  by (auto simp: initMutex_def split: prod.splits option.splits if_splits)

section \<open>Requests\<close>

text \<open>The checkpoint of the script is buffer \<open>b\<close>, which is allocated or not (\<open>live\<close>).\<close>

definition at_buffer :: "addr \<Rightarrow> bool \<Rightarrow> 'z world \<Rightarrow> bool" where
  "at_buffer b live w \<longleftrightarrow> ok w \<and> checkPoint w = Some b \<and> (cells (jmps w) b \<noteq> None \<longleftrightarrow> live)"

lemma fr_at_buffer: "at_buffer b live w \<Longrightarrow> fr None w w' \<Longrightarrow> at_buffer b live w'"
  by (auto simp: at_buffer_def intro: fr_ok) (auto simp: fr_def ok_def)

lemma at_buffer_same:
  "at_buffer b live w \<Longrightarrow> checkPoint w' = checkPoint w \<Longrightarrow> jmps w' = jmps w \<Longrightarrow> fresh (ctxs w') = fresh (ctxs w)
    \<Longrightarrow> cid_context_map w' = cid_context_map w \<Longrightarrow> at_buffer b live w'"
  by (auto simp: at_buffer_def ok_def parked_def)

lemma disciplined_at_buffer: "disciplined m \<Longrightarrow> contract (at_buffer b live) m (at_buffer b live) (\<lambda>_. True)"
proof (rule contractI)
  fix w :: "'a world" assume "disciplined m" and w: "at_buffer b live w"
  then have "within w (m w)" by (auto simp: at_buffer_def intro: disciplinedD)
  with w show "meets (at_buffer b live) (\<lambda>_. True) (m w)"
    by (cases "m w") (auto simp: within_def intro: fr_at_buffer)
qed

text \<open>A resumption from the script: a \<open>setjmp\<close> into a buffer that was freed is a fault.\<close>

lemma c_coro_resume_at_buffer:
  assumes ex: "\<And>f. disciplined (ex f)"
  shows "contract (at_buffer b live) (c_coro_resume eng ex ctx retval) (at_buffer b live) (\<lambda>_. True)"
proof (cases live)
  case True
  show ?thesis
  proof (rule contractI)
    fix w :: "'a world" assume "at_buffer b live w"
    then have w: "has_buffer b w" using True by (simp add: at_buffer_def has_buffer_def)
    then have ok: "ok w" by (simp add: has_buffer_def)
    from c_coro_resume_contained [where ex = ex and eng = eng and ctx = ctx and retval = retval, OF ex w]
    have "contained b (\<lambda>s. s = CORO_END \<or> s = CORO_YIELD) w (c_coro_resume eng ex ctx retval w)" .
    then show "meets (at_buffer b live) (\<lambda>_. True) (c_coro_resume eng ex ctx retval w)"
      using True fr_ok [OF _ ok] w
      by (auto simp: contained_def meets_def at_buffer_def has_buffer_def fr_def split: outcome.splits)
  qed
next
  case False
  have run: "meets (at_buffer b live) (\<lambda>_. True) (coro_run eng ex f w)" if "at_buffer b live w" for f w
    using that False by (auto simp: coro_run_def run_c setjmp_c_def at_buffer_def modify_def load_def Let_def split: option.splits)
  have "contract (at_buffer b live) (bind_c (coro_reenter eng ctx retval) (coro_run eng ex)) (at_buffer b live) (\<lambda>_. True)"
    by (rule contract_bind [OF disciplined_at_buffer]) (intro disc contractI run | assumption)+
  then show ?thesis
    unfolding c_coro_resume_def
    by (rule contract_bind) (auto simp: contract_def split: option.splits)
qed

lemma invoke_at_buffer:
  assumes ex: "\<And>f. disciplined (ex f)"
  shows "contract (at_buffer b live) (invoke_fd eng wrap ex fd) (at_buffer b live) (\<lambda>_. True)"
proof -
  have delayed: "contract (at_buffer b live) (delayed_call eng wrap v) (at_buffer b live) (\<lambda>_. True)" for v
    by (rule contract_calm [OF _ calm_delayed]) (auto dest!: delayed_call_other simp: same_but_def elim: at_buffer_same)
  have free: "contract (at_buffer b live) (rg_c (aio_event_free ev)) (at_buffer b live) (\<lambda>_. True)" for ev
    by (rule disciplined_at_buffer [OF disciplined_rg])
  have efree: "contract (at_buffer b live) (efree_ctx ctx) (at_buffer b live) (\<lambda>_. True)" for ctx
    unfolding efree_ctx_def
    by (rule contract_try_upd) (auto simp: free_cell_def elim!: at_buffer_same split: sum.splits option.splits)
  have resume: "contract (at_buffer b live) (if ctx = None then ret_c ()
      else bind_c (c_coro_resume eng ex ctx (Some result)) (\<lambda>_. efree_ctx ctx)) (at_buffer b live) (\<lambda>_. True)" for ctx result
    by (intro contract_if contract_pure(1) contract_bind [OF c_coro_resume_at_buffer [OF ex] efree])
  have drop: "contract (at_buffer b live) (upd_c (\<lambda>w. w\<lparr>zend := zval_ptr_dtor eng result (zend w)\<rparr>)) (at_buffer b live) (\<lambda>_. True)" for result
    by (rule contract_upd) (erule at_buffer_same, simp_all)
  have "contract (at_buffer b live) (aio_invoke eng wrap ex ev) (at_buffer b live) (\<lambda>_. True)" for ev
    unfolding aio_invoke_def
    by (intro contract_if contract_pure(1) contract_bind [OF contract_pure(3)] contract_bind [OF delayed]
        contract_bind [OF free] contract_seq [OF resume] drop)
  then show ?thesis
    unfolding invoke_fd_def by (intro contract_bind [OF contract_pure(3)])
qed

interpretation at_buffer: loop_contract "at_buffer b live" "\<lambda>_. True" eng sys wrap "exec eng sys prog n"
  for b live eng sys wrap prog n
  by unfold_locales (auto intro: invoke_at_buffer exec_disciplined elim: at_buffer_same)

lemma request_at_buffer:
  "contract (at_buffer b live) (request_api eng sys host (exec eng sys prog n) k c rv) (at_buffer b live) (\<lambda>_. True)"
proof (cases c)
  case EventLoop
  then show ?thesis by (simp add: request_api_def at_buffer.event_loop_met)
next
  case (Ext call)
  then show ?thesis by (simp add: request_api_def disciplined_at_buffer [OF api_disciplined [OF exec_disciplined]])
next
  case (PdoConstruct args)
  have "disciplined (co_pdo_construct eng new set args)" for new set
    unfolding co_pdo_construct_def
    by (intro disc) (auto simp: disciplined_def intro: fr_other split: prod.splits)
  with PdoConstruct show ?thesis by (simp add: request_api_def disciplined_at_buffer)
next
  case (PdoDestruct origin)
  have "disciplined (co_pdo_destruct eng origin)" unfolding co_pdo_destruct_def by (intro disc) simp
  with PdoDestruct show ?thesis by (simp add: request_api_def disciplined_at_buffer)
next
  case (StatementDestruct origin)
  have "disciplined (co_pdo_statement_destruct eng origin)" unfolding co_pdo_statement_destruct_def by (intro disc) simp
  with StatementDestruct show ?thesis by (simp add: request_api_def disciplined_at_buffer)
qed

lemma script_at_buffer:
  assumes "script_from eng sys host prog w0 w" and "at_buffer b live w0"
  shows "at_buffer b live w"
  using assms
proof (induction rule: script_from.induct)
  case (call w n k c rv v w')
  from contract_Ret [OF request_at_buffer call.IH [OF call.prems] call.hyps(2)] show ?case .
next
  case (engine w e z)
  from engine.IH [OF engine.prems] show ?case by (rule at_buffer_same) simp_all
qed

lemma main_at_buffer:
  assumes "main_session eng sys host prog w"
  shows "\<exists>b. at_buffer b True w"
  using assms
proof (induction rule: main_session.induct)
  case (init w u w')
  then have "at_buffer (fresh (jmps w)) True w'"
    by (auto simp: coro_init_def run_c emalloc_def Let_def fresh_process_def at_buffer_def ok_def parked_def split: prod.splits)
  then show ?case by blast
next
  case (call w n k c rv v w')
  then obtain b where "at_buffer b True w" by blast
  from contract_Ret [OF request_at_buffer this call.hyps(2)] show ?case by blast
next
  case (engine w z e')
  then obtain b where "at_buffer b True w" by blast
  from at_buffer_same [OF this, of "w\<lparr>eg := e', zend := z\<rparr>"] show ?case by auto
qed

section \<open>Properties\<close>

text \<open>C33: the shutdown of the first request that used coroutines is clean, that of the next one never is:
  after every state of the script \<open>PHP_RSHUTDOWN\<close> frees the checkpoint and returns \<open>SUCCESS\<close>, but leaves
  the global pointing to the freed buffer; then, whatever the script of the next request calls, in
  coroutines, event loops or not at all, its \<open>PHP_RSHUTDOWN\<close> frees the buffer a second time.\<close>

theorem second_request_double_free:
  assumes "main_session eng sys host prog w"
  shows "\<exists>w'. PHP_RSHUTDOWN w = Ret SUCCESS w' \<and> checkPoint w' = checkPoint w \<and> checkPoint w \<noteq> None
    \<and> (\<forall>w0 w2. next_start w' w0 \<longrightarrow> script_from eng sys host' prog' w0 w2 \<longrightarrow> PHP_RSHUTDOWN w2 = Fault BadFree)"
proof -
  obtain b where b: "at_buffer b True w" using main_at_buffer [OF assms] by blast
  let ?w' = "w\<lparr>jmps := (jmps w)\<lparr>cells := (cells (jmps w))(b := None)\<rparr>\<rparr>"
  have sd: "PHP_RSHUTDOWN w = Ret SUCCESS ?w'"
    using b by (auto simp: PHP_RSHUTDOWN_def rshutdown_def efree_checkpoint_def try_upd_def seq_c_run ret_c_run at_buffer_def)
  have "PHP_RSHUTDOWN w2 = Fault BadFree" if st: "next_start ?w' w0" and sc: "script_from eng sys host' prog' w0 w2" for w0 w2
  proof -
    have "at_buffer b False w0"
      using b st by (auto simp: next_start_def at_buffer_def ok_def parked_def subset_iff dest: order.strict_trans2)
    from script_at_buffer [OF sc this] show ?thesis
      by (simp add: PHP_RSHUTDOWN_def rshutdown_def efree_checkpoint_def try_upd_def seq_c_run at_buffer_def free_cell_def)
  qed
  moreover have "checkPoint w = Some b" using b by (simp add: at_buffer_def)
  ultimately show ?thesis using sd by auto
qed

theorem second_request_double_free_witness:
  "\<exists>w'. PHP_RSHUTDOWN (demo_ready []) = Ret SUCCESS w' \<and> PHP_RSHUTDOWN w' = Fault BadFree"
proof -
  have "main_session (demo_engine (\<lambda>_. []) False) (demo_system 9) demo_host demo_program (demo_ready [])"
    by (rule main_session.init [OF demo_fresh]) (rule demo_init)
  from second_request_double_free [OF this, where host' = demo_host and prog' = demo_program]
  obtain w' where w': "PHP_RSHUTDOWN (demo_ready []) = Ret SUCCESS w'"
    and d: "\<And>w0 w2. next_start w' w0 \<Longrightarrow> script_from (demo_engine (\<lambda>_. []) False) (demo_system 9) demo_host demo_program w0 w2
        \<Longrightarrow> PHP_RSHUTDOWN w2 = Fault BadFree" by blast
  have "next_start w' w'" using w'
    by (auto simp: next_start_def PHP_RSHUTDOWN_def rshutdown_def efree_checkpoint_def try_upd_def seq_c_run ret_c_run demo_defs)
  with w' d [OF _ script_from.start] show ?thesis by blast
qed

end
