(* ===== verification/Tests.thy ===== *)
theory Tests
  imports Event_Loop
begin

text \<open>
  Scripts of \<open>tests/\<close>, run by the kernel on the small engine: the model evaluates step by step, from the
  world before the first call on. The rules freeze what a step has not reached yet.
\<close>

section \<open>Evaluation\<close>

lemma frozen:
  "w = w' \<Longrightarrow> bind_c m f w = bind_c m f w'" "w = w' \<Longrightarrow> seq_c m k w = seq_c m k w'"
  "w = w' \<Longrightarrow> upd_c g w = upd_c g w'" "w = w' \<Longrightarrow> try_upd h w = try_upd h w'" "w = w' \<Longrightarrow> try_c h' w = try_c h' w'"
  "w = w' \<Longrightarrow> get_c g' w = get_c g' w'" "w = w' \<Longrightarrow> rg_c g'' w = rg_c g'' w'" "w = w' \<Longrightarrow> setjmp_c m1 k1 w = setjmp_c m1 k1 w'"
  "out = out' \<Longrightarrow> bind_o out k2 = bind_o out' k2" "r = r' \<Longrightarrow> bind_res r k3 = bind_res r' k3"
  by simp_all

lemmas exec_numeral = exec.simps(2) [where n = "pred_numeral k" for k, folded numeral_eq_Suc] exec.simps(2) [where n = 0, folded One_nat_def]

lemmas rounds_numeral = event_rounds.simps(2) [where k = "pred_numeral k" for k, folded numeral_eq_Suc]
  event_rounds.simps(2) [where k = 0, folded One_nat_def]

lemmas step_defs = api_def coroutine_create_def create_finish_def get_current_cid_def yield_def resume_def resume_finish_def
  c_coro_create_def coro_enter_def coro_run_def c_coro_save_def load_ctx_def coro_reenter_def c_coro_resume_def
  c_coro_resume_parent_def coro_yield_def coro_close_def coro_drop_def coro_release_def c_vm_stack_init_def coro_init_def
  setjmp_c_def longjmp_c_def keep_callback_def run_c try_upd_def

lemmas memory_defs = efree_zval_def c_zval_free_def c_zval_dup_def load_task_def store_task_def task_cell_def efree_ctx_def
  emalloc_ctx_def push_checkpoint_def efree_checkpoint_def emalloc_def load_def modify_def free_cell_def Let_def

lemmas id_defs = alloc_cidmap_def free_cidmap_def cidmap_init_def clear_bit_def test_and_set_bit_def word_index_def bit_mask_def
  find_next_zero_bit_def find_zero_loop.simps cid_in_range_def to_cint_small

lemmas size_defs = sizeof_task_def DEFAULT_MAX_CORO_NUM_def DEFAULT_STACK_SIZE_def TASK_SLOT_def stack_elements_def zval_size_def
  word_le_nat_alt

lemmas run_defs = demo_defs step_defs memory_defs id_defs size_defs exec_numeral reg_none_def

lemmas wait_defs = sleep_def open_timer_def create_timerfd_def wait_fd_def malloc_def time_add_def aio_event_store_def
  slot_event_def event_slot_def fd_in_range_def zero_event_def aio_event_free_def disarm_timer_def disarm_def close_fd_def
  epoll_ctl_add_def epoll_ctl_del_def rg_c_def invoke_fd_def aio_invoke_def delayed_call_def event_round_def
  get_current_time_def rounds_numeral

section \<open>Scripts\<close>

text \<open>\<open>tests/co_resume.php\<close>: two coroutines ask for their ids and yield, a third resumes both. The first two
  calls of \<open>create\<close> return when the coroutines yield, and all three coroutines end.\<close>

definition co_resume_functions :: "nat \<Rightarrow> php_call list" where
  "co_resume_functions f = (if f = 1 then [GetCurrentCid, Yield] else if f = 2 then [Resume (ZLong 1), Resume (ZLong 2)] else [])"

definition co_resume_main :: "php_call list" where
  "co_resume_main = [Create (ZLong 1), Create (ZLong 1), Create (ZLong 2)]"

lemma co_resume_runs:
  "\<exists>w. exec (demo_engine co_resume_functions False) (demo_system 9) demo_program 10 0 (demo_world co_resume_main) = Ret () w
    \<and> returned (zend w) = [ZLong 1, ZBool True, ZLong 2, ZBool True, ZBool True, ZBool True, ZBool True]
    \<and> coro_num (corog w) = 0 \<and> cid_context_map w 1 \<noteq> None"
  by (simp add: run_defs co_resume_functions_def co_resume_main_def cong: frozen)

text \<open>\<open>tests/co_yield.php\<close> prints what the first \<open>create\<close> returns as the id of the coroutine: it is \<open>TRUE\<close>. The
  id of the second coroutine is 2, because the first one has not ended.\<close>

definition co_yield_functions :: "nat \<Rightarrow> php_call list" where
  "co_yield_functions f = (if f = 1 then [Yield] else if f = 2 then [GetCurrentCid, Yield] else [])"

lemma co_yield_runs:
  "\<exists>w. exec (demo_engine co_yield_functions False) (demo_system 9) demo_program 10 0 (demo_world [Create (ZLong 1), Create (ZLong 2)]) = Ret () w
    \<and> returned (zend w) = [ZBool True, ZLong 2, ZBool True]
    \<and> coro_num (corog w) = 2"
  by (simp add: run_defs co_yield_functions_def cong: frozen)

text \<open>\<open>tests/co_sleep.php\<close>, with two calls of \<open>sleep\<close> in the place of an endless loop, and a kernel that
  reports the descriptors 8 to 10 as readable when they are polled: each of the first two polls wakes the coroutine,
  then it has ended and the third poll finds nothing.\<close>

definition ready_system :: "demo system" where
  "ready_system = (demo_system 9)\<lparr>sys_epoll_wait := (\<lambda>r z. (map (\<lambda>fd. \<lparr>ep_events = EPOLLIN, ep_data_fd = fd\<rparr>)
     (filter (\<lambda>fd. interest (kern r) fd \<noteq> None) [8, 9, 10]), z))\<rparr>"

definition co_sleep_functions :: "nat \<Rightarrow> php_call list" where
  "co_sleep_functions f = (if f = 1 then [Sleep (ZLong 1), GetCurrentCid, Sleep (ZLong 1), GetCurrentCid] else [])"

lemma co_sleep_runs:
  "\<exists>w. bind_o (exec (demo_engine co_sleep_functions False) ready_system demo_program 10 0 (demo_world [Create (ZLong 1)]))
      (\<lambda>_. event_rounds (demo_engine co_sleep_functions False) ready_system Pair (exec (demo_engine co_sleep_functions False) ready_system demo_program 10) 1 3) = Ret () w
    \<and> returned (zend w) = [ZBool True, ZLong 1, ZLong 1] \<and> coro_num (corog w) = 0"
  by (simp add: run_defs wait_defs co_sleep_functions_def ready_system_def cong: frozen)

text \<open>Two coroutines that sleep at the same time, on descriptors of their own: the script goes on after each
  \<open>create\<close>, and one poll wakes both, in the order of their descriptors.\<close>

definition timers_system :: "demo system" where
  "timers_system = (demo_system 9)\<lparr>sys_timerfd_create := (\<lambda>z. (int (frames z), z)),
     sys_epoll_wait := (\<lambda>r z. (map (\<lambda>fd. \<lparr>ep_events = EPOLLIN, ep_data_fd = fd\<rparr>)
       (filter (\<lambda>fd. interest (kern r) fd \<noteq> None) [1, 2, 3, 4, 5, 6, 7, 8, 9]), z))\<rparr>"

definition two_sleepers :: "nat \<Rightarrow> php_call list" where
  "two_sleepers f = (if f = 1 \<or> f = 2 then [Sleep (ZLong (int f)), GetCurrentCid] else [])"

lemma two_sleepers_run:
  "\<exists>w. bind_o (exec (demo_engine two_sleepers False) timers_system demo_program 10 0 (demo_world [Create (ZLong 1), Create (ZLong 2)]))
      (\<lambda>_. event_rounds (demo_engine two_sleepers False) timers_system Pair
        (exec (demo_engine two_sleepers False) timers_system demo_program 10) 1 1) = Ret () w
    \<and> returned (zend w) = [ZBool True, ZBool True, ZLong 1, ZLong 2] \<and> coro_num (corog w) = 0"
  by (simp add: run_defs wait_defs two_sleepers_def timers_system_def cong: frozen)

end
