(* ===== verification/Spec2Isabelle.thy ===== *)
theory Spec2Isabelle
  imports Cidmap Link Hash_Table Hash_Delete Timer Zend Wrapper Events World Coroutine Methods Discipline Script Demo
    Lifecycle Contracts Event_Loop Loops Request Invariants Tasks Ids Sessions Balance Wakeup Drain Macros Module Tests
begin

text \<open>
  A verification development for \<open>phpco\<close>, a PHP extension that adds coroutines and an event loop
  to PHP 7: \<open>Co::create\<close> runs a PHP function on a VM stack of its own until it ends or waits,
  \<open>yield\<close> and \<open>resume\<close> switch by hand, \<open>sleep\<close>, the socket methods and the wrappers of PDO suspend
  the coroutine until the event loop finds its descriptor ready.

  \<^bold>\<open>The program and its parts.\<close>

  \<^item> \<open>coroutine_util.c\<close>: the ids (a bitmap), the life cycle of a coroutine: a new VM stack page with
    the task record in it, the engine's interpreter called under a \<open>setjmp\<close>, contexts saved and
    restored, \<open>longjmp\<close> to yield.
  \<^item> \<open>coroutine_event.c\<close>, \<open>coroutine_timer.c\<close>: the registry, one slot per descriptor, that says which
    context waits for what, kept in step with an epoll instance; timer descriptors; the conversion
    of PHP values to descriptors.
  \<^item> \<open>coroutine.c\<close>: the PHP functions and methods, \<open>aio_invoke\<close>, which performs a delayed call and
    resumes its coroutine, the event loop with the socket timeouts, the tables of functions and methods
    with their argument information, start-up and shutdown.
  \<^item> \<open>src/link/link.c\<close>: the queue that holds the timeouts. \<open>src/hashtable/hashtable.c\<close>: a chained
    hash table. \<open>php7_wrapper.h\<close>: functions with the signatures of PHP 5 on the API of PHP 7.

  \<^bold>\<open>The model.\<close> C data are records and datatypes with the names of the source; memory is a set of
  typed heaps (\<open>Phpco_Prelude\<close>) with a counter of fresh addresses and an oracle for allocation
  failure; freed cells stay freed, so that a use after free, a double free, an access through
  \<open>NULL\<close>, an index out of bounds, a read of an uninitialised variable and an overflow of a signed
  integer are values of \<open>fault\<close>. Code that touches only its own state has type \<open>state \<Rightarrow> result res\<close>.
  Code that may jump has type \<open>code\<close> (\<open>World\<close>): it returns, jumps to a numbered \<open>setjmp\<close> call,
  faults, or runs out of fuel.

  \<^item> \<open>Cidmap\<close>: \<open>alloc_cidmap\<close>, \<open>free_cidmap\<close> and the bit operations on 32-bit words. The search loop
    is a partial function, because with a mark outside the bitmap it does not end; it is proved to
    end from every state the extension reaches. Locale \<open>id_allocator\<close>.
  \<^item> \<open>Link\<close>: \<open>initqueue\<close>, \<open>pushqueue\<close>, \<open>delete_node\<close>, \<open>printqueue\<close>. The specification is a register
    that can be filled once, which is what the code implements. Locale \<open>slot_register\<close>.
  \<^item> \<open>Hash_Table\<close>: every function of the hash table, with the map a table stands for and the
    invariant of its chains; the contract of a key-value store is the locale \<open>kv_store\<close>.
    \<open>Hash_Delete\<close>: a table built by its operations owns its heap, and deleting it frees all of it.
  \<^item> \<open>Timer\<close>, \<open>Zend\<close>: \<open>create_timerfd\<close>, \<open>get_current_time\<close>, PHP values, \<open>c_convert_to_fd\<close> with the handle of
    \<open>pdo_mysql\<close> it casts the data of a connection to.
  \<^item> \<open>Wrapper\<close>: the functions of \<open>php7_wrapper.h\<close> in its branch for PHP 7, over the Zend functions they
    call, which are arguments; \<open>c_zend_hash_find\<close> of the branch for PHP 5, for comparison.
    \<open>c_zval_dup\<close> and \<open>c_zval_free\<close>, which the coroutines use, are in \<open>Coroutine\<close>. \<open>Macros\<close>: the macros of
    the header that do more than rename, and the functions of the branch for PHP 5, with the conditions
    under which the two branches agree.
  \<^item> \<open>Events\<close>: \<open>_aio_event_store\<close>, \<open>aio_event_free\<close>, \<open>delete_event\<close>, \<open>socket_setnonblock\<close> over the
    table of 102400 slots and the part of the kernel they use: the interest list of the epoll
    instance and the flags of descriptors. The invariant \<open>reg_inv\<close> relates slots, events and
    interest list. Locale \<open>event_registry\<close>.
  \<^item> \<open>World\<close>: the globals \<open>EG\<close>, \<open>COROG\<close>, \<open>RG\<close>, \<open>checkPoint\<close>, \<open>cid_context_map\<close>, the heaps, jumps, and
    the interfaces of what is not part of the repository: \<open>engine\<close> (the functions of the Zend
    engine the extension calls) and \<open>system\<close> (answers of system calls).
  \<^item> \<open>Coroutine\<close>: \<open>coro_init\<close> to \<open>coro_yield\<close> of \<open>coroutine_util.c\<close>. \<open>zend_execute_ex\<close> is the
    argument \<open>ex\<close>. \<open>coro_enter\<close>, \<open>coro_run\<close> and \<open>coro_reenter\<close> are the parts of \<open>c_coro_create\<close> and
    \<open>c_coro_resume\<close> before and from the \<open>setjmp\<close> on; \<open>coro_drop\<close> and \<open>coro_release\<close> are the two halves
    of \<open>coro_close\<close>, the callback and the rest.
  \<^item> \<open>Methods\<close>: every method of the classes \<open>coroutine\<close>, \<open>Co\\PDO\<close> and \<open>Co\\PDOStatement\<close> but the
    event loop. \<open>wait_fd\<close> is the common end of the waiting methods.
  \<^item> \<open>Discipline\<close>: what all code of the extension keeps of the jump buffers, checkpoints and contexts
    that are older than the call (\<open>disciplined\<close>), and that \<open>coroutine_create\<close> and \<open>resume\<close> contain
    every jump made under them.
  \<^item> \<open>Script\<close>: \<open>exec\<close>, the interpreter of PHP code as far as the extension sees it: any function of
    the engine state decides the next call of the extension. It gives \<open>ex\<close>, and closes the recursion
    between the engine and the extension.
  \<^item> \<open>Demo\<close>: a small engine with programs that run, for the witnesses.
  \<^item> \<open>Lifecycle\<close>: the theorems on creation, yielding, resumption and closing.
  \<^item> \<open>Event_Loop\<close>: \<open>aio_invoke\<close>, \<open>event_loop\<close>, \<open>minit\<close>, \<open>rshutdown\<close> and their theorems.
  \<^item> \<open>Contracts\<close>: triples of code, \<open>contract P c Q E\<close>, where \<open>E\<close> holds at a jump: the rules of the
    composition of code and of \<open>setjmp\<close>, and a contract of \<open>exec\<close> from contracts of the calls. Locale
    \<open>waiting_contract\<close>: what an assertion has to survive for every waiting method to meet it; locale
    \<open>quiet_contract\<close>, for assertions that do not look at contexts at all, gives the first one.
  \<^item> \<open>Loops\<close>: the event loop under a contract, locale \<open>loop_contract\<close>: what every invocation of a waiting
    coroutine meets and changes of the timeout queue keep, a poll, the walk over the timeouts and the
    whole loop meet.
  \<^item> \<open>Request\<close>: \<open>coroutine_function\<close>, \<open>coroutine_method\<close>, \<open>co_pdo_method\<close>, \<open>co_pdo_statement_method\<close>
    with their argument information, the resolution of a call by name to its handler and the parsing
    of the number of parameters (\<open>resolve\<close>, \<open>handler_call\<close>), and \<open>run_request\<close>, which runs PHP code that
    may call everything in the tables, the event loop inside coroutines included.
  \<^item> \<open>Invariants\<close>: invariants of the registry under every PHP program and the event loop. Locale
    \<open>code_invariant\<close> carries an invariant through every way code is composed, and
    \<open>system_invariant\<close> extends it to the methods, \<open>run_request\<close> and the event loop; the states of a
    request, whose calls are all calls of the tables, are the inductive predicate \<open>session\<close>.
  \<^item> \<open>Tasks\<close>, \<open>Ids\<close>, \<open>Sessions\<close>, \<open>Balance\<close>, \<open>Wakeup\<close>, \<open>Drain\<close>: theorems that span components. Task records keep their id as
    long as their page lives, so the coroutine that ends is the one that was created or resumed; the
    ids in live tasks, the bitmap and the count agree in every run of PHP code (\<open>books\<close>), and in every
    state of a request whose script also runs event loops (\<open>main_session\<close>; \<open>books_but\<close> leaves out the
    context of the script, which nothing resumes), when the engine keeps the VM stack as a stack
    (\<open>stack_discipline\<close>); a coroutine whose function calls nothing of the extension leaves all heaps as they
    were when it ends; \<open>sleep\<close> and the event loop together wake the sleeper; a poll that reports sleepers with
    nothing left to do (\<open>asleep\<close>, \<open>sleeper_ends\<close>) ends them all and frees what they held (\<open>drained\<close>).
  \<^item> \<open>Module\<close>: \<open>PHP_MINIT\<close>, \<open>PHP_RSHUTDOWN\<close>, \<open>PHP_MSHUTDOWN\<close>, \<open>coroutine_module_entry\<close> and \<open>initMutex\<close>; the
    classes the module registers are those \<open>resolve\<close> looks names up in; and the requests of one process:
    \<open>next_start\<close> is what a request leaves to the next one, \<open>script_from\<close> the states of its script.
  \<^item> \<open>Tests\<close>: scripts of \<open>tests/\<close> run by evaluation in the kernel, from the first call to the last poll, on the
    small engine of \<open>Demo\<close>.

  \<^bold>\<open>What is shown.\<close> For the ids: allocation and release are exact and keep the count, allocation always
  ends. For the queue and the hash table: refinement of their specifications, round trips, totality,
  absence of leaks on failure, and which operations go wrong on which states. For the registry:
  storing arms exactly the descriptor, freeing disarms it and releases what it owns, a refusal
  leaves nothing behind, and the invariant holds in every state a request can reach. For the life
  cycle, as long as no coroutine runs the event loop: a creation or resumption gives its caller back all its
  registers, checkpoints and contexts whatever else the coroutine does, jumps go to the innermost \<open>setjmp\<close>, saving and restoring a context are
  inverse, closing releases exactly what creation took, the coroutine that is closed is the one whose
  function ended, live coroutines have distinct ids in use and are counted right, over whole requests
  whose script runs event loops, and what the creation of a coroutine that calls nothing of the extension
  allocates is free when it returns. For the event loop: the registration is
  gone before the coroutine runs, a coroutine that sleeps goes on in the frame that called
  \<open>sleep\<close>, and a poll drains the sleepers it reports. For the tables: every name of the creating function is that function. For the wrappers:
  keys, status values and parameters against the API of PHP 5. Where the code does not do what it means to, the theorem states what it
  does: the error theorems on the limit of coroutines, lost waiters, contexts resumed twice,
  expired timeouts, the checkpoint after an event loop in a coroutine, and the shutdown of every request
  after the first one that used coroutines.

  \<^bold>\<open>Fuel and bounds.\<close> The walks over linked cells take as fuel the number of cells ever allocated: a
  walk over more cells is on a cycle, and then the code does not end (\<open>Diverges\<close>); for structures in
  their invariant the walks are proved to end. \<open>exec\<close> has fuel because PHP code need not end, and
  the theorems hold for every amount; the fuel of \<open>run_request\<close> also bounds the walks of the event
  loops it runs. Where a theorem promises a result it is stated for code that needs no fuel, or, in
  \<open>Balance\<close>, for every fuel but zero. \<open>timeout_loop\<close> has fuel because the code it runs can change the queue it walks. The
  sizes of the 64-bit ABI (16 bytes for a \<open>zval\<close>, 40 for a task, a page header of two slots) fix the
  layout of a stack page; the hypothesis that the stack size is at least 88 bytes says that the task
  record fits.

  \<^bold>\<open>Hypotheses on code outside the repository.\<close> \<open>polite\<close>: calling a function through the engine may
  close descriptors but adds none to the extension's epoll instance, and \<open>epoll_create\<close> succeeds.
  \<open>stack_discipline\<close>, in \<open>Ids\<close>, \<open>Sessions\<close> and \<open>Balance\<close>: the engine keeps the VM stack as a stack. It may extend
  the stack of a coroutine with pages of its own and drop them, but its registers stay on that stack, and
  when \<open>zend_execute_ex\<close> returns the stack is cut back to the page of the coroutine, which is so when the
  first frame fits that page; \<open>extending_discipline\<close> is an instance that extends the stack at every call. \<open>leaf\<close>, in \<open>Balance\<close>: the called function ends without a call
  of the extension and without an exception. \<open>sleeper_ends\<close> and \<open>destroy_ok\<close>, in \<open>Drain\<close>: the frames of a
  sleeper return without another call, an exception or a use of the result, whatever values the engine
  destroys in between. \<open>zend_hash_laws\<close>, in \<open>Wrapper\<close>: Zend hash tables are maps. \<open>class_laws\<close>, in \<open>Module\<close>: the
  class table finds what was registered. \<open>next_start\<close>: the engine frees the memory of a request at its end,
  and the model gives out no address twice.
  The type of \<open>engine\<close> itself assumes that its functions \<open>zval_ptr_dtor\<close>, \<open>release_frame\<close>, \<open>callable\<close> and
  \<open>call_user_function\<close> act on the engine's own state (the last one on the kernel, too) and call nothing of the
  extension, although a destructor, an autoloader or a callback could; PHP code that is run through
  \<open>zend_execute_ex\<close> may. With this, the theorems of \<open>Lifecycle\<close> and \<open>Tasks\<close> hold for every engine.

  \<^bold>\<open>Not modelled.\<close> The branches of \<open>coroutine_util.c\<close> for PHP before 7.2, which only call the engine's own
  function, and the macros of \<open>php7_wrapper.h\<close> that only rename a function of the engine or drop a
  parameter; \<open>php_pdo_mysql_int.h\<close>, a copy of a third-party header, but for the connection handle; the
  parsing of parameters by the engine (\<open>parameters_ok\<close>, \<open>parse_long\<close>); the passage of time
  (\<open>timerfd_settime\<close>): what a poll reports is an argument, and so the array of events that \<open>event_loop\<close>
  allocates for it is not modelled. \<open>resume\<close> and \<open>socket_set_timeout\<close> have a \<open>zend_long\<close> parsed into an \<open>int\<close>:
  the model takes the low half and leaves out the four bytes written behind the variable.
  The theorems of \<open>Discipline\<close>, \<open>Lifecycle\<close>, \<open>Tasks\<close>, \<open>Ids\<close> and \<open>Balance\<close> are about \<open>exec\<close>, whose programs
  call everything but \<open>event_loop\<close>: an event loop inside a coroutine breaks the discipline of checkpoints, as the
  theorem on the overwritten checkpoint shows. \<open>Sessions\<close> covers the event loops the script itself runs;
  the invariant of the registry covers those inside coroutines as well.
\<close>

end
